(* ===== verification/Prelude.thy ===== *)
theory Prelude
  imports Main "HOL-Library.Word"
begin

text \<open>
  Shared vocabulary of the development: Go results with an explicit panic, byte strings
  and the big-endian integers of \<^verbatim>\<open>encoding/binary\<close>, bounds-checked slice access,
  and the generic codec interface every wire format of the library satisfies.
\<close>

unbundle bit_operations_syntax

section \<open>Results\<close>

text \<open>
  A Go function that returns \<^verbatim>\<open>(T, error)\<close> yields \<open>Ok\<close> or \<open>Err\<close>. An index or slice
  expression out of range panics; that is a third outcome, so that the absence of
  panics is a statement and not an assumption.
\<close>

datatype ('e, 'a) res = Ok 'a | Err 'e | Panic

fun bind_res :: "('e, 'a) res \<Rightarrow> ('a \<Rightarrow> ('e, 'b) res) \<Rightarrow> ('e, 'b) res" where
  "bind_res (Ok x) f = f x"
| "bind_res (Err e) f = Err e"
| "bind_res Panic f = Panic"

text \<open>\<^verbatim>\<open>fmt.Errorf("...: %w", err)\<close> wraps the error of a callee.\<close>

fun wrap_err :: "('e \<Rightarrow> 'f) \<Rightarrow> ('e, 'a) res \<Rightarrow> ('f, 'a) res" where
  "wrap_err w (Ok x) = Ok x"
| "wrap_err w (Err e) = Err (w e)"
| "wrap_err w Panic = Panic"

fun fmap_res :: "('a \<Rightarrow> 'b) \<Rightarrow> ('e, 'a) res \<Rightarrow> ('e, 'b) res" where
  "fmap_res f (Ok x) = Ok (f x)"
| "fmap_res f (Err e) = Err e"
| "fmap_res f Panic = Panic"

named_theorems panic_free \<open>rules that show that a computation does not panic\<close>
named_theorems wire_simps \<open>evaluation of encoders and of bounds-checked reads\<close>

lemma bind_res_cong [fundef_cong]:
  "m = m' \<Longrightarrow> (\<And>x. m' = Ok x \<Longrightarrow> f x = g x) \<Longrightarrow> bind_res m f = bind_res m' g"
  by (cases m') auto

lemma bind_res_Ok_iff:
  "bind_res m f = Ok y \<longleftrightarrow> (\<exists>x. m = Ok x \<and> f x = Ok y)"
  by (cases m) auto

lemma bind_res_Err_iff:
  "bind_res m f = Err e \<longleftrightarrow> m = Err e \<or> (\<exists>x. m = Ok x \<and> f x = Err e)"
  by (cases m) auto

lemma bind_res_Panic_iff:
  "bind_res m f = Panic \<longleftrightarrow> m = Panic \<or> (\<exists>x. m = Ok x \<and> f x = Panic)"
  by (cases m) auto

lemma bind_res_no_panic [panic_free]:
  assumes "m \<noteq> Panic" and "\<And>x. m = Ok x \<Longrightarrow> f x \<noteq> Panic"
  shows "bind_res m f \<noteq> Panic"
  using assms by (cases m) auto

lemma wrap_err_Ok_iff [simp]: "wrap_err w m = Ok x \<longleftrightarrow> m = Ok x"
  by (cases m) auto

lemma wrap_err_Panic_iff [simp]: "wrap_err w m = Panic \<longleftrightarrow> m = Panic"
  by (cases m) auto

lemma map_res_Ok_iff [simp]: "fmap_res f m = Ok y \<longleftrightarrow> (\<exists>x. m = Ok x \<and> y = f x)"
  by (cases m) auto

lemma map_res_Panic_iff [simp]: "fmap_res f m = Panic \<longleftrightarrow> m = Panic"
  by (cases m) auto

lemma fmap_res_no_panic [panic_free]: "m \<noteq> Panic \<Longrightarrow> fmap_res f m \<noteq> Panic"
  by simp

lemma wrap_err_no_panic [panic_free]: "m \<noteq> Panic \<Longrightarrow> wrap_err w m \<noteq> Panic"
  by simp

lemma if_no_panic [panic_free]:
  "(c \<Longrightarrow> a \<noteq> Panic) \<Longrightarrow> (\<not> c \<Longrightarrow> b \<noteq> Panic) \<Longrightarrow> (if c then a else b) \<noteq> Panic"
  by simp

lemma Ok_no_panic [panic_free]: "Ok x \<noteq> Panic"
  by simp

lemma Err_no_panic [panic_free]: "Err e \<noteq> Panic"
  by simp

section \<open>Bytes and big-endian integers\<close>

type_synonym byte = "8 word"
type_synonym bytes = "byte list"

text \<open>\<^verbatim>\<open>binary.BigEndian.PutUint16/32/64\<close> and \<^verbatim>\<open>Uint16/32/64\<close>.\<close>

definition be16 :: "16 word \<Rightarrow> bytes" where
  "be16 w = [ucast (drop_bit 8 w), ucast w]"

definition be32 :: "32 word \<Rightarrow> bytes" where
  "be32 w = [ucast (drop_bit 24 w), ucast (drop_bit 16 w), ucast (drop_bit 8 w), ucast w]"

definition be64 :: "64 word \<Rightarrow> bytes" where
  "be64 w = be32 (ucast (drop_bit 32 w)) @ be32 (ucast w)"

definition u16 :: "byte \<Rightarrow> byte \<Rightarrow> 16 word" where
  "u16 a b = (push_bit 8 (ucast a) OR ucast b)"

definition u32 :: "byte \<Rightarrow> byte \<Rightarrow> byte \<Rightarrow> byte \<Rightarrow> 32 word" where
  "u32 a b c d =
     (push_bit 24 (ucast a) OR push_bit 16 (ucast b) OR push_bit 8 (ucast c) OR ucast d)"

definition u64 :: "32 word \<Rightarrow> 32 word \<Rightarrow> 64 word" where
  "u64 hi lo = (push_bit 32 (ucast hi) OR ucast lo)"

lemma length_be16 [simp]: "length (be16 w) = 2"
  by (simp add: be16_def)

lemma length_be32 [simp]: "length (be32 w) = 4"
  by (simp add: be32_def)

lemma length_be64 [simp]: "length (be64 w) = 8"
  by (simp add: be64_def)

lemma u16_be16 [simp]: "u16 (ucast (drop_bit 8 w)) (ucast w) = w"
  unfolding u16_def by (rule bit_word_eqI) (auto simp: bit_simps)

lemma u32_be32 [simp]:
  "u32 (ucast (drop_bit 24 w)) (ucast (drop_bit 16 w)) (ucast (drop_bit 8 w)) (ucast w) = w"
proof (rule bit_word_eqI)
  fix n assume n: "n < LENGTH(32)"
  consider "n < 8" | "8 \<le> n" "n < 16" | "16 \<le> n" "n < 24" | "24 \<le> n" "n < 32"
    using n by force
  then show "bit (u32 (ucast (drop_bit 24 w)) (ucast (drop_bit 16 w))
      (ucast (drop_bit 8 w)) (ucast w)) n \<longleftrightarrow> bit w n"
    unfolding u32_def by cases (auto simp: bit_simps)
qed

lemma u64_be64 [simp]: "u64 (ucast (drop_bit 32 w)) (ucast w) = w"
  unfolding u64_def by (rule bit_word_eqI) (auto simp: bit_simps)

lemma byte_bit_le: "bit (b :: byte) n \<Longrightarrow> n < 8"
  using bit_imp_le_length [of b n] by simp

lemma be16_u16 [simp]: "be16 (u16 a b) = [a, b]"
  unfolding u16_def be16_def
  by (auto intro!: bit_word_eqI simp: bit_simps dest: byte_bit_le)

lemma byte_high_bits [simp]: "\<not> bit (b :: byte) (8 + n)" "\<not> bit b (16 + n)" "\<not> bit b (24 + n)"
  using byte_bit_le [of b "8 + n"] byte_bit_le [of b "16 + n"] byte_bit_le [of b "24 + n"] by auto

lemma be32_u32 [simp]: "be32 (u32 a b c d) = [a, b, c, d]"
  unfolding u32_def be32_def
  by (auto intro!: bit_word_eqI simp: bit_simps)

lemma be16_inject [simp]: "be16 v = be16 w \<longleftrightarrow> v = w"
proof
  assume "be16 v = be16 w"
  then have "u16 (be16 v ! 0) (be16 v ! 1) = u16 (be16 w ! 0) (be16 w ! 1)" by simp
  then show "v = w" by (simp add: be16_def)
qed simp

lemma be32_inject [simp]: "be32 v = be32 w \<longleftrightarrow> v = w"
proof
  assume "be32 v = be32 w"
  then have "u32 (be32 v ! 0) (be32 v ! 1) (be32 v ! 2) (be32 v ! 3)
    = u32 (be32 w ! 0) (be32 w ! 1) (be32 w ! 2) (be32 w ! 3)" by simp
  then show "v = w" by (simp add: be32_def)
qed simp

lemma unat_of_nat16: "n < 2 ^ 16 \<Longrightarrow> unat (of_nat n :: 16 word) = n"
  by (simp add: unat_of_nat take_bit_nat_eq_self)

lemma unat_of_nat32: "n < 2 ^ 32 \<Longrightarrow> unat (of_nat n :: 32 word) = n"
  by (simp add: unat_of_nat take_bit_nat_eq_self)

lemma unat_of_nat64: "n < 2 ^ 64 \<Longrightarrow> unat (of_nat n :: 64 word) = n"
  by (simp add: unat_of_nat take_bit_nat_eq_self)

lemma unat16_less: "unat (w :: 16 word) < 65536"
  using unsigned_less [of w] by simp

lemma unat32_less: "unat (w :: 32 word) < 4294967296"
  using unsigned_less [of w] by simp

lemma unat8_less: "unat (w :: byte) < 256"
  using unsigned_less [of w] by simp

section \<open>Slices\<close>

text \<open>
  \<open>go_slice b i j\<close> is Go's \<^verbatim>\<open>b[i:j]\<close>: it panics unless \<open>i \<le> j \<le> len(b)\<close>. (Go checks the
  upper bound against the capacity; a slice expression that passes the length but not the
  capacity would read bytes that are not its own, and counts as a panic here.)
\<close>

definition go_slice :: "'a list \<Rightarrow> nat \<Rightarrow> nat \<Rightarrow> ('e, 'a list) res" where
  "go_slice b i j = (if i \<le> j \<and> j \<le> length b then Ok (take (j - i) (drop i b)) else Panic)"

definition slice_from :: "'a list \<Rightarrow> nat \<Rightarrow> ('e, 'a list) res" where
  "slice_from b i = (if i \<le> length b then Ok (drop i b) else Panic)"

definition get8 :: "bytes \<Rightarrow> nat \<Rightarrow> ('e, byte) res" where
  "get8 b i = (if i < length b then Ok (b ! i) else Panic)"

definition get16 :: "bytes \<Rightarrow> nat \<Rightarrow> ('e, 16 word) res" where
  "get16 b i = (if i + 2 \<le> length b then Ok (u16 (b ! i) (b ! (i + 1))) else Panic)"

definition get32 :: "bytes \<Rightarrow> nat \<Rightarrow> ('e, 32 word) res" where
  "get32 b i =
     (if i + 4 \<le> length b then Ok (u32 (b ! i) (b ! (i + 1)) (b ! (i + 2)) (b ! (i + 3)))
      else Panic)"

lemma slice_no_panic [panic_free]: "i \<le> j \<Longrightarrow> j \<le> length b \<Longrightarrow> go_slice b i j \<noteq> Panic"
  by (simp add: go_slice_def)

lemma slice_from_no_panic [panic_free]: "i \<le> length b \<Longrightarrow> slice_from b i \<noteq> Panic"
  by (simp add: slice_from_def)

lemma get8_no_panic [panic_free]: "i < length b \<Longrightarrow> get8 b i \<noteq> Panic"
  by (simp add: get8_def)

lemma get16_no_panic [panic_free]: "i + 2 \<le> length b \<Longrightarrow> get16 b i \<noteq> Panic"
  by (simp add: get16_def)

lemma get32_no_panic [panic_free]: "i + 4 \<le> length b \<Longrightarrow> get32 b i \<noteq> Panic"
  by (simp add: get32_def)

lemma slice_Panic_iff [simp]: "go_slice b i j = Panic \<longleftrightarrow> \<not> (i \<le> j \<and> j \<le> length b)"
  by (simp add: go_slice_def)

lemma slice_from_Panic_iff [simp]: "slice_from b i = Panic \<longleftrightarrow> length b < i"
  by (simp add: slice_from_def)

lemma get8_Panic_iff [simp]: "get8 b i = Panic \<longleftrightarrow> length b \<le> i"
  by (simp add: get8_def)

lemma get16_Panic_iff [simp]: "get16 b i = Panic \<longleftrightarrow> length b < i + 2"
  by (simp add: get16_def)

lemma get32_Panic_iff [simp]: "get32 b i = Panic \<longleftrightarrow> length b < i + 4"
  by (simp add: get32_def)

lemma slice_not_Err [simp]: "go_slice b i j \<noteq> Err e"
  by (simp add: go_slice_def)

lemma slice_from_not_Err [simp]: "slice_from b i \<noteq> Err e"
  by (simp add: slice_from_def)

lemma get8_not_Err [simp]: "get8 b i \<noteq> Err e"
  by (simp add: get8_def)

lemma get16_not_Err [simp]: "get16 b i \<noteq> Err e"
  by (simp add: get16_def)

lemma get32_not_Err [simp]: "get32 b i \<noteq> Err e"
  by (simp add: get32_def)

lemma slice_Ok_length: "go_slice b i j = Ok s \<Longrightarrow> length s = j - i \<and> i \<le> j \<and> j \<le> length b"
  by (auto simp: go_slice_def split: if_splits)

text \<open>Reading at a known place of a concatenation.\<close>

lemma get8_append2 [wire_simps]: "length xs \<le> i \<Longrightarrow> get8 (xs @ ys) i = get8 ys (i - length xs)"
  by (auto simp: get8_def nth_append)

lemma get8_append1 [wire_simps]: "i < length xs \<Longrightarrow> get8 (xs @ ys) i = get8 xs i"
  by (auto simp: get8_def nth_append)

lemma get8_Cons0 [wire_simps]: "get8 (x # xs) 0 = Ok x"
  by (simp add: get8_def)

lemma get8_Cons [wire_simps]: "0 < i \<Longrightarrow> get8 (x # xs) i = get8 xs (i - 1)"
  by (auto simp: get8_def nth_Cons')

lemma get16_append2 [wire_simps]:
  "length xs \<le> i \<Longrightarrow> get16 (xs @ ys) i = get16 ys (i - length xs)"
  by (auto simp: get16_def nth_append Suc_diff_le)

lemma get16_be16 [wire_simps]: "get16 (be16 w @ ys) 0 = Ok w" "get16 (be16 w) 0 = Ok w"
  by (simp_all add: get16_def be16_def)

lemma get16_Cons [wire_simps]: "0 < i \<Longrightarrow> get16 (x # xs) i = get16 xs (i - 1)"
  by (auto simp: get16_def nth_Cons')

lemma get32_append2 [wire_simps]:
  "length xs \<le> i \<Longrightarrow> get32 (xs @ ys) i = get32 ys (i - length xs)"
  by (auto simp: get32_def nth_append Suc_diff_le)

lemma get32_be32 [wire_simps]: "get32 (be32 w @ ys) 0 = Ok w" "get32 (be32 w) 0 = Ok w"
  by (simp_all add: get32_def be32_def)

lemma get32_Cons [wire_simps]: "0 < i \<Longrightarrow> get32 (x # xs) i = get32 xs (i - 1)"
  by (auto simp: get32_def nth_Cons')

lemma slice_append2 [wire_simps]:
  "length xs \<le> i \<Longrightarrow> i \<le> j \<Longrightarrow> go_slice (xs @ ys) i j = go_slice ys (i - length xs) (j - length xs)"
  by (auto simp: go_slice_def)

lemma slice_Cons [wire_simps]: "0 < i \<Longrightarrow> i \<le> j \<Longrightarrow> go_slice (x # xs) i j = go_slice xs (i - 1) (j - 1)"
  by (cases i; cases j) (auto simp: go_slice_def)

lemma slice_prefix [wire_simps]: "j = length xs \<Longrightarrow> go_slice (xs @ ys) 0 j = Ok xs"
  by (simp add: go_slice_def)

lemma slice_all [wire_simps]: "j = length xs \<Longrightarrow> go_slice xs 0 j = Ok xs"
  by (simp add: go_slice_def)

lemma slice_from_append2 [wire_simps]:
  "length xs \<le> i \<Longrightarrow> slice_from (xs @ ys) i = slice_from ys (i - length xs)"
  by (auto simp: slice_from_def)

lemma slice_from_0 [wire_simps]: "slice_from xs 0 = Ok xs"
  by (simp add: slice_from_def)

lemma slice_from_Cons [wire_simps]: "0 < i \<Longrightarrow> slice_from (x # xs) i = slice_from xs (i - 1)"
  by (cases i) (auto simp: slice_from_def)

text \<open>What a successful read says about the bytes.\<close>

lemma take_2_drop: "i + 2 \<le> length b \<Longrightarrow> take 2 (drop i b) = [b ! i, b ! (i + 1)]"
  by (rule nth_equalityI) (auto simp: nth_Cons' less_Suc_eq numeral_2_eq_2)

lemma take_4_drop:
  "i + 4 \<le> length b \<Longrightarrow> take 4 (drop i b) = [b ! i, b ! (i + 1), b ! (i + 2), b ! (i + 3)]"
  by (rule nth_equalityI) (auto simp: nth_Cons' less_Suc_eq eval_nat_numeral)

lemma be16_eq_iff: "be16 w = [a, b] \<longleftrightarrow> w = u16 a b"
  by (metis be16_inject be16_u16)

lemma be32_eq_iff: "be32 w = [a, b, c, d] \<longleftrightarrow> w = u32 a b c d"
  by (metis be32_inject be32_u32)

lemma get16_Ok_iff: "get16 b i = Ok w \<longleftrightarrow> i + 2 \<le> length b \<and> take 2 (drop i b) = be16 w"
  by (cases "i + 2 \<le> length b")
    (auto simp: get16_def take_2_drop be16_eq_iff eq_commute [of "[_, _]"])

lemma get32_Ok_iff: "get32 b i = Ok w \<longleftrightarrow> i + 4 \<le> length b \<and> take 4 (drop i b) = be32 w"
  by (cases "i + 4 \<le> length b")
    (auto simp: get32_def take_4_drop be32_eq_iff eq_commute [of "[_, _, _, _]"])

text \<open>
  A fresh buffer of \<open>n\<close> zero bytes into which \<open>v\<close> is copied from the start
  (\<^verbatim>\<open>make\<close> followed by \<^verbatim>\<open>copy\<close>).
\<close>

definition fit :: "nat \<Rightarrow> bytes \<Rightarrow> bytes" where
  "fit n v = take n v @ replicate (n - length v) 0"

lemma length_fit [simp]: "length (fit n v) = n"
  by (simp add: fit_def)

lemma fit_exact [simp]: "length v = n \<Longrightarrow> fit n v = v"
  by (simp add: fit_def)

section \<open>Codecs\<close>

text \<open>Reading \<open>n\<close> elements one after the other.\<close>

fun dec_n :: "(bytes \<Rightarrow> ('e, 'a \<times> bytes) res) \<Rightarrow> nat \<Rightarrow> bytes \<Rightarrow> ('e, 'a list \<times> bytes) res"
where
  "dec_n dec 0 b = Ok ([], b)"
| "dec_n dec (Suc n) b =
     bind_res (dec b) (\<lambda>(x, r). fmap_res (\<lambda>(xs, r'). (x # xs, r')) (dec_n dec n r))"

text \<open>
  The contract of a wire format that is read from the front of a byte sequence: what the
  encoder wrote, the decoder reads back (as the decoder's \<open>view\<close> of it), leaving the rest
  untouched. Everything the
  development needs about sequences of such elements follows from that one law.
\<close>

locale prefix_codec =
  fixes enc :: "'a \<Rightarrow> bytes"
    and dec :: "bytes \<Rightarrow> ('e, 'b \<times> bytes) res"
    and view :: "'a \<Rightarrow> 'b"
    and valid :: "'a \<Rightarrow> bool"
  assumes dec_enc: "valid x \<Longrightarrow> dec (enc x @ rest) = Ok (view x, rest)"
begin

lemma enc_prefix_free:
  assumes "valid x" and "valid y" and "enc x @ r = enc y @ s"
  shows "view x = view y \<and> r = s"
proof -
  from assms have "Ok (view x, r) = (Ok (view y, s) :: ('e, 'b \<times> bytes) res)"
    by (simp only: dec_enc [symmetric])
  then show ?thesis by simp
qed

lemma dec_n_concat:
  "list_all valid xs \<Longrightarrow>
   dec_n dec (length xs) (concat (map enc xs) @ rest) = Ok (map view xs, rest)"
  by (induction xs) (simp_all add: dec_enc)

lemma concat_inject:
  assumes "list_all valid xs" and "list_all valid ys" and "length xs = length ys"
    and "concat (map enc xs) @ r = concat (map enc ys) @ s"
  shows "map view xs = map view ys \<and> r = s"
proof -
  from assms have "Ok (map view xs, r) = (Ok (map view ys, s) :: ('e, 'b list \<times> bytes) res)"
    by (metis dec_n_concat)
  then show ?thesis by simp
qed

end

text \<open>The integers of the wire are such codecs.\<close>

definition dec16 :: "bytes \<Rightarrow> ('e, 16 word \<times> bytes) res" where
  "dec16 b = bind_res (get16 b 0) (\<lambda>w. Ok (w, drop 2 b))"

definition dec32 :: "bytes \<Rightarrow> ('e, 32 word \<times> bytes) res" where
  "dec32 b = bind_res (get32 b 0) (\<lambda>w. Ok (w, drop 4 b))"

interpretation int16: prefix_codec be16 dec16 id "\<lambda>_. True"
  by unfold_locales (simp add: dec16_def wire_simps)

interpretation int32: prefix_codec be32 dec32 id "\<lambda>_. True"
  by unfold_locales (simp add: dec32_def wire_simps)

section \<open>Machines\<close>

text \<open>
  A component with state is driven by a sequence of operations. What every operation
  keeps, every run keeps; and where each operation only appends to a log, so does a run.
\<close>

locale invariant_machine =
  fixes exec :: "'o \<Rightarrow> 's \<Rightarrow> 's" and inv :: "'s \<Rightarrow> bool"
  assumes exec_inv: "inv s \<Longrightarrow> inv (exec op s)"
begin

lemma run_inv: "inv s \<Longrightarrow> inv (fold exec ops s)"
  by (induction ops arbitrary: s) (simp_all add: exec_inv)

end

locale logging_machine =
  fixes exec :: "'o \<Rightarrow> 's \<Rightarrow> 's" and log :: "'s \<Rightarrow> 'l list"
  assumes exec_log: "\<exists>new. log (exec op s) = log s @ new \<and> length new \<le> 1"
begin

lemma run_log: "\<exists>new. log (fold exec ops s) = log s @ new \<and> length new \<le> length ops"
proof (induction ops arbitrary: s)
  case Nil
  then show ?case by simp
next
  case (Cons op ops)
  obtain n1 where "log (exec op s) = log s @ n1" "length n1 \<le> 1"
    using exec_log by blast
  moreover obtain n2 where "log (fold exec ops (exec op s)) = log (exec op s) @ n2"
    "length n2 \<le> length ops" using Cons.IH by blast
  ultimately show ?case by (intro exI [of _ "n1 @ n2"]) simp
qed

end

end
