(* ===== verification/GoText.thy ===== *)
theory GoText
  imports Prelude
begin

text \<open>
  Go strings and the functions of \<^verbatim>\<open>strings\<close>, \<^verbatim>\<open>unicode/utf8\<close> and \<^verbatim>\<open>unicode/utf16\<close> that
  the library uses. A Go string is a sequence of bytes, here a \<open>string\<close> (a character is a
  byte); a rune is a natural number. The Unicode case and letter tables beyond ASCII are
  data of the Go distribution and a parameter.
\<close>

record golib =
  unicode_ToUpper :: "nat \<Rightarrow> nat"
  unicode_IsLetter :: "nat \<Rightarrow> bool"

section \<open>Bytes and characters\<close>

definition byte_of_char :: "char \<Rightarrow> byte" where
  "byte_of_char c = of_nat (of_char c)"

definition char_of_byte :: "byte \<Rightarrow> char" where
  "char_of_byte b = char_of (unat b)"

definition bytes_of_string :: "string \<Rightarrow> bytes" where
  "bytes_of_string = map byte_of_char"

definition string_of_bytes :: "bytes \<Rightarrow> string" where
  "string_of_bytes = map char_of_byte"

lemma of_char_less [simp]: "(of_char c :: nat) < 256"
  using of_char_mod_256 [of c, where 'a = nat] mod_less_divisor by (metis zero_less_numeral)

lemma unat_byte_of_char [simp]: "unat (byte_of_char c) = of_char c"
  by (simp add: byte_of_char_def unat_of_nat take_bit_nat_eq_self)

lemma char_of_byte_of_char [simp]: "char_of_byte (byte_of_char c) = c"
  by (simp add: char_of_byte_def)

lemma byte_of_char_of_byte [simp]: "byte_of_char (char_of_byte b) = b"
  using unat8_less [of b] by (simp add: byte_of_char_def char_of_byte_def)

lemma byte_of_char_inject [simp]: "byte_of_char c = byte_of_char d \<longleftrightarrow> c = d"
  by (metis char_of_byte_of_char)

lemma string_of_bytes_of_string [simp]: "string_of_bytes (bytes_of_string s) = s"
  by (induction s) (simp_all add: string_of_bytes_def bytes_of_string_def)

lemma bytes_of_string_of_bytes [simp]: "bytes_of_string (string_of_bytes b) = b"
  by (induction b) (simp_all add: string_of_bytes_def bytes_of_string_def)

lemma length_bytes_of_string [simp]: "length (bytes_of_string s) = length s"
  by (simp add: bytes_of_string_def)

lemma length_string_of_bytes [simp]: "length (string_of_bytes b) = length b"
  by (simp add: string_of_bytes_def)

section \<open>UTF-8\<close>

definition RuneError :: nat where "RuneError = 0xFFFD"

definition cont_byte :: "nat \<Rightarrow> bool" where
  "cont_byte b \<longleftrightarrow> 0x80 \<le> b \<and> b \<le> 0xBF"

text \<open>
  \<^verbatim>\<open>utf8.DecodeRune\<close>: the rune at the front and its width; an ill-formed sequence is
  \<^verbatim>\<open>RuneError\<close> of width 1.
\<close>

fun decode2 :: "nat \<Rightarrow> nat list \<Rightarrow> nat \<times> nat" where
  "decode2 b0 (b1 # t) =
     (if cont_byte b1 then ((b0 - 0xC0) * 64 + (b1 - 0x80), 2) else (RuneError, 1))"
| "decode2 b0 t = (RuneError, 1)"

fun decode3 :: "nat \<Rightarrow> nat list \<Rightarrow> nat \<times> nat" where
  "decode3 b0 (b1 # b2 # t) =
     (if (if b0 = 0xE0 then 0xA0 else 0x80) \<le> b1 \<and> b1 \<le> (if b0 = 0xED then 0x9F else 0xBF)
         \<and> cont_byte b2
      then ((b0 - 0xE0) * 4096 + (b1 - 0x80) * 64 + (b2 - 0x80), 3) else (RuneError, 1))"
| "decode3 b0 t = (RuneError, 1)"

fun decode4 :: "nat \<Rightarrow> nat list \<Rightarrow> nat \<times> nat" where
  "decode4 b0 (b1 # b2 # b3 # t) =
     (if (if b0 = 0xF0 then 0x90 else 0x80) \<le> b1 \<and> b1 \<le> (if b0 = 0xF4 then 0x8F else 0xBF)
         \<and> cont_byte b2 \<and> cont_byte b3
      then ((b0 - 0xF0) * 262144 + (b1 - 0x80) * 4096 + (b2 - 0x80) * 64 + (b3 - 0x80), 4)
      else (RuneError, 1))"
| "decode4 b0 t = (RuneError, 1)"

fun decode_rune :: "nat list \<Rightarrow> nat \<times> nat" where
  "decode_rune [] = (RuneError, 0)"
| "decode_rune (b0 # t) =
     (if b0 < 0x80 then (b0, 1)
      else if 0xC2 \<le> b0 \<and> b0 \<le> 0xDF then decode2 b0 t
      else if 0xE0 \<le> b0 \<and> b0 \<le> 0xEF then decode3 b0 t
      else if 0xF0 \<le> b0 \<and> b0 \<le> 0xF4 then decode4 b0 t
      else (RuneError, 1))"

lemma decode_rune_width: "bs \<noteq> [] \<Longrightarrow> 1 \<le> snd (decode_rune bs)"
proof (cases bs)
  case (Cons b t)
  have "1 \<le> snd (decode2 b t)" "1 \<le> snd (decode3 b t)" "1 \<le> snd (decode4 b t)"
    by (cases "(b, t)" rule: decode2.cases, simp_all)
      (cases "(b, t)" rule: decode3.cases, simp_all,
       cases "(b, t)" rule: decode4.cases, simp_all)
  then show ?thesis using Cons by simp
qed simp

lemma decode_rune_drop:
  "bs \<noteq> [] \<Longrightarrow> decode_rune bs = (r, w) \<Longrightarrow> length bs - w < length bs"
  using decode_rune_width [of bs] by (cases bs) auto

text \<open>\<^verbatim>\<open>[]rune(s)\<close>, and the loop \<^verbatim>\<open>for _, r := range s\<close>.\<close>

function decode_runes :: "nat list \<Rightarrow> nat list" where
  "decode_runes bs =
     (if bs = [] then [] else
        (case decode_rune bs of (r, w) \<Rightarrow> r # decode_runes (drop w bs)))"
  by pat_completeness auto
termination
  by (relation "measure length") (auto dest: decode_rune_drop [OF _ sym])

declare decode_runes.simps [simp del]

definition runes :: "string \<Rightarrow> nat list" where
  "runes s = decode_runes (map of_char s)"

text \<open>\<^verbatim>\<open>utf8.AppendRune\<close>: surrogates and values beyond Unicode are written as \<^verbatim>\<open>RuneError\<close>.\<close>

definition scalar :: "nat \<Rightarrow> bool" where
  "scalar r \<longleftrightarrow> r < 0xD800 \<or> 0xE000 \<le> r \<and> r \<le> 0x10FFFF"

definition utf8_of_rune :: "nat \<Rightarrow> nat list" where
  "utf8_of_rune r0 =
     (let r = (if scalar r0 then r0 else RuneError) in
      if r < 0x80 then [r]
      else if r < 0x800 then [0xC0 + r div 64, 0x80 + r mod 64]
      else if r < 0x10000 then [0xE0 + r div 4096, 0x80 + r div 64 mod 64, 0x80 + r mod 64]
      else [0xF0 + r div 262144, 0x80 + r div 4096 mod 64, 0x80 + r div 64 mod 64,
            0x80 + r mod 64])"

text \<open>\<^verbatim>\<open>string(runes)\<close>.\<close>

definition string_of_runes :: "nat list \<Rightarrow> string" where
  "string_of_runes rs = map char_of (concat (map utf8_of_rune rs))"

section \<open>UTF-16\<close>

text \<open>\<^verbatim>\<open>utf16.Encode\<close>.\<close>

fun utf16_of_rune :: "nat \<Rightarrow> 16 word list" where
  "utf16_of_rune r =
     (if \<not> scalar r then [of_nat RuneError]
      else if r < 0x10000 then [of_nat r]
      else [of_nat (0xD800 + (r - 0x10000) div 1024), of_nat (0xDC00 + (r - 0x10000) mod 1024)])"

section \<open>Upper case, trimming, spaces\<close>

definition ascii_upper :: "nat \<Rightarrow> nat" where
  "ascii_upper c = (if 0x61 \<le> c \<and> c \<le> 0x7A then c - 32 else c)"

definition upper_rune :: "'a golib_scheme \<Rightarrow> nat \<Rightarrow> nat" where
  "upper_rune G r = (if r < 0x80 then ascii_upper r else unicode_ToUpper G r)"

text \<open>\<^verbatim>\<open>strings.ToUpper\<close>: byte by byte for ASCII strings, else rune by rune.\<close>

definition ToUpper :: "'a golib_scheme \<Rightarrow> string \<Rightarrow> string" where
  "ToUpper G s =
     (if list_all (\<lambda>c. (of_char c :: nat) < 0x80) s
      then map (\<lambda>c. char_of (ascii_upper (of_char c))) s
      else string_of_runes (map (upper_rune G) (runes s)))"

definition trim_right :: "('a \<Rightarrow> bool) \<Rightarrow> 'a list \<Rightarrow> 'a list" where
  "trim_right p xs = rev (dropWhile p (rev xs))"

definition trim_both :: "('a \<Rightarrow> bool) \<Rightarrow> 'a list \<Rightarrow> 'a list" where
  "trim_both p xs = trim_right p (dropWhile p xs)"

text \<open>\<^verbatim>\<open>unicode.IsSpace\<close>, whose table is short enough to be written out.\<close>

definition is_space :: "nat \<Rightarrow> bool" where
  "is_space r \<longleftrightarrow> r \<in> {0x09, 0x0A, 0x0B, 0x0C, 0x0D, 0x20, 0x85, 0xA0, 0x1680, 0x2028, 0x2029,
     0x202F, 0x205F, 0x3000} \<or> 0x2000 \<le> r \<and> r \<le> 0x200A"

definition is_letter :: "'a golib_scheme \<Rightarrow> nat \<Rightarrow> bool" where
  "is_letter G r \<longleftrightarrow>
     (if r < 0x80 then 0x41 \<le> r \<and> r \<le> 0x5A \<or> 0x61 \<le> r \<and> r \<le> 0x7A else unicode_IsLetter G r)"

text \<open>\<^verbatim>\<open>strings.TrimRight(s, " ")\<close>.\<close>

definition TrimRightBlanks :: "string \<Rightarrow> string" where
  "TrimRightBlanks s = trim_right (\<lambda>c. c = CHR '' '') s"

section \<open>Lemmas\<close>

lemma length_trim_right: "length (trim_right p xs) \<le> length xs"
  using length_dropWhile_le [of p "rev xs"] by (simp add: trim_right_def)

lemma trim_right_append_all [simp]:
  "list_all p ys \<Longrightarrow> trim_right p (xs @ ys) = trim_right p xs"
  by (induction ys rule: rev_induct) (auto simp: trim_right_def)

lemma trim_right_replicate [simp]: "p x \<Longrightarrow> trim_right p (xs @ replicate n x) = trim_right p xs"
  by (rule trim_right_append_all) (simp add: list_all_iff)

lemma trim_right_id: "xs = [] \<or> \<not> p (last xs) \<Longrightarrow> trim_right p xs = xs"
  by (cases xs rule: rev_cases) (auto simp: trim_right_def)

lemma split_64: "(r :: nat) div 64 * 64 + r mod 64 = r"
  by (rule div_mult_mod_eq)

lemma split_4096: "(r :: nat) div 4096 * 4096 + r div 64 mod 64 * 64 + r mod 64 = r"
proof -
  have "r div 4096 = r div 64 div 64" by (simp flip: div_mult2_eq)
  then show ?thesis using split_64 [of r] split_64 [of "r div 64"] by linarith
qed

lemma split_262144:
  "(r :: nat) div 262144 * 262144 + r div 4096 mod 64 * 4096 + r div 64 mod 64 * 64 + r mod 64 = r"
proof -
  have "r div 262144 = r div 4096 div 64" by (simp flip: div_mult2_eq)
  then show ?thesis using split_4096 [of r] split_64 [of "r div 4096"] by linarith
qed

lemma decode_utf8_of_rune:
  assumes "scalar r"
  shows "decode_rune (utf8_of_rune r @ t) = (r, length (utf8_of_rune r))"
proof -
  consider "r < 0x80" | "0x80 \<le> r" "r < 0x800" | "0x800 \<le> r" "r < 0x10000"
    | "0x10000 \<le> r" "r \<le> 0x10FFFF"
    using assms unfolding scalar_def by linarith
  then show ?thesis
  proof cases
    case 2
    then have "2 \<le> r div 64" "r div 64 < 32" by auto
    with 2 show ?thesis
      by (simp add: utf8_of_rune_def cont_byte_def scalar_def split_64)
  next
    case 3
    have m: "r mod 64 \<le> 63" "r div 64 mod 64 \<le> 63"
      using mod_less_divisor [of 64 r] mod_less_divisor [of 64 "r div 64"] by simp_all
    have q: "r div 4096 \<le> 15" using 3 by simp
    have e0: "32 \<le> r div 64 mod 64" if "r div 4096 = 0"
      using that 3 split_4096 [of r] m by linarith
    have ed: "r div 64 mod 64 \<le> 31" if "r div 4096 = 13"
      using that 3 assms split_4096 [of r] m unfolding scalar_def by linarith
    have l: "(if 224 + r div 4096 = 224 then 160 else 128) \<le> 128 + r div 64 mod 64"
      using e0 by auto
    have u: "128 + r div 64 mod 64 \<le> (if 224 + r div 4096 = 237 then 159 else 191)"
      using ed m by auto
    have "decode3 (224 + r div 4096) ((128 + r div 64 mod 64) # (128 + r mod 64) # t) = (r, 3)"
      using l u m by (simp add: cont_byte_def split_4096)
    with 3 q assms show ?thesis by (simp add: utf8_of_rune_def)
  next
    case 4
    have m: "r mod 64 \<le> 63" "r div 64 mod 64 \<le> 63" "r div 4096 mod 64 \<le> 63"
      using mod_less_divisor [of 64 r] mod_less_divisor [of 64 "r div 64"]
        mod_less_divisor [of 64 "r div 4096"] by simp_all
    have q: "r div 262144 \<le> 4" using 4 by simp
    have f0: "16 \<le> r div 4096 mod 64" if "r div 262144 = 0"
      using that 4 split_262144 [of r] m by linarith
    have f4: "r div 4096 mod 64 \<le> 15" if "r div 262144 = 4"
      using that 4 split_262144 [of r] m by linarith
    have l: "(if 240 + r div 262144 = 240 then 144 else 128) \<le> 128 + r div 4096 mod 64"
      using f0 by auto
    have u: "128 + r div 4096 mod 64 \<le> (if 240 + r div 262144 = 244 then 143 else 191)"
      using f4 m by auto
    have "decode4 (240 + r div 262144)
        ((128 + r div 4096 mod 64) # (128 + r div 64 mod 64) # (128 + r mod 64) # t) = (r, 4)"
      using l u m by (simp add: cont_byte_def split_262144)
    with 4 q assms show ?thesis by (simp add: utf8_of_rune_def)
  qed (simp add: utf8_of_rune_def scalar_def)
qed

lemma utf8_of_rune_not_Nil [simp]: "utf8_of_rune r \<noteq> []"
  by (simp add: utf8_of_rune_def Let_def)

lemma utf8_of_rune_byte: "b \<in> set (utf8_of_rune r) \<Longrightarrow> b < 256"
proof -
  define q where "q = (if scalar r then r else RuneError)"
  have "q \<le> 0x10FFFF" by (auto simp: q_def scalar_def RuneError_def)
  moreover have "x mod 64 < 64" for x :: nat by simp
  ultimately show "b \<in> set (utf8_of_rune r) \<Longrightarrow> b < 256"
    by (fastforce simp: utf8_of_rune_def Let_def q_def [symmetric] split: if_splits
        intro: less_trans)
qed

lemma decode_runes_utf8:
  "scalar r \<Longrightarrow> decode_runes (utf8_of_rune r @ t) = r # decode_runes t"
  by (subst decode_runes.simps) (simp add: decode_utf8_of_rune)

lemma decode_runes_Nil [simp]: "decode_runes [] = []"
  by (simp add: decode_runes.simps)

lemma decode_runes_concat:
  "list_all scalar rs \<Longrightarrow> decode_runes (concat (map utf8_of_rune rs)) = rs"
  by (induction rs) (simp_all add: decode_runes_utf8)

text \<open>A string made of Unicode scalars has exactly these runes.\<close>

lemma runes_string_of_runes: "list_all scalar rs \<Longrightarrow> runes (string_of_runes rs) = rs"
proof -
  assume rs: "list_all scalar rs"
  have "x mod 256 = x" if "x \<in> set (utf8_of_rune r)" for x r
    using utf8_of_rune_byte [OF that] by simp
  then have "map of_char (string_of_runes rs) = concat (map utf8_of_rune rs)"
    unfolding string_of_runes_def by (auto intro!: map_idI)
  with rs show ?thesis by (simp add: runes_def decode_runes_concat)
qed

lemma runes_Nil [simp]: "runes [] = []"
  by (simp add: runes_def)

lemma runes_ascii_Cons: "(of_char c :: nat) < 0x80 \<Longrightarrow> runes (c # s) = of_char c # runes s"
  by (simp add: runes_def decode_runes.simps [of "of_char c # map of_char s"])

lemma runes_ascii: "list_all (\<lambda>c. (of_char c :: nat) < 0x80) s \<Longrightarrow> runes s = map of_char s"
  by (induction s) (simp_all add: runes_ascii_Cons)

text \<open>
  A decoding error never swallows an ASCII character that follows, so appending ASCII text
  appends its characters, whatever the bytes before are.
\<close>

lemma decode_rune_append_ascii:
  assumes "bs \<noteq> []" and t: "t = [] \<or> hd t < 0x80"
  shows "decode_rune (bs @ t) = decode_rune bs"
proof -
  obtain b u where bs: "bs = b # u" using assms by (cases bs) auto
  have nc: "\<not> cont_byte c" if "c < 0x80" for c using that by (simp add: cont_byte_def)
  have "decode2 b (u @ t) = decode2 b u"
    using t by (cases u; cases t) (auto simp: nc)
  moreover have "decode3 b (u @ t) = decode3 b u"
  proof (cases "length u < 2")
    case True
    then consider "u = []" | c where "u = [c]" by (cases u) auto
    then show ?thesis
    proof cases
      case 1
      show ?thesis
      proof (cases t)
        case (Cons a t')
        then show ?thesis using t 1 by (cases t') auto
      qed (simp add: 1)
    next
      case 2
      then show ?thesis using t by (cases t) (auto simp: nc)
    qed
  next
    case False
    then obtain c d v where "u = c # d # v" by (cases u; cases "tl u") auto
    then show ?thesis by simp
  qed
  moreover have "decode4 b (u @ t) = decode4 b u"
  proof (cases "length u < 3")
    case True
    then consider "u = []" | c where "u = [c]" | c d where "u = [c, d]"
      by (cases u; cases "tl u"; cases "tl (tl u)") auto
    then show ?thesis
    proof cases
      case 1
      show ?thesis
      proof (cases t)
        case (Cons a t')
        then show ?thesis using t 1 by (cases "(b, t)" rule: decode4.cases) auto
      qed (simp add: 1)
    next
      case 2
      show ?thesis
      proof (cases t)
        case (Cons a t')
        then show ?thesis using t 2 by (cases t') (auto simp: nc)
      qed (simp add: 2)
    next
      case 3
      then show ?thesis using t by (cases t) (auto simp: nc)
    qed
  next
    case False
    then obtain c d e v where "u = c # d # e # v"
      by (cases u; cases "tl u"; cases "tl (tl u)") auto
    then show ?thesis by simp
  qed
  ultimately show ?thesis by (simp add: bs)
qed

lemma decode_width_le:
  "snd (decode2 b t) \<le> Suc (length t)" "snd (decode3 b t) \<le> Suc (length t)"
  "snd (decode4 b t) \<le> Suc (length t)"
  by (cases "(b, t)" rule: decode2.cases, simp_all)
    (cases "(b, t)" rule: decode3.cases, simp_all,
     cases "(b, t)" rule: decode4.cases, simp_all)

lemma decode_rune_width_le: "snd (decode_rune bs) \<le> length bs"
  by (cases bs) (simp_all add: decode_width_le)

lemma decode_runes_append_ascii:
  assumes "t = [] \<or> hd t < 0x80"
  shows "decode_runes (bs @ t) = decode_runes bs @ decode_runes t"
  using assms
proof (induction bs rule: decode_runes.induct)
  case (1 bs)
  show ?case
  proof (cases "bs = []")
    case False
    obtain r w where rw: "decode_rune bs = (r, w)" by fastforce
    have "w \<le> length bs" using decode_rune_width_le [of bs] by (simp add: rw)
    then show ?thesis
      using False 1 rw decode_rune_append_ascii [OF False 1(2)]
      by (simp add: decode_runes.simps [of "bs @ t"] decode_runes.simps [of bs])
  qed simp
qed

lemma runes_append_ascii:
  assumes "list_all (\<lambda>c. (of_char c :: nat) < 0x80) t"
  shows "runes (s @ t) = runes s @ map of_char t"
proof -
  have "decode_runes (map of_char t) = map of_char t"
    using runes_ascii [OF assms] by (simp add: runes_def)
  moreover have "map of_char t = [] \<or> hd (map of_char t) < (0x80 :: nat)"
    using assms by (cases t) auto
  ultimately show ?thesis
    by (simp add: runes_def decode_runes_append_ascii)
qed

text \<open>Decoding yields Unicode scalars only.\<close>

lemma scalar_RuneError [simp]: "scalar RuneError"
  by (simp add: scalar_def RuneError_def)

lemma scalar_decode_rune: "\<forall>b \<in> set bs. b < 256 \<Longrightarrow> scalar (fst (decode_rune bs))"
proof (cases bs)
  case (Cons b t)
  have d2: "scalar (fst (decode2 b t))" if "0xC2 \<le> b" "b \<le> 0xDF"
    using that by (cases "(b, t)" rule: decode2.cases) (auto simp: scalar_def cont_byte_def RuneError_def)
  have d3: "scalar (fst (decode3 b t))" if b: "0xE0 \<le> b" "b \<le> 0xEF"
  proof (cases "(b, t)" rule: decode3.cases)
    case (1 b0 b1 b2 u)
    consider "b = 0xED" | "b < 0xED" | "0xED < b" by linarith
    then show ?thesis
      using 1 b by cases (auto simp: scalar_def cont_byte_def RuneError_def split: if_splits)
  qed (auto simp: scalar_def RuneError_def)
  have d4: "scalar (fst (decode4 b t))" if b: "0xF0 \<le> b" "b \<le> 0xF4"
  proof (cases "(b, t)" rule: decode4.cases)
    case (1 b0 b1 b2 b3 u)
    consider "b = 0xF0" | "0xF0 < b" "b < 0xF4" | "b = 0xF4" using b by linarith
    then show ?thesis
      using 1 b by cases (auto simp: scalar_def cont_byte_def RuneError_def split: if_splits)
  qed (auto simp: scalar_def RuneError_def)
  have "b < 0x80 \<Longrightarrow> scalar b" by (simp add: scalar_def)
  then show ?thesis using d2 d3 d4 by (auto simp: Cons)
qed (simp add: scalar_def RuneError_def)

lemma scalar_decode_runes: "\<forall>b \<in> set bs. b < 256 \<Longrightarrow> list_all scalar (decode_runes bs)"
proof (induction bs rule: decode_runes.induct)
  case (1 bs)
  show ?case
  proof (cases "bs = []")
    case False
    obtain r w where rw: "decode_rune bs = (r, w)" by fastforce
    with scalar_decode_rune [OF 1(2)] have "scalar r" by simp
    moreover have "list_all scalar (decode_runes (drop w bs))"
      using 1 False rw by (auto dest: in_set_dropD)
    ultimately show ?thesis using False rw by (simp add: decode_runes.simps [of bs])
  qed simp
qed

lemma scalar_runes: "list_all scalar (runes s)"
  unfolding runes_def by (rule scalar_decode_runes) auto

text \<open>A string of ASCII characters other than lower-case letters is its own upper case.\<close>

lemma ToUpper_id:
  assumes "list_all (\<lambda>c. (of_char c :: nat) < 0x80 \<and> ascii_upper (of_char c) = of_char c) s"
  shows "ToUpper G s = s"
proof -
  have "list_all (\<lambda>c. (of_char c :: nat) < 0x80) s" using assms by (simp add: list_all_iff)
  moreover have "map (\<lambda>c. char_of (ascii_upper (of_char c))) s = s"
    using assms by (intro map_idI) (simp add: list_all_iff)
  ultimately show ?thesis by (simp add: ToUpper_def)
qed

end
