(* ===== verification/Ccsid.thy ===== *)
theory Ccsid
  imports GoText
begin

text \<open>
  \<^verbatim>\<open>database/ccsid.go\<close>: the table of character converters. The converters themselves come
  from \<^verbatim>\<open>golang.org/x/text\<close> or from the user and are parameters: functions that convert a
  whole string or fail. The global table, guarded by a mutex in the code, is passed as an
  argument; it changes only between operations.
\<close>

record encoding =
  enc_Encode :: "string \<Rightarrow> bytes option"
  enc_Decode :: "bytes \<Rightarrow> string option"

type_synonym ccsid_table = "nat \<Rightarrow> encoding option"

definition ccsidEBCDIC37 :: nat where "ccsidEBCDIC37 = 37"
definition ccsidUTF16 :: nat where "ccsidUTF16 = 1200"
definition ccsidUCS2 :: nat where "ccsidUCS2 = 13488"
definition ccsidUTF8 :: nat where "ccsidUTF8 = 1208"
definition ccsidBinary :: nat where "ccsidBinary = 65535"
definition clientCCSID :: nat where "clientCCSID = ccsidUCS2"

lemmas ccsid_defs = ccsidEBCDIC37_def ccsidUTF16_def ccsidUCS2_def ccsidUTF8_def
  ccsidBinary_def clientCCSID_def

text \<open>The encodings of the library the initial table refers to.\<close>

record text_encodings =
  CodePage037 :: encoding
  CodePage1047 :: encoding
  CodePage1140 :: encoding
  UTF16_BigEndian :: encoding
  UTF8 :: encoding
  Nop :: encoding

definition initial_ccsids :: "text_encodings \<Rightarrow> ccsid_table" where
  "initial_ccsids X =
     [37 \<mapsto> CodePage037 X, 1047 \<mapsto> CodePage1047 X, 1140 \<mapsto> CodePage1140 X,
      1200 \<mapsto> UTF16_BigEndian X, 13488 \<mapsto> UTF16_BigEndian X, 1208 \<mapsto> UTF8 X, 65535 \<mapsto> Nop X]"

definition RegisterCCSID :: "nat \<Rightarrow> encoding \<Rightarrow> ccsid_table \<Rightarrow> ccsid_table" where
  "RegisterCCSID ccsid enc T = T(ccsid \<mapsto> enc)"

datatype ccsid_error =
    NoConverter nat
  | CannotEncode nat string
  | CannotDecode nat

definition lookupCCSID :: "ccsid_table \<Rightarrow> nat \<Rightarrow> (ccsid_error, encoding) res" where
  "lookupCCSID T ccsid = (case T ccsid of Some enc \<Rightarrow> Ok enc | None \<Rightarrow> Err (NoConverter ccsid))"

definition encodeString :: "ccsid_table \<Rightarrow> nat \<Rightarrow> string \<Rightarrow> (ccsid_error, bytes) res" where
  "encodeString T ccsid s =
     bind_res (lookupCCSID T ccsid) (\<lambda>enc.
     case enc_Encode enc s of Some b \<Rightarrow> Ok b | None \<Rightarrow> Err (CannotEncode ccsid s))"

definition decodeString :: "ccsid_table \<Rightarrow> nat \<Rightarrow> bytes \<Rightarrow> (ccsid_error, string) res" where
  "decodeString T ccsid b =
     bind_res (lookupCCSID T ccsid) (\<lambda>enc.
     case enc_Decode enc b of Some s \<Rightarrow> Ok s | None \<Rightarrow> Err (CannotDecode ccsid))"

definition blank :: "ccsid_table \<Rightarrow> nat \<Rightarrow> (ccsid_error, bytes) res" where
  "blank T ccsid = encodeString T ccsid '' ''"

definition decodeServerText :: "ccsid_table \<Rightarrow> nat \<Rightarrow> bytes \<Rightarrow> string" where
  "decodeServerText T ccsid0 b =
     (let ccsid = (if ccsid0 = 0 \<or> ccsid0 = ccsidBinary then ccsidEBCDIC37 else ccsid0) in
      case decodeString T ccsid b of
        Ok s \<Rightarrow> s
      | _ \<Rightarrow> (case decodeString T ccsidEBCDIC37 b of Ok s \<Rightarrow> s | _ \<Rightarrow> []))"

section \<open>Lemmas\<close>

lemma lookupCCSID_no_panic [simp]: "lookupCCSID T c \<noteq> Panic"
  by (simp add: lookupCCSID_def split: option.split)

lemma encodeString_no_panic [panic_free, simp]: "encodeString T c s \<noteq> Panic"
  by (auto simp: encodeString_def bind_res_Panic_iff split: option.splits)

lemma decodeString_no_panic [panic_free, simp]: "decodeString T c b \<noteq> Panic"
  by (auto simp: decodeString_def bind_res_Panic_iff split: option.splits)

lemma encodeString_Ok_iff:
  "encodeString T c s = Ok b \<longleftrightarrow> (\<exists>e. T c = Some e \<and> enc_Encode e s = Some b)"
  by (auto simp: encodeString_def lookupCCSID_def bind_res_Ok_iff split: option.splits)

lemma decodeString_Ok_iff:
  "decodeString T c b = Ok s \<longleftrightarrow> (\<exists>e. T c = Some e \<and> enc_Decode e b = Some s)"
  by (auto simp: decodeString_def lookupCCSID_def bind_res_Ok_iff split: option.splits)

text \<open>
  What a converter is documented to do: it reads back what it wrote, and it works
  character by character, so that text followed by blanks is the encoded text followed by
  encoded blanks.
\<close>

definition faithful :: "encoding \<Rightarrow> bool" where
  "faithful e \<longleftrightarrow> (\<forall>s b. enc_Encode e s = Some b \<longrightarrow> enc_Decode e b = Some s)"

definition blank_padded :: "encoding \<Rightarrow> bytes \<Rightarrow> bool" where
  "blank_padded e sp \<longleftrightarrow> sp \<noteq> [] \<and>
     (\<forall>s b n. enc_Encode e s = Some b
        \<longrightarrow> enc_Encode e (s @ replicate n CHR '' '') = Some (b @ concat (replicate n sp)))"

lemma blank_padded_space: "blank_padded e sp \<Longrightarrow> enc_Encode e [] = Some [] \<Longrightarrow> enc_Encode e '' '' = Some sp"
  unfolding blank_padded_def
  by (elim conjE allE [of _ "[]"] allE [of _ "[] :: bytes"] allE [of _ "1 :: nat"]) simp

text \<open>A concrete converter: one byte per character.\<close>

definition byte_encoding :: encoding where
  "byte_encoding = \<lparr>enc_Encode = (\<lambda>s. Some (bytes_of_string s)),
     enc_Decode = (\<lambda>b. Some (string_of_bytes b))\<rparr>"

lemma faithful_byte_encoding: "faithful byte_encoding"
  by (simp add: faithful_def byte_encoding_def)

lemma blank_padded_byte_encoding: "blank_padded byte_encoding [0x20]"
  by (auto simp: blank_padded_def byte_encoding_def bytes_of_string_def byte_of_char_def
      concat_replicate_single map_replicate_const)

end
