(* ===== verification/DbFormat.thy ===== *)
theory DbFormat
  imports Ccsid
begin

text \<open>
  \<^verbatim>\<open>database/format.go\<close>: the descriptions of columns and parameters, result data, and
  parameter data. Sizes and counts come from unsigned fields of the wire and are natural
  numbers; where the code multiplies them in an \<^verbatim>\<open>int\<close>, the product is a 64-bit word.
\<close>

section \<open>Field descriptions\<close>

definition formatHeaderLength :: nat where "formatHeaderLength = 16"
definition formatFieldLength :: nat where "formatFieldLength = 64"
definition superFieldLength :: nat where "superFieldLength = 48"

record field =
  f_sqlType :: "16 word"
  f_length :: nat
  f_scale :: nat
  f_precision :: nat
  f_ccsid :: nat
  f_name :: string

definition baseType :: "field \<Rightarrow> 16 word" where
  "baseType f = (f_sqlType f AND NOT 1)"

definition nullable :: "field \<Rightarrow> bool" where
  "nullable f \<longleftrightarrow> f_sqlType f AND 1 \<noteq> 0"

record dataFormat =
  df_fields :: "field list"
  df_recordSize :: nat

datatype format_error =
    FormatTooShort nat
  | FormatFieldCount nat nat
  | DataTooShort nat
  | DataRows nat nat nat

text \<open>The attributes of the field description at \<open>base\<close>, common to both formats.\<close>

definition field_at :: "bytes \<Rightarrow> nat \<Rightarrow> (format_error, field) res" where
  "field_at d base =
     bind_res (get16 d (base + 2)) (\<lambda>sqlType.
     bind_res (get32 d (base + 4)) (\<lambda>len.
     bind_res (get16 d (base + 8)) (\<lambda>scale.
     bind_res (get16 d (base + 10)) (\<lambda>precision.
     bind_res (get16 d (base + 12)) (\<lambda>ccsid.
     Ok \<lparr>f_sqlType = sqlType, f_length = unat len, f_scale = unat scale,
         f_precision = unat precision, f_ccsid = unat ccsid, f_name = []\<rparr>)))))"

fun format_fields :: "ccsid_table \<Rightarrow> bytes \<Rightarrow> nat \<Rightarrow> nat \<Rightarrow> (format_error, field list) res" where
  "format_fields T d 0 base = Ok []"
| "format_fields T d (Suc n) base =
     bind_res (field_at d base) (\<lambda>f.
     bind_res (get16 d (base + 30)) (\<lambda>nameLen.
     bind_res (get16 d (base + 32)) (\<lambda>nameCCSID.
     bind_res (if 0 < nameLen \<and> 34 + unat nameLen \<le> formatFieldLength
               then fmap_res (decodeServerText T (unat nameCCSID))
                      (go_slice d (base + 34) (base + 34 + unat nameLen))
               else Ok []) (\<lambda>name.
     fmap_res ((#) (f\<lparr>f_name := name\<rparr>)) (format_fields T d n (base + formatFieldLength))))))"

definition parseDataFormat :: "ccsid_table \<Rightarrow> bytes \<Rightarrow> (format_error, dataFormat) res" where
  "parseDataFormat T d =
     (if length d < formatHeaderLength then Err (FormatTooShort (length d))
      else bind_res (get32 d 4) (\<lambda>n.
        if formatHeaderLength + unat n * formatFieldLength > length d
        then Err (FormatFieldCount (unat n) (length d))
        else bind_res (get32 d 12) (\<lambda>size.
          fmap_res (\<lambda>fs. \<lparr>df_fields = fs, df_recordSize = unat size\<rparr>)
            (format_fields T d (unat n) formatHeaderLength))))"

section \<open>The super-extended format\<close>

text \<open>The search for the name entry (3840) among the variable information of a field.\<close>

function variable_name :: "ccsid_table \<Rightarrow> bytes \<Rightarrow> nat \<Rightarrow> nat \<Rightarrow> nat \<Rightarrow> (format_error, string) res" where
  "variable_name T d start varLength pos =
     (if pos + 8 \<le> varLength then
        let entry = start + pos in
        if entry + 8 > length d then Ok []
        else bind_res (get32 d entry) (\<lambda>ll.
          if unat ll < 8 \<or> entry + unat ll > length d then Ok []
          else bind_res (get16 d (entry + 4)) (\<lambda>cp.
            if cp = 0x3840 then
              bind_res (get16 d (entry + 6)) (\<lambda>nameCCSID.
              fmap_res (decodeServerText T (unat nameCCSID)) (go_slice d (entry + 8) (entry + unat ll)))
            else variable_name T d start varLength (pos + unat ll)))
      else Ok [])"
  by pat_completeness auto
termination
  by (relation "measure (\<lambda>(T, d, start, varLength, pos). varLength - pos)") auto

declare variable_name.simps [simp del]

fun super_fields :: "ccsid_table \<Rightarrow> bytes \<Rightarrow> nat \<Rightarrow> nat \<Rightarrow> (format_error, field list) res" where
  "super_fields T d 0 base = Ok []"
| "super_fields T d (Suc n) base =
     bind_res (field_at d base) (\<lambda>f.
     bind_res (get32 d (base + 32)) (\<lambda>varOffset.
     bind_res (get32 d (base + 36)) (\<lambda>varLength.
     bind_res (variable_name T d (base + unat varOffset) (unat varLength) 0) (\<lambda>name.
     fmap_res ((#) (f\<lparr>f_name := name\<rparr>)) (super_fields T d n (base + superFieldLength))))))"

definition parseSuperExtendedFormat :: "ccsid_table \<Rightarrow> bytes \<Rightarrow> (format_error, dataFormat) res" where
  "parseSuperExtendedFormat T d =
     (if length d < formatHeaderLength then Err (FormatTooShort (length d))
      else bind_res (get32 d 4) (\<lambda>n.
        if formatHeaderLength + unat n * superFieldLength > length d
        then Err (FormatFieldCount (unat n) (length d))
        else bind_res (get32 d 12) (\<lambda>size.
          fmap_res (\<lambda>fs. \<lparr>df_fields = fs, df_recordSize = unat size\<rparr>)
            (super_fields T d (unat n) formatHeaderLength))))"

section \<open>Parameter formats and data\<close>

definition recordSize :: "field list \<Rightarrow> nat" where
  "recordSize fs = foldl (\<lambda>n f. n + f_length f) 0 fs"

definition enc_param_field :: "field \<Rightarrow> bytes" where
  "enc_param_field f =
     be16 (of_nat formatFieldLength) @ be16 (f_sqlType f OR 1) @ be32 (of_nat (f_length f))
     @ be16 (of_nat (f_scale f)) @ be16 (of_nat (f_precision f)) @ be16 (of_nat (f_ccsid f))
     @ replicate 50 0"

definition encodeParameterFormat :: "field list \<Rightarrow> bytes" where
  "encodeParameterFormat fs =
     be32 1 @ be32 (of_nat (length fs)) @ [0, 0, 0, 0] @ be32 (of_nat (recordSize fs))
     @ concat (map enc_param_field fs)"

definition dataHeaderLength :: nat where "dataHeaderLength = 20"

record resultData =
  rd_raw :: bytes
  rd_rowCount :: nat
  rd_columnCount :: nat
  rd_indicatorSize :: nat
  rd_rowSize :: nat

text \<open>The size the data must have, in the 64-bit arithmetic of the code.\<close>

definition data_need :: "resultData \<Rightarrow> 64 word" where
  "data_need rd =
     of_nat dataHeaderLength + of_nat (rd_rowCount rd)
       * (of_nat (rd_columnCount rd) * of_nat (rd_indicatorSize rd) + of_nat (rd_rowSize rd))"

definition parseResultData :: "bytes \<Rightarrow> (format_error, resultData) res" where
  "parseResultData d =
     (if length d < dataHeaderLength then Err (DataTooShort (length d))
      else
        bind_res (get32 d 4) (\<lambda>rows.
        bind_res (get16 d 8) (\<lambda>columns.
        bind_res (get16 d 10) (\<lambda>ind.
        bind_res (get32 d 16) (\<lambda>size.
        let rd = \<lparr>rd_raw = d, rd_rowCount = unat rows, rd_columnCount = unat columns,
                  rd_indicatorSize = unat ind, rd_rowSize = unat size\<rparr>
        in if sint (data_need rd) > int (length d)
           then Err (DataRows (rd_rowCount rd) (rd_rowSize rd) (length d))
           else Ok rd)))))"

text \<open>A slice expression whose bounds are computed in 64-bit arithmetic.\<close>

definition slice64 :: "bytes \<Rightarrow> 64 word \<Rightarrow> 64 word \<Rightarrow> ('e, bytes) res" where
  "slice64 b i j =
     (if 0 \<le> sint i \<and> sint i \<le> sint j \<and> sint j \<le> int (length b)
      then Ok (take (nat (sint j - sint i)) (drop (nat (sint i)) b)) else Panic)"

text \<open>\<^verbatim>\<open>int16(binary.BigEndian.Uint16(...))\<close> is the signed reading of a 16-bit word.\<close>

definition indicator :: "resultData \<Rightarrow> nat \<Rightarrow> nat \<Rightarrow> ('e, int) res" where
  "indicator rd row col =
     (if rd_indicatorSize rd = 0 then Ok 0
      else
        let off = of_nat dataHeaderLength + of_nat (rd_indicatorSize rd)
                    * (of_nat row * of_nat (rd_columnCount rd) + of_nat col)
        in bind_res (slice64 (rd_raw rd) off (off + 2)) (\<lambda>b.
           bind_res (get16 b 0) (\<lambda>w. Ok (sint w))))"

definition row_of :: "resultData \<Rightarrow> nat \<Rightarrow> ('e, bytes) res" where
  "row_of rd i =
     (let start = of_nat dataHeaderLength
            + of_nat (rd_rowCount rd) * of_nat (rd_columnCount rd) * of_nat (rd_indicatorSize rd)
            + of_nat i * of_nat (rd_rowSize rd)
      in slice64 (rd_raw rd) start (start + of_nat (rd_rowSize rd)))"

text \<open>The indicators and the row of \<^verbatim>\<open>encodeParameterData\<close>; a \<^verbatim>\<open>nil\<close> value is SQL NULL.\<close>

definition param_indicator :: "bytes option \<Rightarrow> bytes" where
  "param_indicator v = (case v of None \<Rightarrow> be16 0xFFFF | Some _ \<Rightarrow> be16 0)"

definition param_value :: "field \<Rightarrow> bytes option \<Rightarrow> bytes" where
  "param_value f v = (case v of None \<Rightarrow> replicate (f_length f) 0 | Some b \<Rightarrow> fit (f_length f) b)"

definition encodeParameterData :: "field list \<Rightarrow> bytes option list \<Rightarrow> bytes" where
  "encodeParameterData fs vs =
     be32 1 @ be32 1 @ be16 (of_nat (length fs)) @ be16 2 @ [0, 0, 0, 0]
     @ be32 (of_nat (recordSize fs))
     @ concat (map param_indicator vs) @ concat (map2 param_value fs vs)"

section \<open>Lemmas: formats\<close>

lemma field_at_no_panic: "base + 14 \<le> length d \<Longrightarrow> field_at d base \<noteq> Panic"
  by (auto simp: field_at_def bind_res_Panic_iff)

lemma field_at_not_Err [simp]: "field_at d base \<noteq> Err e"
  by (auto simp: field_at_def bind_res_Err_iff)

lemma format_fields_no_panic:
  "base + n * formatFieldLength \<le> length d \<Longrightarrow> format_fields T d n base \<noteq> Panic"
proof (induction n arbitrary: base)
  case (Suc n)
  then have "base + 64 \<le> length d" "base + 64 + n * 64 \<le> length d" by (simp_all add: formatFieldLength_def)
  with Suc.IH [of "base + formatFieldLength"] field_at_no_panic [of base d] show ?case
    by (auto simp: bind_res_Panic_iff formatFieldLength_def)
qed simp

lemma parseDataFormat_no_panic [panic_free, simp]: "parseDataFormat T d \<noteq> Panic"
proof -
  have "format_fields T d n 16 \<noteq> Panic" if "\<not> length d < 16 + n * formatFieldLength" for n
    using that by (intro format_fields_no_panic) simp
  then show ?thesis
    by (auto simp: parseDataFormat_def bind_res_Panic_iff formatHeaderLength_def)
qed

lemma variable_name_no_panic: "variable_name T d start varLength pos \<noteq> Panic"
proof (induction T d start varLength pos rule: variable_name.induct)
  case (1 T d start varLength pos)
  show ?case
    using 1 by (subst variable_name.simps) (auto simp: bind_res_Panic_iff Let_def)
qed

lemma super_fields_no_panic:
  "base + n * superFieldLength \<le> length d \<Longrightarrow> super_fields T d n base \<noteq> Panic"
proof (induction n arbitrary: base)
  case (Suc n)
  then have "base + 48 \<le> length d" "base + 48 + n * 48 \<le> length d" by (simp_all add: superFieldLength_def)
  with Suc.IH [of "base + superFieldLength"] field_at_no_panic [of base d] variable_name_no_panic
  show ?case by (auto simp: bind_res_Panic_iff superFieldLength_def)
qed simp

lemma parseSuperExtendedFormat_no_panic [panic_free, simp]: "parseSuperExtendedFormat T d \<noteq> Panic"
proof -
  have "super_fields T d n 16 \<noteq> Panic" if "\<not> length d < 16 + n * superFieldLength" for n
    using that by (intro super_fields_no_panic) simp
  then show ?thesis
    by (auto simp: parseSuperExtendedFormat_def bind_res_Panic_iff formatHeaderLength_def)
qed

text \<open>
  A field description as a server sends it: the attributes, its own length, 16 bytes the
  client skips, and the name's length, CCSID and 30-byte area.
\<close>

datatype server_field = ServerField field "16 word" bytes "16 word" "16 word" bytes

fun enc_server_field :: "server_field \<Rightarrow> bytes" where
  "enc_server_field (ServerField f n skipped nameLen nameCCSID area) =
     be16 n @ be16 (f_sqlType f) @ be32 (of_nat (f_length f)) @ be16 (of_nat (f_scale f))
     @ be16 (of_nat (f_precision f)) @ be16 (of_nat (f_ccsid f))
     @ skipped @ be16 nameLen @ be16 nameCCSID @ area"

definition attributes_fit :: "field \<Rightarrow> bool" where
  "attributes_fit f \<longleftrightarrow> f_length f < 2 ^ 32 \<and> f_scale f < 2 ^ 16 \<and> f_precision f < 2 ^ 16
     \<and> f_ccsid f < 2 ^ 16"

fun server_field_ok :: "server_field \<Rightarrow> bool" where
  "server_field_ok (ServerField f n skipped nameLen nameCCSID area) =
     (attributes_fit f \<and> length skipped = 16 \<and> length area = 30)"

fun field_of :: "ccsid_table \<Rightarrow> server_field \<Rightarrow> field" where
  "field_of T (ServerField f n skipped nameLen nameCCSID area) =
     f\<lparr>f_name := (if 0 < nameLen \<and> unat nameLen \<le> 30
       then decodeServerText T (unat nameCCSID) (take (unat nameLen) area) else [])\<rparr>"

lemma length_enc_server_field: "server_field_ok w \<Longrightarrow> length (enc_server_field w) = formatFieldLength"
  by (cases w) (simp add: formatFieldLength_def)

lemma field_at_append:
  assumes "attributes_fit f" "length h = 2"
  shows "field_at (pre @ (h @ be16 (f_sqlType f) @ be32 (of_nat (f_length f))
      @ be16 (of_nat (f_scale f)) @ be16 (of_nat (f_precision f)) @ be16 (of_nat (f_ccsid f)) @ post))
      (length pre) = Ok (f\<lparr>f_name := []\<rparr>)"
  using assms
  by (simp add: field_at_def wire_simps attributes_fit_def unat_of_nat16 unat_of_nat32)

lemma format_fields_append:
  assumes "list_all server_field_ok ws"
  shows "format_fields T (pre @ concat (map enc_server_field ws) @ post) (length ws) (length pre)
    = Ok (map (field_of T) ws)"
  using assms
proof (induction ws arbitrary: pre)
  case (Cons w ws)
  obtain f n sk nl nc ar where w: "w = ServerField f n sk nl nc ar" by (cases w)
  let ?d = "pre @ enc_server_field w @ concat (map enc_server_field ws) @ post"
  have ok: "attributes_fit f" "length sk = 16" "length ar = 30" using Cons.prems w by auto
  have d1: "?d = pre @ (be16 n @ be16 (f_sqlType f) @ be32 (of_nat (f_length f))
      @ be16 (of_nat (f_scale f)) @ be16 (of_nat (f_precision f)) @ be16 (of_nat (f_ccsid f))
      @ (sk @ be16 nl @ be16 nc @ ar @ concat (map enc_server_field ws) @ post))"
    by (simp add: w)
  have "field_at ?d (length pre) = Ok (f\<lparr>f_name := []\<rparr>)"
    unfolding d1 by (rule field_at_append) (simp_all add: ok)
  moreover have "get16 ?d (length pre + 30) = (Ok nl :: (format_error, 16 word) res)"
    "get16 ?d (length pre + 32) = (Ok nc :: (format_error, 16 word) res)"
    unfolding d1 by (simp_all add: wire_simps ok)
  moreover have "go_slice ?d (length pre + 34) (length pre + 34 + unat nl)
      = (Ok (take (unat nl) ar) :: (format_error, bytes) res)" if "unat nl \<le> 30"
  proof -
    have "go_slice (ar @ x) 0 (unat nl) = (Ok (take (unat nl) ar) :: (format_error, bytes) res)" for x
      using that ok by (simp add: go_slice_def)
    then show ?thesis unfolding d1 by (simp add: slice_append2 ok)
  qed
  moreover have "format_fields T ((pre @ enc_server_field w) @ concat (map enc_server_field ws) @ post)
      (length ws) (length (pre @ enc_server_field w)) = Ok (map (field_of T) ws)"
    using Cons.IH [of "pre @ enc_server_field w"] Cons.prems by simp
  then have "format_fields T ?d (length ws) (length pre + formatFieldLength) = Ok (map (field_of T) ws)"
    using Cons.prems length_enc_server_field [of w] by simp
  ultimately show ?case
    by (auto simp: w formatFieldLength_def)
qed simp

lemma recordSize_sum: "recordSize fs = sum_list (map f_length fs)"
proof -
  have "foldl (\<lambda>n f. n + f_length f) k fs = k + sum_list (map f_length fs)" for k
    by (induction fs arbitrary: k) simp_all
  then show ?thesis by (simp add: recordSize_def)
qed

text \<open>The format this client sends is one a server could send, with all fields nullable.\<close>

definition as_server_field :: "field \<Rightarrow> server_field" where
  "as_server_field f =
     ServerField (f\<lparr>f_sqlType := f_sqlType f OR 1\<rparr>) (of_nat formatFieldLength) (replicate 16 0) 0 0
       (replicate 30 0)"

lemma enc_param_field_server: "enc_param_field f = enc_server_field (as_server_field f)"
proof -
  have "replicate 50 (0 :: byte) = replicate 16 0 @ be16 0 @ be16 0 @ replicate 30 0"
    by (simp add: be16_def numeral_eq_Suc)
  then show ?thesis by (simp add: enc_param_field_def as_server_field_def)
qed

lemma parseDataFormat_append:
  assumes "list_all server_field_ok ws" "length ws < 2 ^ 32" "sz < 2 ^ 32" "length token = 4" "length res = 4"
  shows "parseDataFormat T (token @ be32 (of_nat (length ws)) @ res @ be32 (of_nat sz)
      @ concat (map enc_server_field ws) @ post)
    = Ok \<lparr>df_fields = map (field_of T) ws, df_recordSize = sz\<rparr>"
proof -
  let ?h = "token @ be32 (of_nat (length ws)) @ res @ be32 (of_nat sz)"
  let ?d = "token @ be32 (of_nat (length ws)) @ res @ be32 (of_nat sz) @ concat (map enc_server_field ws) @ post"
  have n: "unat (of_nat (length ws) :: 32 word) = length ws" "unat (of_nat sz :: 32 word) = sz"
    using assms by (simp_all add: unat_of_nat32)
  have "length (concat (map enc_server_field ws)) = length ws * formatFieldLength"
    using assms(1) by (induction ws) (simp_all add: length_enc_server_field)
  then have enough: "\<not> length ?d < formatHeaderLength"
    "\<not> formatHeaderLength + length ws * formatFieldLength > length ?d"
    using assms by (simp_all add: formatHeaderLength_def)
  have "format_fields T (?h @ concat (map enc_server_field ws) @ post) (length ws) (length ?h)
      = Ok (map (field_of T) ws)"
    by (rule format_fields_append [OF assms(1)])
  then have fields: "format_fields T ?d (length ws) formatHeaderLength = Ok (map (field_of T) ws)"
    using assms by (simp add: formatHeaderLength_def)
  have "get32 ?d 4 = (Ok (of_nat (length ws)) :: (format_error, 32 word) res)"
    "get32 ?d 12 = (Ok (of_nat sz) :: (format_error, 32 word) res)"
    using assms by (simp_all add: wire_simps)
  then show ?thesis
    unfolding parseDataFormat_def using enough by (simp add: n fields)
qed

section \<open>Lemmas: result data\<close>

text \<open>The room the rows and indicators of the data take, as a number.\<close>

definition data_size :: "resultData \<Rightarrow> nat" where
  "data_size rd = dataHeaderLength
     + rd_rowCount rd * (rd_columnCount rd * rd_indicatorSize rd + rd_rowSize rd)"

lemma sint_of_nat64: "n < 2 ^ 63 \<Longrightarrow> sint (of_nat n :: 64 word) = int n"
  by (simp add: signed_of_nat signed_take_bit_int_eq_self)

lemma data_need_size: "data_need rd = of_nat (data_size rd)"
  by (simp add: data_need_def data_size_def)

lemma parseResultData_no_panic [panic_free, simp]: "parseResultData d \<noteq> Panic"
  by (auto simp: parseResultData_def bind_res_Panic_iff Let_def dataHeaderLength_def split: if_splits)

lemma parseResultData_OkD:
  assumes "parseResultData d = Ok rd"
  shows "rd_raw rd = d \<and> sint (data_need rd) \<le> int (length d) \<and> rd_rowCount rd < 2 ^ 32
    \<and> rd_columnCount rd < 2 ^ 16 \<and> rd_indicatorSize rd < 2 ^ 16 \<and> rd_rowSize rd < 2 ^ 32"
  using assms unat16_less unat32_less
  by (auto simp: parseResultData_def bind_res_Ok_iff Let_def split: if_splits)

lemma slice64_of_nat:
  assumes "i \<le> j" "j \<le> length b" "j < 2 ^ 63"
  shows "slice64 b (of_nat i) (of_nat j) = Ok (take (j - i) (drop i b))"
  using assms by (simp add: slice64_def sint_of_nat64 flip: of_nat_diff)

lemma row_of_eq:
  assumes "data_size rd \<le> length (rd_raw rd)" "data_size rd < 2 ^ 63" "i < rd_rowCount rd"
  shows "row_of rd i = Ok (take (rd_rowSize rd) (drop (dataHeaderLength
      + rd_rowCount rd * rd_columnCount rd * rd_indicatorSize rd + i * rd_rowSize rd) (rd_raw rd)))
    \<and> dataHeaderLength + rd_rowCount rd * rd_columnCount rd * rd_indicatorSize rd
        + i * rd_rowSize rd + rd_rowSize rd \<le> data_size rd"
proof -
  let ?s = "dataHeaderLength + rd_rowCount rd * rd_columnCount rd * rd_indicatorSize rd + i * rd_rowSize rd"
  have "(i + 1) * rd_rowSize rd \<le> rd_rowCount rd * rd_rowSize rd"
    using assms(3) by (intro mult_right_mono) simp_all
  then have le: "?s + rd_rowSize rd \<le> data_size rd"
    by (simp add: data_size_def algebra_simps)
  have "row_of rd i = slice64 (rd_raw rd) (of_nat ?s) (of_nat (?s + rd_rowSize rd))"
    by (simp add: row_of_def Let_def)
  also have "\<dots> = Ok (take (rd_rowSize rd) (drop ?s (rd_raw rd)))"
    using le assms(1,2) by (subst slice64_of_nat) simp_all
  finally show ?thesis using le by simp
qed

lemma row_of_ok:
  assumes "data_size rd \<le> length (rd_raw rd)" "data_size rd < 2 ^ 63" "i < rd_rowCount rd"
  shows "\<exists>b. row_of rd i = Ok b \<and> length b = rd_rowSize rd"
  using row_of_eq [OF assms] assms(1) by (elim conjE) (intro exI conjI, assumption, simp)

lemma indicator_eq:
  assumes "data_size rd \<le> length (rd_raw rd)" "data_size rd < 2 ^ 63"
    and "i < rd_rowCount rd" "j < rd_columnCount rd" "2 \<le> rd_indicatorSize rd"
  shows "indicator rd i j = bind_res (get16 (take 2 (drop (dataHeaderLength
      + rd_indicatorSize rd * (i * rd_columnCount rd + j)) (rd_raw rd))) 0) (\<lambda>w. Ok (sint w))
    \<and> dataHeaderLength + rd_indicatorSize rd * (i * rd_columnCount rd + j) + 2 \<le> data_size rd"
proof -
  let ?o = "dataHeaderLength + rd_indicatorSize rd * (i * rd_columnCount rd + j)"
  have "i * rd_columnCount rd + j + 1 \<le> (i + 1) * rd_columnCount rd" using assms(4) by simp
  also have "\<dots> \<le> rd_rowCount rd * rd_columnCount rd"
    using assms(3) by (intro mult_right_mono) simp_all
  finally have "rd_indicatorSize rd * (i * rd_columnCount rd + j + 1)
      \<le> rd_indicatorSize rd * (rd_rowCount rd * rd_columnCount rd)"
    by (rule mult_left_mono) simp
  then have le: "?o + 2 \<le> data_size rd"
    using assms(5) by (simp add: data_size_def algebra_simps)
  have off: "of_nat dataHeaderLength + of_nat (rd_indicatorSize rd)
      * (of_nat i * of_nat (rd_columnCount rd) + of_nat j) = (of_nat ?o :: 64 word)"
    "of_nat ?o + 2 = (of_nat (?o + 2) :: 64 word)"
    by simp_all
  have s: "slice64 (rd_raw rd) (of_nat ?o) (of_nat (?o + 2)) = Ok (take 2 (drop ?o (rd_raw rd)))"
    using le assms(1,2) by (subst slice64_of_nat) simp_all
  show ?thesis
    using assms(5) le unfolding indicator_def Let_def off s by simp
qed

lemma indicator_ok:
  assumes "data_size rd \<le> length (rd_raw rd)" "data_size rd < 2 ^ 63"
    and "i < rd_rowCount rd" "j < rd_columnCount rd" "rd_indicatorSize rd \<noteq> 1"
  shows "\<exists>k. indicator rd i j = Ok k"
proof (cases "rd_indicatorSize rd = 0")
  case False
  then have "2 \<le> rd_indicatorSize rd" using assms(5) by simp
  note eq = indicator_eq [OF assms(1-4) this]
  let ?b = "take 2 (drop (dataHeaderLength + rd_indicatorSize rd * (i * rd_columnCount rd + j)) (rd_raw rd))"
  have "length ?b = 2" using order.trans [OF conjunct2 [OF eq] assms(1)] by simp
  then show ?thesis unfolding conjunct1 [OF eq] by (simp add: get16_def)
qed (simp add: indicator_def)

section \<open>Properties\<close>

text \<open>C35. A data format in the layout the server uses, whatever its consistency token,
  reserved bytes, name areas and trailing bytes, is read as exactly its fields, each with its
  name converted from the CCSID announced for it (empty when the declared length does not fit
  the area), and with the declared record size.\<close>

theorem data_format_reads_back:
  assumes "list_all server_field_ok ws" "length ws < 2 ^ 32" "sz < 2 ^ 32" "length token = 4" "length res = 4"
  shows "parseDataFormat T (token @ be32 (of_nat (length ws)) @ res @ be32 (of_nat sz)
      @ concat (map enc_server_field ws) @ post)
    = Ok \<lparr>df_fields = map (field_of T) ws, df_recordSize = sz\<rparr>"
  using assms by (rule parseDataFormat_append)

theorem data_format_reads_back_witness:
  "parseDataFormat [37 \<mapsto> byte_encoding] (be32 1 @ be32 1 @ [9, 9, 9, 9] @ be32 4
      @ be16 64 @ be16 497 @ be32 4 @ be16 0 @ be16 9 @ be16 0 @ replicate 16 7 @ be16 2 @ be16 37
      @ [0x41, 0x42] @ replicate 28 0x40)
   = Ok \<lparr>df_fields = [\<lparr>f_sqlType = 497, f_length = 4, f_scale = 0, f_precision = 9, f_ccsid = 0,
       f_name = ''AB''\<rparr>], df_recordSize = 4\<rparr>"
proof -
  let ?f = "\<lparr>f_sqlType = 497, f_length = 4, f_scale = 0, f_precision = 9, f_ccsid = 0, f_name = []\<rparr>"
  let ?w = "ServerField ?f 64 (replicate 16 7) 2 37 ([0x41, 0x42] @ replicate 28 0x40)"
  have ok: "list_all server_field_ok [?w]" by (simp add: attributes_fit_def)
  have "string_of_bytes [0x41, 0x42] = string_of_bytes (bytes_of_string ''AB'')"
    by (simp add: bytes_of_string_def byte_of_char_def)
  then have "field_of [37 \<mapsto> byte_encoding] ?w = ?f\<lparr>f_name := ''AB''\<rparr>"
    by (simp add: decodeServerText_def decodeString_def lookupCCSID_def byte_encoding_def ccsidBinary_def)
  with data_format_reads_back [OF ok, of 4 "be32 1" "[9, 9, 9, 9]" "[37 \<mapsto> byte_encoding]" "[]"]
  show ?thesis by simp
qed

text \<open>Parameter data as the server reads it: one row.\<close>

lemma length_concat_map2:
  "length vs = length fs \<Longrightarrow> length (concat (map2 param_value fs vs)) = recordSize fs"
proof (induction vs fs rule: list_induct2)
  case (Cons v vs f fs)
  then show ?case by (simp add: recordSize_sum param_value_def split: option.split)
qed (simp add: recordSize_def)

lemma length_param_indicator [simp]: "length (param_indicator v) = 2"
  by (simp add: param_indicator_def split: option.split)

lemma length_indicators [simp]: "length (concat (map param_indicator vs)) = 2 * length vs"
  by (induction vs) simp_all

lemma indicators_nth:
  "j < length vs \<Longrightarrow> take 2 (drop (2 * j) (concat (map param_indicator vs) @ rest)) = param_indicator (vs ! j)"
proof (induction vs arbitrary: j)
  case (Cons v vs)
  then show ?case by (cases j) simp_all
qed simp

definition one_row :: "field list \<Rightarrow> bytes option list \<Rightarrow> resultData" where
  "one_row fs vs = \<lparr>rd_raw = encodeParameterData fs vs, rd_rowCount = 1, rd_columnCount = length fs,
     rd_indicatorSize = 2, rd_rowSize = recordSize fs\<rparr>"

lemma length_encodeParameterData:
  "length vs = length fs \<Longrightarrow> length (encodeParameterData fs vs) = 20 + 2 * length fs + recordSize fs"
  by (simp add: encodeParameterData_def length_concat_map2)

lemma drop_parameter_header:
  "drop (20 + k) (encodeParameterData fs vs)
    = drop k (concat (map param_indicator vs) @ concat (map2 param_value fs vs))"
proof -
  obtain h where h: "length h = 20" "encodeParameterData fs vs
      = h @ concat (map param_indicator vs) @ concat (map2 param_value fs vs)"
    by (rule that [of "be32 1 @ be32 1 @ be16 (of_nat (length fs)) @ be16 2 @ [0, 0, 0, 0]
      @ be32 (of_nat (recordSize fs))"]) (simp_all add: encodeParameterData_def)
  show ?thesis unfolding h(2) using h(1) by (simp del: drop_append add: drop_append [of _ h])
qed

lemma data_size_one_row: "data_size (one_row fs vs) = 20 + 2 * length fs + recordSize fs"
  by (simp add: data_size_def one_row_def dataHeaderLength_def)

lemma parse_encodeParameterData:
  assumes "length vs = length fs" "length fs < 2 ^ 16" "recordSize fs < 2 ^ 32"
  shows "parseResultData (encodeParameterData fs vs) = Ok (one_row fs vs)"
proof -
  let ?d = "encodeParameterData fs vs"
  have g: "get32 ?d 4 = (Ok 1 :: (format_error, _) res)"
    "get16 ?d 8 = (Ok (of_nat (length fs)) :: (format_error, _) res)"
    "get16 ?d 10 = (Ok 2 :: (format_error, _) res)"
    "get32 ?d 16 = (Ok (of_nat (recordSize fs)) :: (format_error, _) res)"
    unfolding encodeParameterData_def by (simp_all add: wire_simps)
  have w: "unat (of_nat (length fs) :: 16 word) = length fs"
    "unat (of_nat (recordSize fs) :: 32 word) = recordSize fs"
    using assms by (simp_all add: unat_of_nat16 unat_of_nat32)
  have need: "sint (data_need (one_row fs vs)) = int (length ?d)"
    using assms by (simp add: data_need_size sint_of_nat64 data_size_one_row length_encodeParameterData
        del: of_nat_add)
  have "\<not> length ?d < dataHeaderLength"
    using assms(1) by (simp add: length_encodeParameterData dataHeaderLength_def)
  then show ?thesis
    using need unfolding parseResultData_def one_row_def by (simp add: g w Let_def)
qed

lemma one_row_row:
  assumes "length vs = length fs" "length fs < 2 ^ 16" "recordSize fs < 2 ^ 32"
  shows "row_of (one_row fs vs) 0 = Ok (concat (map2 param_value fs vs))"
proof -
  have "drop (20 + 2 * length fs) (encodeParameterData fs vs) = concat (map2 param_value fs vs)"
    using assms(1) by (simp add: drop_parameter_header)
  moreover have "data_size (one_row fs vs) \<le> length (rd_raw (one_row fs vs))"
    "data_size (one_row fs vs) < 2 ^ 63" "0 < rd_rowCount (one_row fs vs)"
    using assms by (simp_all only: data_size_one_row)
      (simp_all add: one_row_def length_encodeParameterData)
  note eq = conjunct1 [OF row_of_eq [OF this]]
  ultimately show ?thesis unfolding eq
    using assms(1) by (simp add: one_row_def dataHeaderLength_def length_concat_map2 mult.commute)
qed

lemma one_row_indicator:
  assumes "length vs = length fs" "length fs < 2 ^ 16" "recordSize fs < 2 ^ 32" "j < length fs"
  shows "indicator (one_row fs vs) 0 j = Ok (if vs ! j = None then - 1 else 0)"
proof -
  let ?rd = "one_row fs vs"
  have t: "take 2 (drop (20 + 2 * j) (encodeParameterData fs vs)) = param_indicator (vs ! j)"
    unfolding drop_parameter_header using assms(1,4) by (intro indicators_nth) simp
  have "data_size ?rd \<le> length (rd_raw ?rd)" "data_size ?rd < 2 ^ 63" "0 < rd_rowCount ?rd"
    "j < rd_columnCount ?rd" "2 \<le> rd_indicatorSize ?rd"
    using assms by (simp_all only: data_size_one_row)
      (simp_all add: one_row_def length_encodeParameterData)
  note eq = conjunct1 [OF indicator_eq [OF this]]
  have "indicator ?rd 0 j = bind_res (get16 (param_indicator (vs ! j)) 0) (\<lambda>w. Ok (sint w))"
    unfolding eq by (simp add: one_row_def dataHeaderLength_def t)
  also have "\<dots> = Ok (if vs ! j = None then - 1 else 0)"
    by (cases "vs ! j") (simp_all add: param_indicator_def wire_simps)
  finally show ?thesis .
qed

text \<open>C36. Parameter data encodes exactly one row: it is accepted as result data, its row is the
  values padded to their fields' lengths, one after the other, and the indicator of a column is
  -1 for SQL NULL and 0 otherwise. The format sent for it reads as the same fields, all
  nullable, and announces the row's size.\<close>

theorem parameter_row_reads_back:
  assumes "length vs = length fs" "list_all attributes_fit fs" "length fs < 2 ^ 16" "recordSize fs < 2 ^ 32"
  shows "parseResultData (encodeParameterData fs vs) = Ok (one_row fs vs)
    \<and> row_of (one_row fs vs) 0 = (Ok (concat (map2 param_value fs vs)) :: (format_error, _) res)
    \<and> (\<forall>j < length fs. indicator (one_row fs vs) 0 j = (Ok (if vs ! j = None then - 1 else 0) :: (format_error, _) res))
    \<and> parseDataFormat T (encodeParameterFormat fs)
      = Ok \<lparr>df_fields = map (\<lambda>f. f\<lparr>f_sqlType := f_sqlType f OR 1, f_name := []\<rparr>) fs,
            df_recordSize = recordSize fs\<rparr>"
proof -
  have ws: "list_all server_field_ok (map as_server_field fs)"
    using assms(2) by (induction fs) (simp_all add: as_server_field_def attributes_fit_def)
  have "field_of T (as_server_field f) = f\<lparr>f_sqlType := f_sqlType f OR 1, f_name := []\<rparr>" for f
    by (simp add: as_server_field_def)
  moreover have "enc_param_field = enc_server_field \<circ> as_server_field"
    by (simp add: fun_eq_iff enc_param_field_server)
  ultimately have "parseDataFormat T (encodeParameterFormat fs)
      = Ok \<lparr>df_fields = map (\<lambda>f. f\<lparr>f_sqlType := f_sqlType f OR 1, f_name := []\<rparr>) fs,
            df_recordSize = recordSize fs\<rparr>"
    using parseDataFormat_append [OF ws, of "recordSize fs" "be32 1" "[0, 0, 0, 0]" T "[]"] assms(3,4)
    by (simp add: encodeParameterFormat_def comp_def)
  then show ?thesis
    using assms parse_encodeParameterData one_row_row one_row_indicator by blast
qed

definition two_fields :: "field list" where
  "two_fields = [\<lparr>f_sqlType = 496, f_length = 4, f_scale = 0, f_precision = 9, f_ccsid = 0, f_name = []\<rparr>,
     \<lparr>f_sqlType = 452, f_length = 3, f_scale = 0, f_precision = 3, f_ccsid = 37, f_name = []\<rparr>]"

theorem parameter_row_reads_back_witness:
  "row_of (one_row two_fields [Some [1, 2, 3, 4], None]) 0 = (Ok [1, 2, 3, 4, 0, 0, 0] :: (format_error, bytes) res)"
proof -
  have ok: "list_all attributes_fit two_fields" "recordSize two_fields < 2 ^ 32"
    by (simp_all add: attributes_fit_def recordSize_def two_fields_def)
  have len: "length [Some [1, 2, 3, 4 :: byte], None] = length two_fields" "length two_fields < 2 ^ 16"
    by (simp_all add: two_fields_def)
  have "concat (map2 param_value two_fields [Some [1, 2, 3, 4], None]) = [1, 2, 3, 4, 0, 0, 0]"
    by (simp add: two_fields_def param_value_def numeral_eq_Suc)
  with parameter_row_reads_back [OF len(1) ok(1) len(2) ok(2)] show ?thesis by simp
qed

text \<open>C37. Rows and indicators of accepted result data are read without a panic, provided the
  declared counts do not exceed the 64-bit arithmetic of the size check and the indicator size
  is not 1. Neither proviso can be dropped: the check of a declared two thousand million rows
  wraps around and accepts 20 bytes, and indicators of one byte are read two bytes at a time.\<close>

theorem accepted_rows_are_readable:
  assumes "parseResultData d = Ok rd" "data_size rd < 2 ^ 63" "i < rd_rowCount rd"
  shows "(\<exists>b. row_of rd i = (Ok b :: (format_error, _) res) \<and> length b = rd_rowSize rd)
    \<and> (rd_indicatorSize rd \<noteq> 1 \<longrightarrow>
         (\<forall>j < rd_columnCount rd. \<exists>k. indicator rd i j = (Ok k :: (format_error, _) res)))"
proof -
  have "data_size rd \<le> length (rd_raw rd)"
    using parseResultData_OkD [OF assms(1)] assms(2) by (simp add: data_need_size sint_of_nat64)
  then show ?thesis using row_of_ok indicator_ok assms(2,3) by blast
qed

definition tiny_result :: resultData where
  "tiny_result = \<lparr>rd_raw = be32 1 @ be32 1 @ be16 1 @ be16 2 @ be32 0 @ be32 1 @ [0, 0, 5],
      rd_rowCount = 1, rd_columnCount = 1, rd_indicatorSize = 2, rd_rowSize = 1\<rparr>"

theorem accepted_rows_are_readable_witness:
  "\<exists>b. row_of tiny_result 0 = (Ok b :: (format_error, bytes) res) \<and> length b = 1"
proof -
  have "parseResultData (rd_raw tiny_result) = Ok tiny_result"
    by (simp add: tiny_result_def parseResultData_def wire_simps data_need_def dataHeaderLength_def Let_def)
  moreover have "data_size tiny_result < 2 ^ 63" "0 < rd_rowCount tiny_result" "rd_rowSize tiny_result = 1"
    by (simp_all add: tiny_result_def data_size_def dataHeaderLength_def)
  ultimately show ?thesis using accepted_rows_are_readable [of "rd_raw tiny_result" tiny_result 0] by simp
qed

text \<open>The two provisos at work.\<close>

lemma overflowing_rows_panic:
  "\<exists>rd. parseResultData (be32 1 @ be32 0x80000000 @ be16 1 @ be16 1 @ be32 0 @ be32 0xFFFFFFFF) = Ok rd
      \<and> row_of rd 0 = (Panic :: (format_error, bytes) res)"
proof -
  define d where "d = be32 1 @ be32 0x80000000 @ be16 1 @ be16 1 @ be32 0 @ be32 0xFFFFFFFF"
  let ?rd = "\<lparr>rd_raw = d, rd_rowCount = 0x80000000, rd_columnCount = 1, rd_indicatorSize = 1,
    rd_rowSize = 0xFFFFFFFF\<rparr>"
  have len: "length d = 20" by (simp add: d_def)
  have "data_need ?rd = of_int (20 - 2 ^ 63)" by (simp add: data_need_def dataHeaderLength_def)
  then have need: "sint (data_need ?rd) \<le> int (length d)"
    by (simp only: len signed_of_int) (simp add: signed_take_bit_int_eq_self)
  have "parseResultData d = Ok ?rd"
    using need by (simp add: parseResultData_def len dataHeaderLength_def Let_def) (simp add: d_def wire_simps)
  moreover have "row_of ?rd 0 = (Panic :: (format_error, bytes) res)"
    by (simp add: row_of_def slice64_def len dataHeaderLength_def Let_def)
  ultimately show ?thesis unfolding d_def by blast
qed

lemma one_byte_indicators_panic:
  "\<exists>rd. parseResultData (be32 1 @ be32 1 @ be16 1 @ be16 1 @ be32 0 @ be32 0 @ [0]) = Ok rd
      \<and> indicator rd 0 0 = (Panic :: (format_error, int) res)"
  by (simp add: parseResultData_def wire_simps data_need_def dataHeaderLength_def indicator_def slice64_def Let_def)

end
