(* ===== verification/GoStrings.thy ===== *)
theory GoStrings
  imports GoText
begin

text \<open>
  The rest of \<^verbatim>\<open>strings\<close> and \<^verbatim>\<open>strconv\<close> the database client uses. The functions that look at
  characters split a string into the runs of bytes that \<^verbatim>\<open>range\<close> decodes, each with its rune,
  so that bytes that are not UTF-8 pass through them unchanged.
\<close>

section \<open>Runes with their bytes\<close>

function rune_chunks :: "string \<Rightarrow> (nat \<times> string) list" where
  "rune_chunks s =
     (if s = [] then [] else
        (case decode_rune (map of_char s) of
           (r, w) \<Rightarrow> (r, take w s) # rune_chunks (drop w s)))"
  by pat_completeness auto
termination
  by (relation "measure length") (auto dest!: sym [of "(_, _)"] decode_rune_drop [rotated])

declare rune_chunks.simps [simp del]

definition unchunk :: "(nat \<times> string) list \<Rightarrow> string" where
  "unchunk cs = concat (map snd cs)"

definition TrimLeftFunc :: "(nat \<Rightarrow> bool) \<Rightarrow> string \<Rightarrow> string" where
  "TrimLeftFunc p s = unchunk (dropWhile (\<lambda>c. p (fst c)) (rune_chunks s))"

definition TrimSpace :: "string \<Rightarrow> string" where
  "TrimSpace s = unchunk (trim_both (\<lambda>c. is_space (fst c)) (rune_chunks s))"

text \<open>\<^verbatim>\<open>s[:strings.IndexFunc(s, p)]\<close>, all of \<open>s\<close> when no character satisfies \<open>p\<close>.\<close>

definition before_func :: "(nat \<Rightarrow> bool) \<Rightarrow> string \<Rightarrow> string" where
  "before_func p s = unchunk (takeWhile (\<lambda>c. \<not> p (fst c)) (rune_chunks s))"

section \<open>Searching and cutting\<close>

definition HasPrefix :: "string \<Rightarrow> string \<Rightarrow> bool" where
  "HasPrefix s p \<longleftrightarrow> take (length p) s = p"

text \<open>What follows the first occurrence of \<open>p\<close> in a string, if there is one.\<close>

fun after_first :: "string \<Rightarrow> string \<Rightarrow> string option" where
  "after_first p [] = (if p = [] then Some [] else None)"
| "after_first p (c # s) =
     (if HasPrefix (c # s) p then Some (drop (length p) (c # s)) else after_first p s)"

text \<open>\<^verbatim>\<open>strings.Cut\<close> at a single byte.\<close>

fun Cut :: "char \<Rightarrow> string \<Rightarrow> string \<times> string" where
  "Cut sep [] = ([], [])"
| "Cut sep (c # s) = (if c = sep then ([], s) else apfst ((#) c) (Cut sep s))"

text \<open>\<^verbatim>\<open>strings.TrimLeft\<close> and \<^verbatim>\<open>strings.Trim\<close> with an ASCII cutset, \<^verbatim>\<open>strings.ReplaceAll\<close> of a byte.\<close>

definition TrimLeft :: "string \<Rightarrow> string \<Rightarrow> string" where
  "TrimLeft s cutset = dropWhile (\<lambda>c. c \<in> set cutset) s"

definition TrimRight :: "string \<Rightarrow> string \<Rightarrow> string" where
  "TrimRight s cutset = trim_right (\<lambda>c. c \<in> set cutset) s"

definition Trim :: "string \<Rightarrow> string \<Rightarrow> string" where
  "Trim s cutset = trim_both (\<lambda>c. c \<in> set cutset) s"

definition replace_char :: "char \<Rightarrow> char \<Rightarrow> string \<Rightarrow> string" where
  "replace_char a b = map (\<lambda>c. if c = a then b else c)"

section \<open>Decimal integers\<close>

definition digit_char :: "nat \<Rightarrow> char" where
  "digit_char d = char_of (48 + d)"

definition is_digit :: "char \<Rightarrow> bool" where
  "is_digit c \<longleftrightarrow> 48 \<le> (of_char c :: nat) \<and> (of_char c :: nat) \<le> 57"

definition digit_val :: "char \<Rightarrow> nat" where
  "digit_val c = of_char c - 48"

fun dec_digits :: "nat \<Rightarrow> string" where
  "dec_digits n =
     (if n < 10 then [digit_char n] else dec_digits (n div 10) @ [digit_char (n mod 10)])"

declare dec_digits.simps [simp del]

definition digits_val :: "string \<Rightarrow> nat" where
  "digits_val = foldl (\<lambda>n c. 10 * n + digit_val c) 0"

definition FormatInt :: "int \<Rightarrow> string" where
  "FormatInt i = (if i < 0 then CHR ''-'' # dec_digits (nat (- i)) else dec_digits (nat i))"

text \<open>\<^verbatim>\<open>strconv.ParseInt(s, 10, 64)\<close>; its errors are not distinguished by the code.\<close>

definition split_sign :: "string \<Rightarrow> bool \<times> string" where
  "split_sign s =
     (if HasPrefix s ''-'' then (True, drop 1 s)
      else if HasPrefix s ''+'' then (False, drop 1 s) else (False, s))"

definition ParseInt :: "string \<Rightarrow> int option" where
  "ParseInt s =
     (case split_sign s of (neg, ds) \<Rightarrow>
        if ds = [] \<or> \<not> list_all is_digit ds then None
        else let v = (if neg then - int (digits_val ds) else int (digits_val ds)) in
          if - (2 ^ 63) \<le> v \<and> v < 2 ^ 63 then Some v else None)"

section \<open>Lemmas\<close>

lemma rune_chunks_Nil [simp]: "rune_chunks [] = []"
  by (simp add: rune_chunks.simps)

lemma unchunk_rune_chunks [simp]: "unchunk (rune_chunks s) = s"
proof (induction s rule: rune_chunks.induct)
  case (1 s)
  show ?case
    using "1.IH" by (cases "s = []")
      (simp_all add: rune_chunks.simps [of s] unchunk_def split: prod.split)
qed

lemma unchunk_append [simp]: "unchunk (a @ b) = unchunk a @ unchunk b"
  by (simp add: unchunk_def)

text \<open>The trimming functions cut a prefix and a suffix off, whatever the bytes.\<close>

lemma TrimLeftFunc_suffix: "\<exists>p. s = p @ TrimLeftFunc q s"
proof -
  have "s = unchunk (takeWhile (\<lambda>c. q (fst c)) (rune_chunks s)
      @ dropWhile (\<lambda>c. q (fst c)) (rune_chunks s))"
    by (simp only: takeWhile_dropWhile_id unchunk_rune_chunks)
  then show ?thesis unfolding TrimLeftFunc_def unchunk_append by (rule exI)
qed

lemma trim_right_prefix: "\<exists>q. xs = trim_right p xs @ q"
proof -
  have "rev (takeWhile p (rev xs) @ dropWhile p (rev xs)) = xs"
    by (simp only: takeWhile_dropWhile_id rev_rev_ident)
  then show ?thesis unfolding trim_right_def rev_append by (intro exI) (rule sym)
qed

lemma length_TrimLeftFunc: "length (TrimLeftFunc q s) \<le> length s"
  using TrimLeftFunc_suffix [of s q] by (metis length_append le_add2)

lemma after_first_length: "after_first p s = Some t \<Longrightarrow> p \<noteq> [] \<Longrightarrow> length t < length s"
  by (induction p s rule: after_first.induct)
    (auto split: if_splits simp: HasPrefix_def intro: diff_less_Suc le_less_trans)

lemma rune_chunks_ascii:
  "list_all (\<lambda>c. (of_char c :: nat) < 0x80) s \<Longrightarrow> rune_chunks s = map (\<lambda>c. (of_char c, [c])) s"
proof (induction s)
  case (Cons c s)
  then show ?case by (subst rune_chunks.simps) simp
qed simp

lemma unchunk_singles [simp]: "unchunk (map (\<lambda>c. (of_char c, [c])) s) = s"
  by (induction s) (simp_all add: unchunk_def)

text \<open>Digits.\<close>

lemma is_digit_digit_char [simp]: "d < 10 \<Longrightarrow> is_digit (digit_char d)"
  by (simp add: is_digit_def digit_char_def)

lemma digit_val_digit_char [simp]: "d < 10 \<Longrightarrow> digit_val (digit_char d) = d"
  by (simp add: digit_val_def digit_char_def)

lemma digit_char_digit_val [simp]: "is_digit c \<Longrightarrow> digit_char (digit_val c) = c"
  by (simp add: is_digit_def digit_char_def digit_val_def)

lemma digit_val_less [simp]: "is_digit c \<Longrightarrow> digit_val c < 10"
  unfolding is_digit_def digit_val_def by linarith

lemma digits_val_append: "digits_val (a @ b) = digits_val a * 10 ^ length b + digits_val b"
proof -
  have gen: "foldl (\<lambda>n c. 10 * n + digit_val c) k b = k * 10 ^ length b + foldl (\<lambda>n c. 10 * n + digit_val c) 0 b"
    for k
  proof (induction b rule: rev_induct)
    case (snoc c b)
    then show ?case by (simp add: algebra_simps)
  qed simp
  show ?thesis unfolding digits_val_def by (simp add: gen [of "foldl _ 0 a"])
qed

lemma digits_val_Nil [simp]: "digits_val [] = 0"
  by (simp add: digits_val_def)

lemma digits_val_single [simp]: "digits_val [c] = digit_val c"
  by (simp add: digits_val_def)

lemma digits_val_Cons: "digits_val (c # s) = digit_val c * 10 ^ length s + digits_val s"
  using digits_val_append [of "[c]" s] by simp

lemma digits_val_zeros [simp]: "digits_val (replicate n CHR ''0'') = 0"
  by (induction n) (simp_all add: digits_val_Cons digit_val_def)

lemma digits_val_TrimLeft [simp]: "digits_val (TrimLeft s ''0'') = digits_val s"
  unfolding TrimLeft_def
  by (induction s) (auto simp: digits_val_Cons digit_val_def)

lemma digits_val_less: "list_all is_digit s \<Longrightarrow> digits_val s < 10 ^ length s"
proof (induction s)
  case (Cons c s)
  then have "digit_val c < 10" "digits_val s < 10 ^ length s" by simp_all
  then have "digit_val c * 10 ^ length s + digits_val s < 9 * 10 ^ length s + 10 ^ length s"
    by (intro add_le_less_mono mult_right_mono) simp_all
  then show ?case by (simp add: digits_val_Cons)
qed simp

lemma dec_digits_digits: "list_all is_digit (dec_digits n)"
  by (induction n rule: dec_digits.induct) (subst dec_digits.simps, simp)

lemma dec_digits_val [simp]: "digits_val (dec_digits n) = n"
  by (induction n rule: dec_digits.induct)
    (subst dec_digits.simps, auto simp: digits_val_append)

lemma dec_digits_not_Nil [simp]: "dec_digits n \<noteq> []"
  by (subst dec_digits.simps) simp

lemma digit_not_sign: "is_digit c \<Longrightarrow> c \<noteq> CHR ''-'' \<and> c \<noteq> CHR ''+''"
  by (auto simp: is_digit_def)

lemma split_sign_digits: "list_all is_digit ds \<Longrightarrow> split_sign ds = (False, ds)"
  by (cases ds) (auto simp: split_sign_def HasPrefix_def dest: digit_not_sign)

lemma split_sign_minus [simp]: "split_sign (CHR ''-'' # s) = (True, s)"
  by (simp add: split_sign_def HasPrefix_def)

lemma ParseInt_FormatInt: "- (2 ^ 63) \<le> i \<Longrightarrow> i < 2 ^ 63 \<Longrightarrow> ParseInt (FormatInt i) = Some i"
  by (simp add: ParseInt_def FormatInt_def split_sign_digits dec_digits_digits)

end
