(* ===== verification/Params.thy ===== *)
theory Params
  imports Prelude
begin

text \<open>
  \<^verbatim>\<open>as400/params.go\<close>: the LL/CP entries of optional and variable-length fields. An entry
  is a 4-byte length (of the whole entry), a 2-byte code point and the data.
\<close>

record param =
  CodePoint :: "16 word"
  Data :: bytes

definition encode_param :: "param \<Rightarrow> bytes" where
  "encode_param p = be32 (of_nat (6 + length (Data p))) @ be16 (CodePoint p) @ Data p"

definition EncodeParams :: "param list \<Rightarrow> bytes" where
  "EncodeParams params = concat (map encode_param params)"

datatype param_error =
    TruncatedParam nat              \<comment> \<open>\<^verbatim>\<open>truncated parameter at offset\<close>\<close>
  | InvalidParamLength "32 word" nat  \<comment> \<open>\<^verbatim>\<open>invalid parameter length ... at offset\<close>\<close>

text \<open>The loop of \<^verbatim>\<open>DecodeParams\<close>, from a given \<^verbatim>\<open>offset\<close> on.\<close>

function decode_params_from :: "bytes \<Rightarrow> nat \<Rightarrow> (param_error, param list) res" where
  "decode_params_from b offset =
     (if offset < length b then
        if offset + 6 > length b then Err (TruncatedParam offset)
        else bind_res (get32 b offset) (\<lambda>ll.
          if unat ll < 6 \<or> offset + unat ll > length b
          then Err (InvalidParamLength ll offset)
          else bind_res (get16 b (offset + 4)) (\<lambda>cp.
            bind_res (go_slice b (offset + 6) (offset + unat ll)) (\<lambda>d.
              fmap_res (\<lambda>ps. \<lparr>CodePoint = cp, Data = d\<rparr> # ps)
                (decode_params_from b (offset + unat ll)))))
      else Ok [])"
  by pat_completeness auto
termination
  by (relation "measure (\<lambda>(b, offset). length b - offset)") auto

declare decode_params_from.simps [simp del]

definition DecodeParams :: "bytes \<Rightarrow> (param_error, param list) res" where
  "DecodeParams b = decode_params_from b 0"

fun Find :: "param list \<Rightarrow> 16 word \<Rightarrow> bytes option" where
  "Find [] cp = None"
| "Find (p # params) cp = (if CodePoint p = cp then Some (Data p) else Find params cp)"

section \<open>Lemmas\<close>

text \<open>The entries whose length fits the 32-bit length field.\<close>

definition param_fits :: "param \<Rightarrow> bool" where
  "param_fits p \<longleftrightarrow> 6 + length (Data p) < 2 ^ 32"

lemma param_eta [simp]: "\<lparr>CodePoint = CodePoint p, Data = Data p\<rparr> = p"
  by (cases p) simp

lemma length_encode_param [simp]: "length (encode_param p) = 6 + length (Data p)"
  by (simp add: encode_param_def)

lemma EncodeParams_Nil [simp]: "EncodeParams [] = []"
  by (simp add: EncodeParams_def)

lemma EncodeParams_Cons [simp]: "EncodeParams (p # ps) = encode_param p @ EncodeParams ps"
  by (simp add: EncodeParams_def)

lemma EncodeParams_append [simp]: "EncodeParams (ps @ qs) = EncodeParams ps @ EncodeParams qs"
  by (simp add: EncodeParams_def)

text \<open>One step of the loop over an entry that the encoder wrote.\<close>

lemma decode_params_step:
  assumes "param_fits p"
  shows "decode_params_from (pre @ encode_param p @ rest) (length pre)
    = fmap_res ((#) p) (decode_params_from ((pre @ encode_param p) @ rest)
        (length (pre @ encode_param p)))"
proof -
  let ?b = "pre @ encode_param p @ rest" and ?n = "6 + length (Data p)"
  have ll: "unat (of_nat ?n :: 32 word) = ?n"
    using assms by (intro unat_of_nat32) (simp add: param_fits_def)
  have "get32 ?b (length pre) = (Ok (of_nat ?n) :: (param_error, _) res)"
    "get16 ?b (length pre + 4) = (Ok (CodePoint p) :: (param_error, _) res)"
    "go_slice ?b (length pre + 6) (length pre + ?n) = (Ok (Data p) :: (param_error, _) res)"
    by (simp_all add: encode_param_def wire_simps del: of_nat_add)
  then show ?thesis
    by (subst decode_params_from.simps) (simp add: ll del: of_nat_add)
qed

lemma decode_params_encode:
  assumes "list_all param_fits ps"
  shows "decode_params_from (pre @ EncodeParams ps) (length pre) = Ok ps"
  using assms
proof (induction ps arbitrary: pre)
  case Nil
  then show ?case by (simp add: decode_params_from.simps)
next
  case (Cons p ps)
  then show ?case
    using Cons.IH [of "pre @ encode_param p"] by (simp add: decode_params_step)
qed

lemma DecodeParams_encode: "list_all param_fits ps \<Longrightarrow> DecodeParams (EncodeParams ps) = Ok ps"
  using decode_params_encode [of ps "[]"] by (simp add: DecodeParams_def)

lemma DecodeParams_single [simp]: "param_fits p \<Longrightarrow> DecodeParams (encode_param p) = Ok [p]"
  using DecodeParams_encode [of "[p]"] by simp

lemma Find_map_of: "Find ps = map_of (map (\<lambda>p. (CodePoint p, Data p)) ps)"
  by (rule ext, rename_tac cp, induct_tac ps) auto

lemma Find_Some_in: "Find ps cp = Some d \<Longrightarrow> \<lparr>CodePoint = cp, Data = d\<rparr> \<in> set ps"
  by (induction ps) (auto split: if_splits)

text \<open>What an error says: the input breaks off behind a sequence of entries.\<close>

fun breaks_off :: "param_error \<Rightarrow> nat \<Rightarrow> bytes \<Rightarrow> bool" where
  "breaks_off (TruncatedParam offset) at rest \<longleftrightarrow> offset = at \<and> rest \<noteq> [] \<and> length rest < 6"
| "breaks_off (InvalidParamLength ll offset) at rest \<longleftrightarrow>
     offset = at \<and> 6 \<le> length rest \<and> take 4 rest = be32 ll
     \<and> (unat ll < 6 \<or> length rest < unat ll)"

lemma decode_params_one:
  assumes "decode_params_from b offset = r" and "offset < length b"
  obtains (short) "length b < offset + 6" "r = Err (TruncatedParam offset)"
  | (bad) ll where "offset + 6 \<le> length b" "take 4 (drop offset b) = be32 ll"
      "unat ll < 6 \<or> length b < offset + unat ll" "r = Err (InvalidParamLength ll offset)"
  | (entry) p where "param_fits p" "drop offset b = encode_param p @ drop (offset + 6 + length (Data p)) b"
      "offset + 6 + length (Data p) \<le> length b"
      "r = fmap_res ((#) p) (decode_params_from b (offset + 6 + length (Data p)))"
proof (cases "length b < offset + 6")
  case True
  with assms short show ?thesis by (subst (asm) decode_params_from.simps) simp
next
  case False
  then obtain ll where ll: "get32 b offset = (Ok ll :: (param_error, _) res)"
    by (simp add: get32_def)
  then have ll4: "take 4 (drop offset b) = be32 ll" by (simp add: get32_Ok_iff)
  show ?thesis
  proof (cases "unat ll < 6 \<or> length b < offset + unat ll")
    case True
    with assms False ll ll4 bad show ?thesis
      by (subst (asm) decode_params_from.simps) simp
  next
    case inner: False
    obtain cp where cp: "get16 b (offset + 4) = (Ok cp :: (param_error, _) res)"
      using False by (simp add: get16_def)
    define d where "d = take (unat ll - 6) (drop (offset + 6) b)"
    have d: "go_slice b (offset + 6) (offset + unat ll) = (Ok d :: (param_error, _) res)"
      using inner by (simp add: go_slice_def d_def)
    let ?p = "\<lparr>CodePoint = cp, Data = d\<rparr>"
    have len: "6 + length d = unat ll" using slice_Ok_length [OF d] inner by simp
    have "unat ll = 4 + (2 + (unat ll - 6))" using inner by arith
    then have "drop offset b
        = take (4 + (2 + (unat ll - 6))) (drop offset b) @ drop (offset + unat ll) b"
      using append_take_drop_id [of "unat ll" "drop offset b"]
      by (simp only: drop_drop) (simp add: add.commute)
    also have "take (4 + (2 + (unat ll - 6))) (drop offset b) = be32 ll @ be16 cp @ d"
      using ll4 cp by (simp only: take_add drop_drop) (simp add: add.commute d_def get16_Ok_iff)
    also have "be32 ll @ be16 cp @ d = encode_param ?p"
      using len by (simp add: encode_param_def del: of_nat_add)
    finally have split: "drop offset b = encode_param ?p @ drop (offset + unat ll) b" .
    have fits: "param_fits ?p" using len unat32_less [of ll] by (simp add: param_fits_def)
    have "r = fmap_res ((#) ?p) (decode_params_from b (offset + unat ll))"
      using assms False ll inner cp d by (subst (asm) decode_params_from.simps) simp
    with split fits inner len show ?thesis
      by (intro entry [of ?p]) (simp_all add: add.assoc)
  qed
qed

lemma decode_params_outcome:
  assumes "offset \<le> length b"
  shows "(\<exists>ps. decode_params_from b offset = Ok ps \<and> drop offset b = EncodeParams ps
            \<and> list_all param_fits ps) \<or>
    (\<exists>e ps rest. decode_params_from b offset = Err e \<and> drop offset b = EncodeParams ps @ rest
            \<and> list_all param_fits ps \<and> breaks_off e (offset + length (EncodeParams ps)) rest)"
    (is "?ok offset \<or> ?err offset")
  using assms
proof (induction "length b - offset" arbitrary: offset rule: less_induct)
  case less
  show ?case
  proof (cases "offset < length b")
    case False
    with less.prems show ?thesis by (simp add: decode_params_from.simps)
  next
    case True
    with refl show ?thesis
    proof (cases rule: decode_params_one)
      case short
      with True have "?err offset"
        by (intro exI [of _ "TruncatedParam offset"] exI [of _ "[]"] exI [of _ "drop offset b"])
          auto
      then show ?thesis ..
    next
      case (bad ll)
      then have "?err offset"
        by (intro exI [of _ "InvalidParamLength ll offset"] exI [of _ "[]"]
            exI [of _ "drop offset b"]) auto
      then show ?thesis ..
    next
      case (entry p)
      let ?next = "offset + 6 + length (Data p)"
      have "?ok ?next \<or> ?err ?next" using less.hyps [of ?next] entry(3) by auto
      then show ?thesis
      proof
        assume "?ok ?next"
        then obtain ps where "decode_params_from b ?next = Ok ps"
          "drop ?next b = EncodeParams ps" "list_all param_fits ps" by blast
        with entry have "?ok offset" by (intro exI [of _ "p # ps"]) simp
        then show ?thesis ..
      next
        assume "?err ?next"
        then obtain e ps rest where "decode_params_from b ?next = Err e"
          "drop ?next b = EncodeParams ps @ rest" "list_all param_fits ps"
          "breaks_off e (?next + length (EncodeParams ps)) rest" by blast
        with entry have "?err offset"
          by (intro exI [of _ e] exI [of _ "p # ps"] exI [of _ rest]) (simp add: add.assoc)
        then show ?thesis ..
      qed
    qed
  qed
qed

lemma DecodeParams_no_panic [panic_free]: "DecodeParams b \<noteq> Panic"
  using decode_params_outcome [of 0 b] by (auto simp: DecodeParams_def)

lemma DecodeParams_OkD: "DecodeParams b = Ok ps \<Longrightarrow> b = EncodeParams ps \<and> list_all param_fits ps"
  using decode_params_outcome [of 0 b] by (auto simp: DecodeParams_def)

section \<open>Properties\<close>

text \<open>
  C22. Round trip and canonicity of the LL/CP encoding: \<open>DecodeParams\<close> accepts a byte
  string with a list of parameters exactly if it is the encoding of that list (and every
  entry fits its length field), so neither direction loses or invents anything.
\<close>

theorem DecodeParams_iff:
  "DecodeParams b = Ok ps \<longleftrightarrow> b = EncodeParams ps \<and> list_all param_fits ps"
  using DecodeParams_OkD DecodeParams_encode by blast

text \<open>
  Totality and errors: \<open>DecodeParams\<close> terminates without a panic on every input. It
  fails only on a byte string that breaks off behind some sequence of entries: in a
  remainder too short for an entry header, or at a length field below 6 or beyond the end
  of the input; the error carries that length and that offset.
\<close>

theorem DecodeParams_total:
  "DecodeParams b \<noteq> Panic \<and>
   (DecodeParams b = Err e \<longrightarrow>
     (\<exists>ps rest. b = EncodeParams ps @ rest \<and> list_all param_fits ps
        \<and> breaks_off e (length (EncodeParams ps)) rest))"
proof (intro conjI impI)
  show "DecodeParams b \<noteq> Panic" by (rule DecodeParams_no_panic)
  assume "DecodeParams b = Err e"
  then show "\<exists>ps rest. b = EncodeParams ps @ rest \<and> list_all param_fits ps
      \<and> breaks_off e (length (EncodeParams ps)) rest"
    using decode_params_outcome [of 0 b] by (simp add: DecodeParams_def)
qed

theorem DecodeParams_total_witness:
  "\<exists>ps rest. [0, 0, 0, 7, 0x11, 0x19, 2, 0, 0] = EncodeParams ps @ rest \<and> list_all param_fits ps
     \<and> breaks_off (TruncatedParam 7) (length (EncodeParams ps)) rest"
proof -
  have "DecodeParams [0, 0, 0, 7, 0x11, 0x19, 2, 0, 0] = Err (TruncatedParam 7)"
    by (simp add: DecodeParams_def decode_params_from.simps [of _ 0]
        decode_params_from.simps [of _ 7] get32_def get16_def go_slice_def u32_def u16_def)
  then show ?thesis using DecodeParams_total by blast
qed

end
