(* ===== verification/Ebcdic.thy ===== *)
theory Ebcdic
  imports GoText
begin

text \<open>
  \<^verbatim>\<open>as400/auth/ebcdic.go\<close>: the restricted EBCDIC character set of user ids, object names
  and old passwords.
\<close>

section \<open>The interface of a character table\<close>

text \<open>
  A partial bijection between characters and code points: what a translation through the
  table and back gives follows from the one law that the two directions agree.
\<close>

locale char_table =
  fixes to_code :: "'a \<Rightarrow> 'b option" and from_code :: "'b \<Rightarrow> 'a option"
  assumes inverse: "to_code a = Some b \<longleftrightarrow> from_code b = Some a"
begin

lemma to_code_inj: "to_code a = Some b \<Longrightarrow> to_code a' = Some b \<Longrightarrow> a = a'"
  by (simp add: inverse)

lemma from_to: "to_code a \<noteq> None \<Longrightarrow> from_code (the (to_code a)) = Some a"
  by (auto simp: inverse [symmetric])

lemma map_the_to_code:
  "\<forall>a \<in> set xs. to_code a \<noteq> None \<Longrightarrow> map from_code (map (the \<circ> to_code) xs) = map Some xs"
  by (auto simp: from_to)

lemma codes_determined:
  "map from_code ys = map Some xs \<longleftrightarrow>
   (\<forall>a \<in> set xs. to_code a \<noteq> None) \<and> ys = map (the \<circ> to_code) xs"
proof (induction ys arbitrary: xs)
  case Nil
  then show ?case by (cases xs) auto
next
  case (Cons y ys)
  show ?case
  proof (cases xs)
    case (Cons a as)
    have "from_code y = Some a \<longleftrightarrow> to_code a \<noteq> None \<and> y = the (to_code a)"
      by (auto simp: inverse [symmetric])
    with Cons Cons.IH [of as] show ?thesis by auto
  qed simp
qed

end

section \<open>The tables\<close>

text \<open>The assignments \<^verbatim>\<open>m[key(x)] = value(x)\<close> for the elements of a list, in order.\<close>

definition assign_all :: "('e \<Rightarrow> 'k) \<Rightarrow> ('e \<Rightarrow> 'v) \<Rightarrow> 'e list \<Rightarrow> 'k \<Rightarrow> 'v option" where
  "assign_all key value xs = foldl (\<lambda>m x. m(key x \<mapsto> value x)) Map.empty xs"

text \<open>\<^verbatim>\<open>buildASCIIToEBCDIC\<close>: the entries in the order the code adds them.\<close>

definition ascii_entries :: "(byte \<times> byte) list" where
  "ascii_entries =
     [(0x20, 0x40), (0x24, 0x5B), (0x23, 0x7B), (0x40, 0x7C)]
     @ map (\<lambda>i. (0x41 + of_nat i, 0xC1 + of_nat i)) [0..<9]
     @ map (\<lambda>i. (0x4A + of_nat i, 0xD1 + of_nat i)) [0..<9]
     @ map (\<lambda>i. (0x53 + of_nat i, 0xE2 + of_nat i)) [0..<8]
     @ map (\<lambda>i. (0x30 + of_nat i, 0xF0 + of_nat i)) [0..<10]"

definition buildASCIIToEBCDIC :: "byte \<Rightarrow> byte option" where
  "buildASCIIToEBCDIC = assign_all fst snd ascii_entries"

text \<open>
  \<^verbatim>\<open>buildEBCDICToASCII\<close> iterates over the first map, in an order Go leaves open: the
  order is an argument.
\<close>

definition buildEBCDICToASCII :: "(byte \<times> byte) list \<Rightarrow> byte \<Rightarrow> byte option" where
  "buildEBCDICToASCII order = assign_all snd fst order"

definition asciiToEBCDIC :: "byte \<Rightarrow> byte option" where
  "asciiToEBCDIC = buildASCIIToEBCDIC"

definition ebcdicToASCII :: "byte \<Rightarrow> byte option" where
  "ebcdicToASCII = buildEBCDICToASCII ascii_entries"

section \<open>Encoding and decoding\<close>

datatype ebcdic_error = InvalidCharacter char | TooLong string nat

fun EncodeEBCDIC :: "string \<Rightarrow> (ebcdic_error, bytes) res" where
  "EncodeEBCDIC [] = Ok []"
| "EncodeEBCDIC (c # s) =
     (case asciiToEBCDIC (byte_of_char c) of
        None \<Rightarrow> Err (InvalidCharacter c)
      | Some e \<Rightarrow> fmap_res ((#) e) (EncodeEBCDIC s))"

definition EncodeEBCDICPadded :: "string \<Rightarrow> nat \<Rightarrow> (ebcdic_error, bytes) res" where
  "EncodeEBCDICPadded s n =
     (if n < length s then Err (TooLong s n)
      else fmap_res (\<lambda>enc. enc @ drop (length enc) (replicate n 0x40)) (EncodeEBCDIC s))"

definition EncodeEBCDIC10 :: "string \<Rightarrow> (ebcdic_error, bytes) res" where
  "EncodeEBCDIC10 s = fmap_res (fit 10) (EncodeEBCDICPadded s 10)"

definition DecodeEBCDICLossy :: "bytes \<Rightarrow> string" where
  "DecodeEBCDICLossy b =
     map (\<lambda>e. case ebcdicToASCII e of Some a \<Rightarrow> char_of_byte a | None \<Rightarrow> CHR ''?'') b"

definition DecodeEBCDIC10 :: "bytes \<Rightarrow> string" where
  "DecodeEBCDIC10 b = DecodeEBCDICLossy b"

section \<open>Specification: the character set the documentation names\<close>

definition simple_char :: "char \<Rightarrow> bool" where
  "simple_char c \<longleftrightarrow> c \<in> set ''ABCDEFGHIJKLMNOPQRSTUVWXYZ0123456789 $#@''"

definition blanks :: "nat \<Rightarrow> string" where
  "blanks n = replicate n CHR '' ''"

section \<open>Lemmas\<close>

lemma ascii_entries_eval:
  "ascii_entries =
   [(0x20, 0x40), (0x24, 0x5B), (0x23, 0x7B), (0x40, 0x7C),
    (0x41, 0xC1), (0x42, 0xC2), (0x43, 0xC3), (0x44, 0xC4), (0x45, 0xC5), (0x46, 0xC6),
    (0x47, 0xC7), (0x48, 0xC8), (0x49, 0xC9),
    (0x4A, 0xD1), (0x4B, 0xD2), (0x4C, 0xD3), (0x4D, 0xD4), (0x4E, 0xD5), (0x4F, 0xD6),
    (0x50, 0xD7), (0x51, 0xD8), (0x52, 0xD9),
    (0x53, 0xE2), (0x54, 0xE3), (0x55, 0xE4), (0x56, 0xE5), (0x57, 0xE6), (0x58, 0xE7),
    (0x59, 0xE8), (0x5A, 0xE9),
    (0x30, 0xF0), (0x31, 0xF1), (0x32, 0xF2), (0x33, 0xF3), (0x34, 0xF4), (0x35, 0xF5),
    (0x36, 0xF6), (0x37, 0xF7), (0x38, 0xF8), (0x39, 0xF9)]"
  by (simp add: ascii_entries_def upt_rec)

lemma ascii_distinct: "distinct (map fst ascii_entries)"
  by (simp add: ascii_entries_eval)

lemma ebcdic_distinct: "distinct (map snd ascii_entries)"
  by (simp add: ascii_entries_eval)

lemma assign_all_iff:
  assumes "distinct (map key xs)"
  shows "assign_all key value xs k = Some v \<longleftrightarrow> (\<exists>x \<in> set xs. key x = k \<and> value x = v)"
  using assms
proof (induction xs rule: rev_induct)
  case Nil
  then show ?case by (simp add: assign_all_def)
next
  case (snoc x xs)
  have "assign_all key value (xs @ [x]) = (assign_all key value xs)(key x \<mapsto> value x)"
    by (simp add: assign_all_def)
  with snoc show ?case by (cases "k = key x") (auto simp: image_iff)
qed

lemma asciiToEBCDIC_iff: "asciiToEBCDIC a = Some e \<longleftrightarrow> (a, e) \<in> set ascii_entries"
  using assign_all_iff [OF ascii_distinct, of snd a e]
  by (force simp: asciiToEBCDIC_def buildASCIIToEBCDIC_def)

lemma build_inverse_iff:
  assumes "set order = set ascii_entries" "distinct order"
  shows "buildEBCDICToASCII order e = Some a \<longleftrightarrow> (a, e) \<in> set ascii_entries"
proof -
  have "distinct (map snd order)"
    using ebcdic_distinct assms by (simp add: distinct_map)
  from assign_all_iff [OF this, of fst e a] show ?thesis
    by (force simp: buildEBCDICToASCII_def assms)
qed

lemma distinct_entries: "distinct ascii_entries"
  using ascii_distinct by (simp add: distinct_map)

interpretation ebcdic: char_table asciiToEBCDIC ebcdicToASCII
  by unfold_locales
    (simp add: asciiToEBCDIC_iff ebcdicToASCII_def build_inverse_iff distinct_entries)

lemma simple_char_codes:
  "map byte_of_char ''ABCDEFGHIJKLMNOPQRSTUVWXYZ0123456789 $#@''
   = map fst (drop 4 ascii_entries @ [(0x20, 0x40), (0x24, 0x5B), (0x23, 0x7B), (0x40, 0x7C)])"
  by (simp add: ascii_entries_eval byte_of_char_def)

lemma simple_char_iff: "simple_char c \<longleftrightarrow> asciiToEBCDIC (byte_of_char c) \<noteq> None"
proof -
  have dom: "asciiToEBCDIC a \<noteq> None \<longleftrightarrow> a \<in> set (map fst ascii_entries)" for a
    by (force simp: asciiToEBCDIC_iff)
  have "set (map fst ascii_entries)
      = byte_of_char ` set ''ABCDEFGHIJKLMNOPQRSTUVWXYZ0123456789 $#@''"
    unfolding set_map [symmetric] simple_char_codes by (auto simp: ascii_entries_eval)
  then have "asciiToEBCDIC (byte_of_char c) \<noteq> None
      \<longleftrightarrow> byte_of_char c \<in> byte_of_char ` set ''ABCDEFGHIJKLMNOPQRSTUVWXYZ0123456789 $#@''"
    by (simp only: dom)
  also have "\<dots> \<longleftrightarrow> simple_char c"
    unfolding simple_char_def by (rule inj_image_mem_iff) (simp add: inj_on_def)
  finally show ?thesis by simp
qed

lemma EncodeEBCDIC_Ok_iff:
  "EncodeEBCDIC s = Ok b \<longleftrightarrow>
   list_all simple_char s \<and> b = map (\<lambda>c. the (asciiToEBCDIC (byte_of_char c))) s"
  by (induction s arbitrary: b) (auto simp: simple_char_iff split: option.splits)

lemma EncodeEBCDIC_no_panic [panic_free, simp]: "EncodeEBCDIC s \<noteq> Panic"
  by (induction s) (auto split: option.splits)

lemma EncodeEBCDIC_Err_iff:
  "EncodeEBCDIC s = Err e \<longleftrightarrow>
   (\<exists>c. List.find (\<lambda>c. \<not> simple_char c) s = Some c \<and> e = InvalidCharacter c)"
proof (induction s)
  case (Cons d s)
  have "fmap_res f (EncodeEBCDIC s) = Err e \<longleftrightarrow> EncodeEBCDIC s = Err e" for f :: "bytes \<Rightarrow> bytes"
    by (cases "EncodeEBCDIC s") auto
  with Cons show ?case by (auto simp: simple_char_iff split: option.splits)
qed simp

lemma EncodeEBCDICPadded_no_panic [panic_free, simp]: "EncodeEBCDICPadded s n \<noteq> Panic"
  by (simp add: EncodeEBCDICPadded_def)

lemma EncodeEBCDICPadded_length: "EncodeEBCDICPadded s n = Ok b \<Longrightarrow> length b = n"
  by (auto simp: EncodeEBCDICPadded_def EncodeEBCDIC_Ok_iff split: if_splits)

lemma EncodeEBCDIC10_padded: "EncodeEBCDIC10 s = EncodeEBCDICPadded s 10"
  by (cases "EncodeEBCDICPadded s 10")
    (auto simp: EncodeEBCDIC10_def dest: EncodeEBCDICPadded_length)

lemma EncodeEBCDIC10_length: "EncodeEBCDIC10 s = Ok b \<Longrightarrow> length b = 10"
  by (simp add: EncodeEBCDIC10_padded EncodeEBCDICPadded_length)

lemma EncodeEBCDIC10_no_panic [panic_free, simp]: "EncodeEBCDIC10 s \<noteq> Panic"
  by (simp add: EncodeEBCDIC10_padded)

lemma blank_code: "asciiToEBCDIC (byte_of_char CHR '' '') = Some 0x40"
  by (simp add: asciiToEBCDIC_iff ascii_entries_eval byte_of_char_def)

lemma simple_blank: "simple_char CHR '' ''"
  by (simp add: simple_char_def)

lemma not_simple_question: "\<not> simple_char CHR ''?''"
  by (simp add: simple_char_def)

lemma DecodeEBCDICLossy_simple_iff:
  assumes "list_all simple_char s"
  shows "DecodeEBCDICLossy b = s \<longleftrightarrow> b = map (\<lambda>c. the (asciiToEBCDIC (byte_of_char c))) s"
proof -
  have one: "(case ebcdicToASCII e of Some a \<Rightarrow> char_of_byte a | None \<Rightarrow> CHR ''?'') = c
      \<longleftrightarrow> e = the (asciiToEBCDIC (byte_of_char c))" if c: "simple_char c" for e c
  proof (cases "ebcdicToASCII e")
    case None
    from c have "ebcdicToASCII (the (asciiToEBCDIC (byte_of_char c))) \<noteq> None"
      by (simp add: simple_char_iff ebcdic.from_to)
    with None c not_simple_question show ?thesis by auto
  next
    case (Some a)
    then have "asciiToEBCDIC a = Some e" by (simp add: ebcdic.inverse)
    moreover have "char_of_byte a = c \<longleftrightarrow> a = byte_of_char c"
      by (metis byte_of_char_of_byte char_of_byte_of_char)
    ultimately show ?thesis
      using Some c ebcdic.to_code_inj [of a e "byte_of_char c"]
      by (auto simp: simple_char_iff)
  qed
  show ?thesis
    using assms
  proof (induction s arbitrary: b)
    case Nil
    then show ?case by (simp add: DecodeEBCDICLossy_def)
  next
    case (Cons c s)
    then show ?case
      by (cases b) (auto simp: DecodeEBCDICLossy_def one)
  qed
qed

lemma length_DecodeEBCDICLossy [simp]: "length (DecodeEBCDICLossy b) = length b"
  by (simp add: DecodeEBCDICLossy_def)

lemma EncodeEBCDICPadded_Ok_iff:
  "EncodeEBCDICPadded s n = Ok b \<longleftrightarrow>
   list_all simple_char s \<and> length s \<le> n \<and> DecodeEBCDICLossy b = s @ blanks (n - length s)"
proof (cases "list_all simple_char s \<and> length s \<le> n")
  case True
  then have "list_all simple_char (s @ blanks (n - length s))"
    by (auto simp: blanks_def list_all_iff simple_blank)
  with True show ?thesis
    by (auto simp: EncodeEBCDICPadded_def EncodeEBCDIC_Ok_iff DecodeEBCDICLossy_simple_iff
        blanks_def blank_code)
next
  case False
  then show ?thesis
    by (auto simp: EncodeEBCDICPadded_def EncodeEBCDIC_Ok_iff)
qed

lemma EncodeEBCDICPadded_total:
  "list_all simple_char s \<Longrightarrow> length s \<le> n \<Longrightarrow> \<exists>b. EncodeEBCDICPadded s n = Ok b"
  by (simp add: EncodeEBCDICPadded_def EncodeEBCDIC_Ok_iff del: EncodeEBCDIC.simps)

section \<open>Properties\<close>

text \<open>
  C23. The round trip of a padded EBCDIC field. \<^verbatim>\<open>EncodeEBCDICPadded(s, n)\<close> succeeds with
  \<open>b\<close> exactly when \<open>s\<close> has at most \<open>n\<close> characters of the documented set and \<open>b\<close> is the
  field that decodes to \<open>s\<close> followed by blanks up to \<open>n\<close>. So the field has \<open>n\<close> bytes, the
  decoder inverts the encoder, and no two fields decode to the same valid name.
\<close>
theorem EncodeEBCDICPadded_iff_decodes:
  "EncodeEBCDICPadded s n = Ok b \<longleftrightarrow>
   list_all simple_char s \<and> length s \<le> n \<and> DecodeEBCDICLossy b = s @ blanks (n - length s)"
  by (rule EncodeEBCDICPadded_Ok_iff)

end
