(* ===== verification/Datastream.thy ===== *)
theory Datastream
  imports Prelude
begin

text \<open>
  \<^verbatim>\<open>as400/datastream.go\<close> and \<^verbatim>\<open>as400/serverid.go\<close>: the 20-byte header every host
  server shares, \<^verbatim>\<open>Request.Encode\<close> and \<^verbatim>\<open>ReadReply\<close>. A reader is the sequence of
  bytes it will still deliver before it fails; reading returns what is left of it.
\<close>

section \<open>Server identifiers and the header\<close>

type_synonym server_id = "16 word"

definition ServerSignon :: server_id where "ServerSignon = 0xE009"
definition ServerDataQueue :: server_id where "ServerDataQueue = 0xE007"
definition ServerRemoteCommand :: server_id where "ServerRemoteCommand = 0xE008"
definition ServerDatabase :: server_id where "ServerDatabase = 0xE004"

lemmas server_ids = ServerSignon_def ServerDataQueue_def ServerRemoteCommand_def
  ServerDatabase_def

definition HeaderLength :: nat where "HeaderLength = 20"

record request =
  rq_ServerID :: server_id
  rq_HeaderID :: "16 word"
  rq_Correlation :: "32 word"
  rq_TemplateLen :: "16 word"
  rq_ReqRepID :: "16 word"
  rq_Body :: bytes

record reply =
  rp_HeaderID :: "16 word"
  rp_ServerID :: server_id
  rp_Correlation :: "32 word"
  rp_TemplateLen :: "16 word"
  rp_ReqRepID :: "16 word"
  rp_Body :: bytes

definition AttrHeaderID :: "byte \<Rightarrow> 16 word" where
  "AttrHeaderID clientAttr = push_bit 8 (ucast clientAttr)"

definition ClientAttr :: "reply \<Rightarrow> byte" where
  "ClientAttr r = ucast (drop_bit 8 (rp_HeaderID r))"

definition ServerAttr :: "reply \<Rightarrow> byte" where
  "ServerAttr r = ucast (rp_HeaderID r)"

text \<open>\<^verbatim>\<open>Reply.RC\<close>: the return code, when the body is long enough to hold one.\<close>

definition RC :: "reply \<Rightarrow> 32 word option" where
  "RC r = (if length (rp_Body r) < 4 then None
           else case get32 (rp_Body r) 0 :: (unit, 32 word) res of Ok w \<Rightarrow> Some w | _ \<Rightarrow> None)"

text \<open>\<^verbatim>\<open>Request.Encode\<close>; bytes 8--11 (CS instance) stay zero.\<close>

definition encode_request :: "request \<Rightarrow> bytes" where
  "encode_request r =
     be32 (of_nat (HeaderLength + length (rq_Body r)))
     @ be16 (rq_HeaderID r) @ be16 (rq_ServerID r)
     @ [0, 0, 0, 0]
     @ be32 (rq_Correlation r)
     @ be16 (rq_TemplateLen r) @ be16 (rq_ReqRepID r)
     @ rq_Body r"

section \<open>Reading a reply\<close>

datatype read_error =
    ReadHeader          \<comment> \<open>\<^verbatim>\<open>as400: read header\<close>\<close>
  | BadServerID byte    \<comment> \<open>\<^verbatim>\<open>as400: unexpected server id byte\<close>\<close>
  | ShortLength "32 word"  \<comment> \<open>\<^verbatim>\<open>reply declares length ..., shorter than the header\<close>\<close>
  | ReadBody            \<comment> \<open>\<^verbatim>\<open>as400: read body\<close>\<close>

text \<open>
  \<^verbatim>\<open>io.ReadFull\<close>: exactly \<open>n\<close> bytes, or an error after consuming whatever there was.
\<close>

definition read_full :: "nat \<Rightarrow> bytes \<Rightarrow> bytes option \<times> bytes" where
  "read_full n b = (if n \<le> length b then (Some (take n b), drop n b) else (None, []))"

definition read_reply :: "bytes \<Rightarrow> (read_error, reply) res \<times> bytes" where
  "read_reply r0 =
     (case read_full HeaderLength r0 of
        (None, r1) \<Rightarrow> (Err ReadHeader, r1)
      | (Some hdr, r1) \<Rightarrow>
          (case get8 hdr 6 of
             Ok sid \<Rightarrow>
               if sid \<noteq> 0xE0 then (Err (BadServerID sid), r1)
               else (case get32 hdr 0 of
                  Ok len \<Rightarrow>
                    if unat len < HeaderLength then (Err (ShortLength len), r1)
                    else (case read_full (unat (len - of_nat HeaderLength)) r1 of
                       (None, r2) \<Rightarrow> (Err ReadBody, r2)
                     | (Some body, r2) \<Rightarrow>
                         (bind_res (get16 hdr 4) (\<lambda>hid.
                          bind_res (get16 hdr 6) (\<lambda>srv.
                          bind_res (get32 hdr 12) (\<lambda>cor.
                          bind_res (get16 hdr 16) (\<lambda>tl.
                          bind_res (get16 hdr 18) (\<lambda>rr.
                          Ok \<lparr>rp_HeaderID = hid, rp_ServerID = srv, rp_Correlation = cor,
                              rp_TemplateLen = tl, rp_ReqRepID = rr, rp_Body = body\<rparr>))))), r2))
                | Err e \<Rightarrow> (Err e, r1)
                | Panic \<Rightarrow> (Panic, r1))
           | Err e \<Rightarrow> (Err e, r1)
           | Panic \<Rightarrow> (Panic, r1)))"

text \<open>The reply that carries exactly the fields of a request (a peer's echo of it).\<close>

definition reply_of :: "request \<Rightarrow> reply" where
  "reply_of r = \<lparr>rp_HeaderID = rq_HeaderID r, rp_ServerID = rq_ServerID r,
     rp_Correlation = rq_Correlation r, rp_TemplateLen = rq_TemplateLen r,
     rp_ReqRepID = rq_ReqRepID r, rp_Body = rq_Body r\<rparr>"

text \<open>
  The requests that can be framed: a host server id, and a total length that fits the
  32-bit length field.
\<close>

definition frameable :: "request \<Rightarrow> bool" where
  "frameable r \<longleftrightarrow> ucast (drop_bit 8 (rq_ServerID r)) = (0xE0 :: byte)
     \<and> HeaderLength + length (rq_Body r) < 2 ^ 32"

lemma length_encode_request [simp]:
  "length (encode_request r) = HeaderLength + length (rq_Body r)"
  by (simp add: encode_request_def HeaderLength_def)

lemma read_full_exact: "length xs = n \<Longrightarrow> read_full n (xs @ ys) = (Some xs, ys)"
  by (simp add: read_full_def)

lemma RC_be32 [wire_simps]: "rp_Body r = be32 w @ b \<Longrightarrow> RC r = Some w"
  by (simp add: RC_def wire_simps)

lemma RC_None_iff: "RC r = None \<longleftrightarrow> length (rp_Body r) < 4"
  by (simp add: RC_def get32_def)

lemma RC_Some_iff:
  "RC r = Some w \<longleftrightarrow> 4 \<le> length (rp_Body r) \<and> take 4 (rp_Body r) = be32 w"
proof -
  have "RC r = Some w \<longleftrightarrow> (get32 (rp_Body r) 0 :: (unit, 32 word) res) = Ok w"
    by (auto simp: RC_def get32_def split: if_splits)
  then show ?thesis by (simp add: get32_Ok_iff)
qed

lemma ServerAttr_AttrHeaderID [simp]: "ucast (AttrHeaderID a) = (0 :: byte)"
  unfolding AttrHeaderID_def by (rule bit_word_eqI) (auto simp: bit_simps)

section \<open>What reading a reply does\<close>

text \<open>A successful read consumed exactly one frame of the declared length.\<close>

lemma header_fields:
  assumes "length (hdr :: bytes) = HeaderLength"
  shows "get8 hdr 6 = Ok (hdr ! 6)" and "get32 hdr 0 = Ok (u32 (hdr!0) (hdr!1) (hdr!2) (hdr!3))"
    and "get16 hdr 4 = Ok (u16 (hdr!4) (hdr!5))" and "get16 hdr 6 = Ok (u16 (hdr!6) (hdr!7))"
    and "get32 hdr 12 = Ok (u32 (hdr!12) (hdr!13) (hdr!14) (hdr!15))"
    and "get16 hdr 16 = Ok (u16 (hdr!16) (hdr!17))"
    and "get16 hdr 18 = Ok (u16 (hdr!18) (hdr!19))"
  using assms by (simp_all add: get8_def get16_def get32_def HeaderLength_def numeral_2_eq_2)

lemma header_bytes:
  assumes "length (hdr :: bytes) = HeaderLength"
  shows "hdr = be32 (u32 (hdr!0) (hdr!1) (hdr!2) (hdr!3)) @ be16 (u16 (hdr!4) (hdr!5))
    @ be16 (u16 (hdr!6) (hdr!7)) @ take 4 (drop 8 hdr)
    @ be32 (u32 (hdr!12) (hdr!13) (hdr!14) (hdr!15))
    @ be16 (u16 (hdr!16) (hdr!17)) @ be16 (u16 (hdr!18) (hdr!19))"
  using assms
  by (intro nth_equalityI)
    (auto simp: HeaderLength_def nth_append nth_Cons' less_Suc_eq eval_nat_numeral)

text \<open>One successful header parse, with the reply it yields.\<close>

definition header_reply :: "bytes \<Rightarrow> bytes \<Rightarrow> reply" where
  "header_reply hdr body =
     \<lparr>rp_HeaderID = u16 (hdr!4) (hdr!5), rp_ServerID = u16 (hdr!6) (hdr!7),
      rp_Correlation = u32 (hdr!12) (hdr!13) (hdr!14) (hdr!15),
      rp_TemplateLen = u16 (hdr!16) (hdr!17), rp_ReqRepID = u16 (hdr!18) (hdr!19),
      rp_Body = body\<rparr>"

definition declared_length :: "bytes \<Rightarrow> 32 word" where
  "declared_length b = u32 (b!0) (b!1) (b!2) (b!3)"

text \<open>The four ways a read ends, as one equation.\<close>

lemma read_reply_eq:
  "read_reply b =
     (if length b < HeaderLength then (Err ReadHeader, [])
      else if b ! 6 \<noteq> 0xE0 then (Err (BadServerID (b ! 6)), drop HeaderLength b)
      else if unat (declared_length b) < HeaderLength
        then (Err (ShortLength (declared_length b)), drop HeaderLength b)
      else if length b < unat (declared_length b) then (Err ReadBody, [])
      else (Ok (header_reply (take HeaderLength b)
                 (take (unat (declared_length b) - HeaderLength) (drop HeaderLength b))),
            drop (unat (declared_length b)) b))"
proof (cases "length b < HeaderLength")
  case True
  then show ?thesis by (simp add: read_reply_def read_full_def)
next
  case False
  let ?h = "take HeaderLength b"
  have len: "length ?h = HeaderLength" using False by simp
  have nths: "i < HeaderLength \<Longrightarrow> ?h ! i = b ! i" for i by simp
  have sub: "unat (w - of_nat HeaderLength) = unat w - HeaderLength"
    if "\<not> unat w < HeaderLength" for w :: "32 word"
    using that by (simp add: HeaderLength_def unat_sub_if' word_le_nat_alt)
  have le: "\<not> unat w < 20 \<Longrightarrow> unat w - 20 \<le> length b - 20 \<longleftrightarrow> \<not> length b < unat w"
    for w :: "32 word"
    using False by (auto simp: HeaderLength_def)
  show ?thesis
    using False sub [unfolded HeaderLength_def] le
    by (simp add: read_reply_def read_full_def header_fields [OF len, unfolded HeaderLength_def]
        header_reply_def declared_length_def HeaderLength_def add.commute)
qed

lemma encode_request_parts:
  "take HeaderLength (encode_request r) =
     be32 (of_nat (HeaderLength + length (rq_Body r))) @ be16 (rq_HeaderID r)
     @ be16 (rq_ServerID r) @ [0, 0, 0, 0] @ be32 (rq_Correlation r)
     @ be16 (rq_TemplateLen r) @ be16 (rq_ReqRepID r)"
  "drop HeaderLength (encode_request r) = rq_Body r"
  by (simp_all add: encode_request_def HeaderLength_def be16_def be32_def numeral_eq_Suc)

section \<open>Properties\<close>

lemma read_reply_encode_request:
  assumes "frameable r"
  shows "read_reply (encode_request r @ rest) = (Ok (reply_of r), rest)"
proof -
  let ?n = "HeaderLength + length (rq_Body r)"
  have decl: "declared_length (encode_request r @ rest) = of_nat ?n"
    by (simp add: declared_length_def encode_request_def be32_def del: of_nat_add)
  have n: "unat (of_nat ?n :: 32 word) = ?n"
    using assms by (intro unat_of_nat32) (simp add: frameable_def)
  have sid: "(encode_request r @ rest) ! 6 = 0xE0"
    using assms by (simp add: frameable_def encode_request_def be32_def be16_def)
  have "header_reply (take HeaderLength (encode_request r @ rest)) (rq_Body r) = reply_of r"
    by (simp add: header_reply_def reply_of_def encode_request_def HeaderLength_def be32_def be16_def)
  then show ?thesis
    by (simp add: read_reply_eq decl n sid encode_request_parts del: of_nat_add)
qed

definition ping_request :: request where
  "ping_request = \<lparr>rq_ServerID = ServerDatabase, rq_HeaderID = 0, rq_Correlation = 7,
     rq_TemplateLen = 20, rq_ReqRepID = 0x1F81, rq_Body = [1, 2, 3]\<rparr>"

lemma frameable_ping_request: "frameable ping_request"
  by (simp add: frameable_def ping_request_def ServerDatabase_def HeaderLength_def)

text \<open>A connection carries a sequence of such frames.\<close>

definition next_frame :: "bytes \<Rightarrow> (read_error, reply \<times> bytes) res" where
  "next_frame b = fmap_res (\<lambda>r. (r, snd (read_reply b))) (fst (read_reply b))"

interpretation frames: prefix_codec encode_request next_frame reply_of frameable
  by unfold_locales (simp add: next_frame_def read_reply_encode_request)

text \<open>
  C18. Framing round trip: the frames that \<open>Encode\<close> wrote on a connection one after the
  other are read back by as many \<open>ReadReply\<close> calls, each with exactly the fields of its
  request, and whatever follows them is left unread.
\<close>

theorem read_back_frames:
  assumes "list_all frameable rs"
  shows "dec_n next_frame (length rs) (concat (map encode_request rs) @ rest)
    = Ok (map reply_of rs, rest)"
  using assms by (rule frames.dec_n_concat)

theorem read_back_frames_witness:
  "dec_n next_frame 2 (encode_request ping_request @ encode_request ping_request @ [9])
    = Ok ([reply_of ping_request, reply_of ping_request], [9])"
  using read_back_frames [of "[ping_request, ping_request]" "[9]"] frameable_ping_request
  by (simp add: numeral_2_eq_2)

text \<open>
  C21. Exact consumption: a reply \<open>ReadReply\<close> accepts is a host-server frame of the
  declared length; its fields are the header's, and the reader is left right behind it.
\<close>

theorem read_reply_sound:
  assumes "read_reply b = (Ok r, rest)"
  shows "\<exists>cs. length cs = 4
    \<and> b = be32 (of_nat (HeaderLength + length (rp_Body r))) @ be16 (rp_HeaderID r)
        @ be16 (rp_ServerID r) @ cs @ be32 (rp_Correlation r) @ be16 (rp_TemplateLen r)
        @ be16 (rp_ReqRepID r) @ rp_Body r @ rest
    \<and> ucast (drop_bit 8 (rp_ServerID r)) = (0xE0 :: byte)
    \<and> HeaderLength + length (rp_Body r) < 2 ^ 32"
proof -
  let ?n = "unat (declared_length b)" and ?h = "take HeaderLength b"
  from assms have ok: "\<not> length b < HeaderLength" "b ! 6 = 0xE0" "HeaderLength \<le> ?n"
      "?n \<le> length b"
    and r: "r = header_reply ?h (take (?n - HeaderLength) (drop HeaderLength b))"
    and rest: "rest = drop ?n b"
    by (auto simp: read_reply_eq split: if_splits)
  have body: "length (rp_Body r) = ?n - HeaderLength"
    using ok by (simp add: r header_reply_def)
  have bound: "HeaderLength + length (rp_Body r) < 2 ^ 32"
    using ok body unat32_less [of "declared_length b"] by simp
  have decl: "of_nat (HeaderLength + length (rp_Body r)) = declared_length b"
    using ok body by simp
  have len: "length ?h = HeaderLength" using ok by simp
  have nths: "i < 20 \<Longrightarrow> ?h ! i = b ! i" for i by (simp add: HeaderLength_def)
  have split: "b = ?h @ rp_Body r @ rest"
    using ok by (simp add: r rest header_reply_def flip: append_assoc take_add)
  obtain cs where "length cs = 4" and hdr: "?h = be32 (declared_length b)
      @ be16 (rp_HeaderID r) @ be16 (rp_ServerID r) @ cs @ be32 (rp_Correlation r)
      @ be16 (rp_TemplateLen r) @ be16 (rp_ReqRepID r)"
  proof
    show "length (take 4 (drop 8 ?h)) = 4" using len by (simp add: HeaderLength_def)
    show "?h = be32 (declared_length b) @ be16 (rp_HeaderID r) @ be16 (rp_ServerID r)
      @ take 4 (drop 8 ?h) @ be32 (rp_Correlation r) @ be16 (rp_TemplateLen r)
      @ be16 (rp_ReqRepID r)"
      using header_bytes [OF len] by (simp add: r header_reply_def declared_length_def nths)
  qed
  have "b = be32 (declared_length b) @ be16 (rp_HeaderID r) @ be16 (rp_ServerID r) @ cs
      @ be32 (rp_Correlation r) @ be16 (rp_TemplateLen r) @ be16 (rp_ReqRepID r)
      @ rp_Body r @ rest"
    by (rule trans [OF split]) (simp only: hdr append_assoc)
  moreover have "ucast (drop_bit 8 (rp_ServerID r)) = (0xE0 :: byte)"
  proof -
    have "be16 (rp_ServerID r) = [b ! 6, b ! 7]"
      by (simp add: r header_reply_def nths)
    then show ?thesis using ok by (simp add: be16_def)
  qed
  ultimately show ?thesis
    using bound \<open>length cs = 4\<close> by (intro exI [of _ cs]) (simp only: decl simp_thms)
qed

theorem read_reply_sound_witness:
  "\<exists>cs. length cs = 4 \<and> encode_request ping_request
      = be32 23 @ be16 0 @ be16 0xE004 @ cs @ be32 7 @ be16 20 @ be16 0x1F81 @ [1, 2, 3]"
  using read_reply_sound [of "encode_request ping_request" "reply_of ping_request" "[]"]
    read_reply_encode_request [OF frameable_ping_request, of "[]"]
  by (simp add: reply_of_def ping_request_def HeaderLength_def ServerDatabase_def)

text \<open>
  Error paths: \<open>ReadReply\<close> never panics, and fails exactly on a stream too short for a
  header, on a foreign server id, on a declared length below the header's, and on a
  stream that ends inside the body, in this order.
\<close>

theorem read_reply_errors:
  "fst (read_reply b) \<noteq> Panic \<and>
   (fst (read_reply b) = Err ReadHeader \<longleftrightarrow> length b < HeaderLength) \<and>
   (\<forall>s. fst (read_reply b) = Err (BadServerID s) \<longleftrightarrow>
      HeaderLength \<le> length b \<and> b ! 6 = s \<and> s \<noteq> 0xE0) \<and>
   (\<forall>n. fst (read_reply b) = Err (ShortLength n) \<longleftrightarrow>
      HeaderLength \<le> length b \<and> b ! 6 = 0xE0 \<and> declared_length b = n \<and> unat n < HeaderLength) \<and>
   (fst (read_reply b) = Err ReadBody \<longleftrightarrow>
      HeaderLength \<le> length b \<and> b ! 6 = 0xE0 \<and> HeaderLength \<le> unat (declared_length b)
      \<and> length b < unat (declared_length b))"
  by (auto simp: read_reply_eq)

end
