(* ===== verification/DbWire.thy ===== *)
theory DbWire
  imports DbFormat GoStrings Params Ebcdic Datastream
begin

text \<open>
  \<^verbatim>\<open>database/wire.go\<close> and \<^verbatim>\<open>database/errors.go\<close>: the requests of the as-database server with
  their template and parameters, the decoding of its replies, and the error built from a
  failed reply.
\<close>

section \<open>Code points and bitmaps\<close>

definition fnSetAttributes :: "16 word" where "fnSetAttributes = 0x1F80"
definition fnRetrieveAttributes :: "16 word" where "fnRetrieveAttributes = 0x1F81"
definition fnCreateRPB :: "16 word" where "fnCreateRPB = 0x1D00"
definition fnDeleteRPB :: "16 word" where "fnDeleteRPB = 0x1D02"
definition fnChangeDescriptor :: "16 word" where "fnChangeDescriptor = 0x1E00"
definition fnDeleteDescriptor :: "16 word" where "fnDeleteDescriptor = 0x1E01"
definition fnPrepareDescribe :: "16 word" where "fnPrepareDescribe = 0x1803"
definition fnExecute :: "16 word" where "fnExecute = 0x1805"
definition fnCommit :: "16 word" where "fnCommit = 0x1807"
definition fnRollback :: "16 word" where "fnRollback = 0x1808"
definition fnClose :: "16 word" where "fnClose = 0x180A"
definition fnFetch :: "16 word" where "fnFetch = 0x180B"
definition fnOpenDescribeFetch :: "16 word" where "fnOpenDescribeFetch = 0x180E"

lemmas fn_defs = fnSetAttributes_def fnRetrieveAttributes_def fnCreateRPB_def fnDeleteRPB_def
  fnChangeDescriptor_def fnDeleteDescriptor_def fnPrepareDescribe_def fnExecute_def
  fnCommit_def fnRollback_def fnClose_def fnFetch_def fnOpenDescribeFetch_def

definition orsReturnData :: "32 word" where "orsReturnData = 0x80000000"
definition orsMessageID :: "32 word" where "orsMessageID = 0x40000000"
definition orsFirstLevelText :: "32 word" where "orsFirstLevelText = 0x20000000"
definition orsDataFormat :: "32 word" where "orsDataFormat = 0x08000000"
definition orsResultData :: "32 word" where "orsResultData = 0x04000000"
definition orsSQLCA :: "32 word" where "orsSQLCA = 0x02000000"
definition orsServerAttributes :: "32 word" where "orsServerAttributes = 0x01000000"
definition orsParameterMarkerFormat :: "32 word" where "orsParameterMarkerFormat = 0x00800000"
definition orsReply :: "32 word" where
  "orsReply = (orsReturnData OR orsMessageID OR orsFirstLevelText)"

lemmas ors_defs = orsReturnData_def orsMessageID_def orsFirstLevelText_def orsDataFormat_def
  orsResultData_def orsSQLCA_def orsServerAttributes_def orsParameterMarkerFormat_def orsReply_def

definition cpMessageID :: "16 word" where "cpMessageID = 0x3801"
definition cpFirstLevelText :: "16 word" where "cpFirstLevelText = 0x3802"
definition cpServerAttributes :: "16 word" where "cpServerAttributes = 0x3804"
definition cpOriginalFormat :: "16 word" where "cpOriginalFormat = 0x3805"
definition cpOriginalData :: "16 word" where "cpOriginalData = 0x3806"
definition cpSQLCA :: "16 word" where "cpSQLCA = 0x3807"
definition cpOriginalParmFormat :: "16 word" where "cpOriginalParmFormat = 0x3808"
definition cpExtendedFormat :: "16 word" where "cpExtendedFormat = 0x380C"
definition cpExtendedParmFormat :: "16 word" where "cpExtendedParmFormat = 0x380D"
definition cpExtendedData :: "16 word" where "cpExtendedData = 0x380E"
definition cpSuperExtFormat :: "16 word" where "cpSuperExtFormat = 0x3812"
definition cpSuperExtParmFormat :: "16 word" where "cpSuperExtParmFormat = 0x3813"
definition cpVariableData :: "16 word" where "cpVariableData = 0x3901"

lemmas cp_defs = cpMessageID_def cpFirstLevelText_def cpServerAttributes_def cpOriginalFormat_def
  cpOriginalData_def cpSQLCA_def cpOriginalParmFormat_def cpExtendedFormat_def
  cpExtendedParmFormat_def cpExtendedData_def cpSuperExtFormat_def cpSuperExtParmFormat_def
  cpVariableData_def

definition errorClassSQL :: "16 word" where "errorClassSQL = 1"
definition errorClassHostServer :: "16 word" where "errorClassHostServer = 2"
definition templateLength :: nat where "templateLength = 20"

section \<open>Requests\<close>

record db_request =
  dq_functionID :: "16 word"
  dq_rpbID :: "16 word"
  dq_ors :: "32 word"
  dq_pmHandle :: "16 word"
  dq_params :: "param list"

definition db_request_for :: "16 word \<Rightarrow> 16 word \<Rightarrow> 32 word \<Rightarrow> db_request" where
  "db_request_for fn rpb ors =
     \<lparr>dq_functionID = fn, dq_rpbID = rpb, dq_ors = ors, dq_pmHandle = 0, dq_params = []\<rparr>"

definition add_param :: "16 word \<Rightarrow> bytes \<Rightarrow> db_request \<Rightarrow> db_request" where
  "add_param cp d r = r\<lparr>dq_params := dq_params r @ [\<lparr>CodePoint = cp, Data = d\<rparr>]\<rparr>"

definition addByte :: "16 word \<Rightarrow> byte \<Rightarrow> db_request \<Rightarrow> db_request" where
  "addByte cp v = add_param cp [v]"

definition addShort :: "16 word \<Rightarrow> 16 word \<Rightarrow> db_request \<Rightarrow> db_request" where
  "addShort cp v = add_param cp (be16 v)"

definition addInt :: "16 word \<Rightarrow> 32 word \<Rightarrow> db_request \<Rightarrow> db_request" where
  "addInt cp v = add_param cp (be32 v)"

definition addText :: "16 word \<Rightarrow> nat \<Rightarrow> bytes \<Rightarrow> db_request \<Rightarrow> db_request" where
  "addText cp ccsid d = add_param cp (be16 (of_nat ccsid) @ be16 (of_nat (length d)) @ d)"

definition addLongText :: "16 word \<Rightarrow> nat \<Rightarrow> bytes \<Rightarrow> db_request \<Rightarrow> db_request" where
  "addLongText cp ccsid d = add_param cp (be16 (of_nat ccsid) @ be32 (of_nat (length d)) @ d)"

definition addName :: "16 word \<Rightarrow> string \<Rightarrow> db_request \<Rightarrow> (ebcdic_error, db_request) res" where
  "addName cp name r = fmap_res (\<lambda>enc. addText cp ccsidEBCDIC37 enc r) (EncodeEBCDIC name)"

lemmas add_defs = add_param_def addByte_def addShort_def addInt_def addText_def addLongText_def

definition db_template :: "db_request \<Rightarrow> bytes" where
  "db_template r =
     be32 (dq_ors r) @ [0, 0, 0, 0] @ be16 (dq_rpbID r) @ be16 (dq_rpbID r) @ [0, 0]
     @ be16 (dq_rpbID r) @ be16 (dq_pmHandle r) @ be16 (of_nat (length (dq_params r)))"

definition db_encode :: "db_request \<Rightarrow> request" where
  "db_encode r =
     \<lparr>rq_ServerID = ServerDatabase, rq_HeaderID = 0, rq_Correlation = 0,
      rq_TemplateLen = of_nat templateLength, rq_ReqRepID = dq_functionID r,
      rq_Body = db_template r @ EncodeParams (dq_params r)\<rparr>"

section \<open>Replies\<close>

record db_reply =
  dr_errorClass :: "16 word"
  dr_returnCode :: int
  dr_messageID :: string
  dr_message :: string
  dr_serverAttributes :: bytes
  dr_sqlca :: bytes
  dr_dataFormat :: "dataFormat option"
  dr_paramFormat :: "dataFormat option"
  dr_resultData :: "resultData option"

datatype reply_error =
    ReplyTooShort "16 word" nat
  | ReplyCompressed "16 word"
  | ReplyParams "16 word" param_error
  | ReplyFormat format_error
  | ReplyVariableLength
  | ReplyUnsupported "16 word"

text \<open>The switch of \<^verbatim>\<open>parseReply\<close> on the code point of one parameter.\<close>

definition reply_param ::
  "ccsid_table \<Rightarrow> bool \<Rightarrow> param \<Rightarrow> db_reply \<Rightarrow> (reply_error, db_reply) res"
where
  "reply_param T vlf p rep =
     (let d = Data p; cp = CodePoint p in
      if cp = cpMessageID then
        (if length d > 2 then
           bind_res (get16 d 0) (\<lambda>c. bind_res (slice_from d 2) (\<lambda>b.
             Ok (rep\<lparr>dr_messageID := decodeServerText T (unat c) b\<rparr>)))
         else Ok rep)
      else if cp = cpFirstLevelText then
        (if length d > 4 then
           bind_res (get16 d 0) (\<lambda>c. bind_res (slice_from d 4) (\<lambda>b.
             Ok (rep\<lparr>dr_message := decodeServerText T (unat c) b\<rparr>)))
         else Ok rep)
      else if cp = cpServerAttributes then
        (if length d > 2 then
           bind_res (slice_from d 2) (\<lambda>b. Ok (rep\<lparr>dr_serverAttributes := b\<rparr>)) else Ok rep)
      else if cp = cpSQLCA then Ok (rep\<lparr>dr_sqlca := d\<rparr>)
      else if cp = cpExtendedFormat then
        (if length d > 0 then
           bind_res (wrap_err ReplyFormat (parseDataFormat T d)) (\<lambda>f. Ok (rep\<lparr>dr_dataFormat := Some f\<rparr>))
         else Ok rep)
      else if cp = cpExtendedParmFormat then
        (if length d > 0 then
           bind_res (wrap_err ReplyFormat (parseDataFormat T d)) (\<lambda>f. Ok (rep\<lparr>dr_paramFormat := Some f\<rparr>))
         else Ok rep)
      else if cp = cpSuperExtFormat then
        (if length d > 0 then
           bind_res (wrap_err ReplyFormat (parseSuperExtendedFormat T d)) (\<lambda>f. Ok (rep\<lparr>dr_dataFormat := Some f\<rparr>))
         else Ok rep)
      else if cp = cpSuperExtParmFormat then
        (if length d > 0 then
           bind_res (wrap_err ReplyFormat (parseSuperExtendedFormat T d)) (\<lambda>f. Ok (rep\<lparr>dr_paramFormat := Some f\<rparr>))
         else Ok rep)
      else if cp = cpExtendedData then
        (if length d > 0 then
           if vlf then Err ReplyVariableLength
           else bind_res (wrap_err ReplyFormat (parseResultData d)) (\<lambda>f. Ok (rep\<lparr>dr_resultData := Some f\<rparr>))
         else Ok rep)
      else if cp \<in> {cpOriginalFormat, cpOriginalParmFormat, cpOriginalData, cpVariableData} then
        (if length d > 0 then Err (ReplyUnsupported cp) else Ok rep)
      else Ok rep)"

fun reply_params ::
  "ccsid_table \<Rightarrow> bool \<Rightarrow> param list \<Rightarrow> db_reply \<Rightarrow> (reply_error, db_reply) res"
where
  "reply_params T vlf [] rep = Ok rep"
| "reply_params T vlf (p # ps) rep = bind_res (reply_param T vlf p rep) (reply_params T vlf ps)"

definition blank_reply :: "16 word \<Rightarrow> int \<Rightarrow> db_reply" where
  "blank_reply cls rc = \<lparr>dr_errorClass = cls, dr_returnCode = rc, dr_messageID = [], dr_message = [],
     dr_serverAttributes = [], dr_sqlca = [], dr_dataFormat = None, dr_paramFormat = None,
     dr_resultData = None\<rparr>"

definition parseReply :: "ccsid_table \<Rightarrow> reply \<Rightarrow> (reply_error, db_reply) res" where
  "parseReply T r =
     (let body = rp_Body r in
      if length body < templateLength then Err (ReplyTooShort (rp_ReqRepID r) (length body))
      else bind_res (get8 body 4) (\<lambda>compression.
        if compression AND 0x80 \<noteq> 0 then Err (ReplyCompressed (rp_ReqRepID r))
        else bind_res (get16 body 0) (\<lambda>flags.
          bind_res (get16 body 14) (\<lambda>cls.
          bind_res (get32 body 16) (\<lambda>rc.
          bind_res (slice_from body templateLength) (\<lambda>b.
          bind_res (wrap_err (ReplyParams (rp_ReqRepID r)) (DecodeParams b)) (\<lambda>params.
          reply_params T (flags AND 1 \<noteq> 0) params (blank_reply cls (sint rc)))))))))"

definition failed :: "db_reply \<Rightarrow> bool" where
  "failed r \<longleftrightarrow> dr_errorClass r \<noteq> 0 \<and> dr_returnCode r < 0"

definition endOfData :: "db_reply \<Rightarrow> bool" where
  "endOfData r \<longleftrightarrow> dr_errorClass r = errorClassSQL \<and> dr_returnCode r = 100
     \<or> dr_errorClass r = errorClassHostServer \<and> (dr_returnCode r = 700 \<or> dr_returnCode r = 701)"

definition cursorClosedByServer :: "db_reply \<Rightarrow> bool" where
  "cursorClosedByServer r \<longleftrightarrow> dr_errorClass r = errorClassHostServer \<and> dr_returnCode r = 700"

definition sqlState :: "ccsid_table \<Rightarrow> db_reply \<Rightarrow> string" where
  "sqlState T r =
     (if length (dr_sqlca r) < 136 then []
      else decodeServerText T ccsidEBCDIC37 (take 5 (drop 131 (dr_sqlca r))))"

definition db_rowCount :: "db_reply \<Rightarrow> int" where
  "db_rowCount r =
     (if length (dr_sqlca r) < 108 then 0
      else (case get32 (dr_sqlca r) 104 :: (unit, 32 word) res of Ok w \<Rightarrow> sint w | _ \<Rightarrow> 0))"

section \<open>Errors\<close>

record server_failure =
  sf_Op :: string
  sf_ErrorClass :: "16 word"
  sf_ReturnCode :: int
  sf_SQLState :: string
  sf_MessageID :: string
  sf_Message :: string

definition newError :: "ccsid_table \<Rightarrow> string \<Rightarrow> db_reply \<Rightarrow> server_failure" where
  "newError T op r =
     \<lparr>sf_Op = op, sf_ErrorClass = dr_errorClass r, sf_ReturnCode = dr_returnCode r,
      sf_SQLState = TrimSpace (sqlState T r), sf_MessageID = TrimSpace (dr_messageID r),
      sf_Message = TrimSpace (dr_message r)\<rparr>"

definition SQLCode :: "server_failure \<Rightarrow> int" where
  "SQLCode e = (if sf_ErrorClass e = errorClassSQL then sf_ReturnCode e else 0)"

definition failure_text :: "server_failure \<Rightarrow> string" where
  "failure_text e =
     ''database: '' @ sf_Op e @ '' failed''
     @ (if sf_MessageID e \<noteq> [] then '': ['' @ sf_MessageID e @ '']'' else [])
     @ (if sf_Message e \<noteq> [] then '' '' @ sf_Message e else [])
     @ (if sf_ErrorClass e = errorClassSQL then '' (SQLCODE '' @ FormatInt (sf_ReturnCode e)
        else '' (error class '' @ FormatInt (int (unat (sf_ErrorClass e))) @ '', return code ''
          @ FormatInt (sf_ReturnCode e))
     @ (if sf_SQLState e \<noteq> [] then '', SQLSTATE '' @ sf_SQLState e else [])
     @ '')''"

section \<open>Lemmas\<close>

lemma reply_param_no_panic [panic_free]: "reply_param T vlf p rep \<noteq> Panic"
  by (auto simp: reply_param_def Let_def bind_res_Panic_iff)

lemma reply_params_no_panic [panic_free]: "reply_params T vlf ps rep \<noteq> Panic"
  by (induction ps arbitrary: rep) (auto simp: bind_res_Panic_iff reply_param_no_panic)

lemma reply_params_append:
  "reply_params T vlf (ps @ qs) rep = bind_res (reply_params T vlf ps rep) (reply_params T vlf qs)"
proof (induction ps arbitrary: rep)
  case (Cons p ps)
  then show ?case by (cases "reply_param T vlf p rep") simp_all
qed simp

lemma parseReply_no_panic [panic_free, simp]: "parseReply T r \<noteq> Panic"
  unfolding parseReply_def Let_def
  by (auto simp: bind_res_Panic_iff templateLength_def reply_params_no_panic DecodeParams_no_panic)

lemma parseReply_Ok_iff:
  "parseReply T r = Ok rep \<longleftrightarrow> (\<exists>compression flags cls rc ps.
     templateLength \<le> length (rp_Body r)
     \<and> get8 (rp_Body r) 4 = (Ok compression :: (reply_error, _) res) \<and> compression AND 0x80 = 0
     \<and> get16 (rp_Body r) 0 = (Ok flags :: (reply_error, _) res)
     \<and> get16 (rp_Body r) 14 = (Ok cls :: (reply_error, _) res)
     \<and> get32 (rp_Body r) 16 = (Ok rc :: (reply_error, _) res)
     \<and> DecodeParams (drop templateLength (rp_Body r)) = Ok ps
     \<and> reply_params T (flags AND 1 \<noteq> 0) ps (blank_reply cls (sint rc)) = Ok rep)"
  by (auto simp: parseReply_def Let_def bind_res_Ok_iff slice_from_def not_less)

text \<open>What a parameter must not carry for the reply to be accepted.\<close>

definition readable_param :: "bool \<Rightarrow> param \<Rightarrow> bool" where
  "readable_param vlf p \<longleftrightarrow> Data p = []
     \<or> CodePoint p \<notin> {cpOriginalFormat, cpOriginalParmFormat, cpOriginalData, cpVariableData}
       \<and> (vlf \<longrightarrow> CodePoint p \<noteq> cpExtendedData)"

lemma reply_param_OkD: "reply_param T vlf p rep = Ok rep' \<Longrightarrow> readable_param vlf p"
  by (auto simp: reply_param_def readable_param_def Let_def cp_defs split: if_splits)

lemma reply_params_OkD: "reply_params T vlf ps rep = Ok rep' \<Longrightarrow> list_all (readable_param vlf) ps"
  by (induction ps arbitrary: rep) (auto simp: bind_res_Ok_iff dest: reply_param_OkD)

text \<open>No parameter changes the error class or the return code of the template.\<close>

lemma reply_param_code:
  "reply_param T vlf p rep = Ok rep' \<Longrightarrow>
   dr_errorClass rep' = dr_errorClass rep \<and> dr_returnCode rep' = dr_returnCode rep"
  by (auto simp: reply_param_def Let_def bind_res_Ok_iff split: if_splits)

lemma reply_params_code:
  "reply_params T vlf ps rep = Ok rep' \<Longrightarrow>
   dr_errorClass rep' = dr_errorClass rep \<and> dr_returnCode rep' = dr_returnCode rep"
  by (induction ps arbitrary: rep) (auto simp: bind_res_Ok_iff dest!: reply_param_code)

section \<open>Specification: the server's side\<close>

text \<open>A server reading a request: the template's fields, then as many parameters as announced.\<close>

definition db_request_of :: "request \<Rightarrow> (param_error, db_request) res" where
  "db_request_of q =
     (let body = rq_Body q in
      bind_res (get32 body 0) (\<lambda>ors. bind_res (get16 body 14) (\<lambda>rpb.
      bind_res (get16 body 16) (\<lambda>pm. bind_res (get16 body 18) (\<lambda>n.
      bind_res (slice_from body (unat (rq_TemplateLen q))) (\<lambda>b. bind_res (DecodeParams b) (\<lambda>ps.
      if length ps = unat n
      then Ok \<lparr>dq_functionID = rq_ReqRepID q, dq_rpbID = rpb, dq_ors = ors, dq_pmHandle = pm, dq_params = ps\<rparr>
      else Err (TruncatedParam 0))))))))"

definition requestable :: "db_request \<Rightarrow> bool" where
  "requestable r \<longleftrightarrow> length (dq_params r) < 2 ^ 16 \<and> list_all param_fits (dq_params r)"

lemma db_request_of_encode: "requestable r \<Longrightarrow> db_request_of (db_encode r) = Ok r"
  unfolding db_request_of_def db_encode_def db_template_def Let_def requestable_def
  by (simp add: wire_simps templateLength_def DecodeParams_encode unat_of_nat16)

text \<open>A server writing a reply: items in any order and number, the parameters they become,
  and what the client is to make of each.\<close>

datatype reply_item =
    MessageIDItem "16 word" bytes
  | MessageItem "16 word" bytes bytes
  | AttributesItem bytes bytes
  | SQLCAItem bytes
  | FormatItem bool bytes bytes nat "server_field list"
  | DataItem resultData
  | EmptyItem "16 word"

fun item_param :: "reply_item \<Rightarrow> param" where
  "item_param (MessageIDItem c b) = \<lparr>CodePoint = cpMessageID, Data = be16 c @ b\<rparr>"
| "item_param (MessageItem c n b) = \<lparr>CodePoint = cpFirstLevelText, Data = be16 c @ n @ b\<rparr>"
| "item_param (AttributesItem h b) = \<lparr>CodePoint = cpServerAttributes, Data = h @ b\<rparr>"
| "item_param (SQLCAItem b) = \<lparr>CodePoint = cpSQLCA, Data = b\<rparr>"
| "item_param (FormatItem parms token res sz ws) =
     \<lparr>CodePoint = (if parms then cpExtendedParmFormat else cpExtendedFormat),
      Data = token @ be32 (of_nat (length ws)) @ res @ be32 (of_nat sz) @ concat (map enc_server_field ws)\<rparr>"
| "item_param (DataItem rd) = \<lparr>CodePoint = cpExtendedData, Data = rd_raw rd\<rparr>"
| "item_param (EmptyItem cp) = \<lparr>CodePoint = cp, Data = []\<rparr>"

fun item_ok :: "reply_item \<Rightarrow> bool" where
  "item_ok (MessageIDItem c b) = (b \<noteq> [])"
| "item_ok (MessageItem c n b) = (length n = 2 \<and> b \<noteq> [])"
| "item_ok (AttributesItem h b) = (length h = 2 \<and> b \<noteq> [])"
| "item_ok (SQLCAItem b) = True"
| "item_ok (FormatItem parms token res sz ws) =
     (list_all server_field_ok ws \<and> length ws < 2 ^ 32 \<and> sz < 2 ^ 32 \<and> length token = 4 \<and> length res = 4)"
| "item_ok (DataItem rd) = (rd_raw rd \<noteq> [] \<and> parseResultData (rd_raw rd) = Ok rd)"
| "item_ok (EmptyItem cp) = (cp \<noteq> cpSQLCA)"

fun take_item :: "ccsid_table \<Rightarrow> reply_item \<Rightarrow> db_reply \<Rightarrow> db_reply" where
  "take_item T (MessageIDItem c b) rep = rep\<lparr>dr_messageID := decodeServerText T (unat c) b\<rparr>"
| "take_item T (MessageItem c n b) rep = rep\<lparr>dr_message := decodeServerText T (unat c) b\<rparr>"
| "take_item T (AttributesItem h b) rep = rep\<lparr>dr_serverAttributes := b\<rparr>"
| "take_item T (SQLCAItem b) rep = rep\<lparr>dr_sqlca := b\<rparr>"
| "take_item T (FormatItem parms token res sz ws) rep =
     (let f = Some \<lparr>df_fields = map (field_of T) ws, df_recordSize = sz\<rparr> in
      if parms then rep\<lparr>dr_paramFormat := f\<rparr> else rep\<lparr>dr_dataFormat := f\<rparr>)"
| "take_item T (DataItem rd) rep = rep\<lparr>dr_resultData := Some rd\<rparr>"
| "take_item T (EmptyItem cp) rep = rep"

definition server_reply :: "bytes \<Rightarrow> 16 word \<Rightarrow> 32 word \<Rightarrow> reply_item list \<Rightarrow> bytes" where
  "server_reply head cls rc items =
     head @ be16 cls @ be32 rc @ EncodeParams (map item_param items)"

text \<open>The first 14 bytes of an uncompressed reply; the others may hold anything.\<close>

definition plain_head :: "bytes \<Rightarrow> bool" where
  "plain_head h \<longleftrightarrow> length h = 14 \<and> h ! 4 AND 0x80 = 0 \<and> u16 (h ! 0) (h ! 1) AND 1 = 0"

lemma reply_param_item:
  assumes "item_ok i"
  shows "reply_param T False (item_param i) rep = Ok (take_item T i rep)"
proof (cases i)
  case (FormatItem parms token res sz ws)
  then have "parseDataFormat T (Data (item_param i))
      = Ok \<lparr>df_fields = map (field_of T) ws, df_recordSize = sz\<rparr>"
    using assms parseDataFormat_append [of ws sz token res T "[]"] by simp
  with FormatItem assms show ?thesis by (auto simp: reply_param_def cp_defs Let_def)
qed (use assms in \<open>auto simp: reply_param_def cp_defs Let_def wire_simps Suc_le_eq\<close>)

lemma reply_params_items:
  "list_all item_ok items \<Longrightarrow>
   reply_params T False (map item_param items) rep = Ok (fold (take_item T) items rep)"
  by (induction items arbitrary: rep) (simp_all add: reply_param_item)

lemma parseReply_server:
  assumes "plain_head head" "list_all item_ok items" "list_all param_fits (map item_param items)"
    and "rp_Body r = server_reply head cls rc items"
  shows "parseReply T r = Ok (fold (take_item T) items (blank_reply cls (sint rc)))"
proof -
  have h: "length head = 14" and z: "head ! 4 AND 0x80 = 0" "u16 (head ! 0) (head ! Suc 0) AND 1 = 0"
    using assms(1) by (simp_all add: plain_head_def)
  let ?d = "server_reply head cls rc items"
  have "get8 ?d 4 = (Ok (head ! 4) :: (reply_error, _) res)"
    "get16 ?d 0 = (Ok (u16 (head ! 0) (head ! Suc 0)) :: (reply_error, _) res)"
    "get16 ?d 14 = (Ok cls :: (reply_error, _) res)" "get32 ?d 16 = (Ok rc :: (reply_error, _) res)"
    "drop templateLength ?d = EncodeParams (map item_param items)"
    "templateLength \<le> length ?d"
    using h by (simp_all add: server_reply_def wire_simps templateLength_def)
      (simp_all add: get8_def get16_def nth_append)
  then show ?thesis
    unfolding parseReply_Ok_iff assms(4)
    using z by (auto simp: DecodeParams_encode [OF assms(3)] reply_params_items [OF assms(2)])
qed

section \<open>Properties\<close>

text \<open>C38. A server that reads the template of an encoded request, and then the announced number
  of parameters, gets the request back: the function, both handles, the bitmap, and the
  parameters in order. The request goes to the database server with a 20-byte template.\<close>

theorem db_request_decodes:
  assumes "length (dq_params r) < 2 ^ 16" "list_all param_fits (dq_params r)"
  shows "db_request_of (db_encode r) = Ok r \<and> rq_ServerID (db_encode r) = ServerDatabase
    \<and> rq_TemplateLen (db_encode r) = 20"
  using assms db_request_of_encode [of r]
  by (simp add: requestable_def db_encode_def templateLength_def)

theorem db_request_decodes_witness:
  "db_request_of (db_encode (addShort 0x3812 2 (addText 0x3807 37 [0xC1] (db_request_for fnExecute 5 orsReply))))
   = Ok \<lparr>dq_functionID = 0x1805, dq_rpbID = 5, dq_ors = 0xE0000000, dq_pmHandle = 0,
         dq_params = [\<lparr>CodePoint = 0x3807, Data = [0, 37, 0, 1, 0xC1]\<rparr>, \<lparr>CodePoint = 0x3812, Data = [0, 2]\<rparr>]\<rparr>"
  by (subst db_request_decodes [THEN conjunct1])
    (simp_all add: add_defs db_request_for_def param_fits_def be16_def ors_defs fn_defs)

text \<open>A reply is read as exactly what the server put into it: whatever items the server
  sends, in any order and repeated or not, each is taken in turn, a later one replacing an
  earlier one of its kind, on top of the error class and the signed return code.\<close>

theorem db_reply_reads_back:
  assumes "plain_head head" "list_all item_ok items" "list_all param_fits (map item_param items)"
    and "rp_Body r = server_reply head cls rc items"
  shows "parseReply T r = Ok (fold (take_item T) items (blank_reply cls (sint rc)))"
  using assms by (rule parseReply_server)

definition sample_reply :: reply where
  "sample_reply = \<lparr>rp_HeaderID = 0, rp_ServerID = ServerDatabase, rp_Correlation = 1, rp_TemplateLen = 20,
     rp_ReqRepID = 0x2800,
     rp_Body = server_reply (replicate 14 0) 1 (- 204) [SQLCAItem [], MessageIDItem 37 [1]]\<rparr>"

theorem db_reply_reads_back_witness:
  "parseReply Map.empty sample_reply = Ok (blank_reply 1 (- 204)) \<and> failed (blank_reply 1 (- 204))"
proof -
  have "plain_head (replicate 14 0)"
    by (simp add: plain_head_def u16_def numeral_eq_Suc)
  from db_reply_reads_back [OF this, of "[SQLCAItem [], MessageIDItem 37 [1]]" sample_reply 1 "- 204" Map.empty]
  show ?thesis
    by (simp add: sample_reply_def param_fits_def blank_reply_def decodeServerText_def decodeString_def
        lookupCCSID_def failed_def ccsidBinary_def)
qed

text \<open>C39. Nothing a server sends makes the reply parser panic, and what the client cannot read
  is an error, never skipped or misread: an accepted reply has its whole template, is not
  compressed, is a sequence of well-formed parameters after the template, carries no data in
  the original or the variable-length formats, and no result data when the reply declares
  variable-length compression; its error class and return code are those of the template.\<close>

theorem parseReply_accepts_only_readable:
  "parseReply T r \<noteq> Panic \<and>
   (\<forall>rep. parseReply T r = Ok rep \<longrightarrow>
      templateLength \<le> length (rp_Body r) \<and> rp_Body r ! 4 AND 0x80 = 0
      \<and> take 6 (drop 14 (rp_Body r)) = be16 (dr_errorClass rep) @ be32 (of_int (dr_returnCode rep))
      \<and> (\<exists>ps. drop templateLength (rp_Body r) = EncodeParams ps
           \<and> list_all (readable_param (u16 (rp_Body r ! 0) (rp_Body r ! 1) AND 1 \<noteq> 0)) ps))"
proof (intro conjI allI impI)
  fix rep
  assume "parseReply T r = Ok rep"
  then obtain compression flags cls rc ps where
      len: "templateLength \<le> length (rp_Body r)"
      and c: "get8 (rp_Body r) 4 = (Ok compression :: (reply_error, _) res)" "compression AND 0x80 = 0"
      and f: "get16 (rp_Body r) 0 = (Ok flags :: (reply_error, _) res)"
      and t: "get16 (rp_Body r) 14 = (Ok cls :: (reply_error, _) res)"
        "get32 (rp_Body r) 16 = (Ok rc :: (reply_error, _) res)"
      and ps: "DecodeParams (drop templateLength (rp_Body r)) = Ok ps"
        "reply_params T (flags AND 1 \<noteq> 0) ps (blank_reply cls (sint rc)) = Ok rep"
    unfolding parseReply_Ok_iff by blast
  show "templateLength \<le> length (rp_Body r)" by (rule len)
  show "rp_Body r ! 4 AND 0x80 = 0" using c by (auto simp: get8_def split: if_splits)
  have code: "dr_errorClass rep = cls" "dr_returnCode rep = sint rc"
    using reply_params_code [OF ps(2)] by (simp_all add: blank_reply_def)
  have "take 6 (drop 14 (rp_Body r)) = take 2 (drop 14 (rp_Body r)) @ take 4 (drop 16 (rp_Body r))"
    using take_add [of 2 4 "drop 14 (rp_Body r)"] by simp
  also have "\<dots> = be16 cls @ be32 rc" using t by (simp add: get16_Ok_iff get32_Ok_iff)
  finally show "take 6 (drop 14 (rp_Body r)) = be16 (dr_errorClass rep) @ be32 (of_int (dr_returnCode rep))"
    by (simp add: code)
  have "flags = u16 (rp_Body r ! 0) (rp_Body r ! 1)" using f by (auto simp: get16_def split: if_splits)
  with ps show "\<exists>ps. drop templateLength (rp_Body r) = EncodeParams ps
      \<and> list_all (readable_param (u16 (rp_Body r ! 0) (rp_Body r ! 1) AND 1 \<noteq> 0)) ps"
    using DecodeParams_OkD reply_params_OkD by blast
qed simp

theorem parseReply_accepts_only_readable_witness:
  "\<exists>ps. drop templateLength (rp_Body sample_reply) = EncodeParams ps \<and> list_all (readable_param False) ps"
proof -
  have h: "plain_head (replicate 14 0)" and z: "u16 0 0 = 0"
    by (simp_all add: plain_head_def u16_def numeral_eq_Suc)
  have "parseReply Map.empty sample_reply
      = Ok (fold (take_item Map.empty) [SQLCAItem [], MessageIDItem 37 [1]] (blank_reply 1 (sint (- 204 :: 32 word))))"
    by (rule parseReply_server [OF h]) (simp_all add: sample_reply_def param_fits_def)
  then obtain ps where ps: "drop templateLength (rp_Body sample_reply) = EncodeParams ps"
      "list_all (readable_param (u16 (rp_Body sample_reply ! 0) (rp_Body sample_reply ! 1) AND 1 \<noteq> 0)) ps"
    using parseReply_accepts_only_readable [of Map.empty sample_reply] by blast
  have "rp_Body sample_reply ! 0 = 0" "rp_Body sample_reply ! 1 = 0"
    by (simp_all add: sample_reply_def server_reply_def nth_append)
  with ps(2) have "list_all (readable_param False) ps" by (simp add: z)
  with ps(1) show ?thesis by blast
qed

end
