(* ===== verification/DbDecimal.thy ===== *)
theory DbDecimal
  imports GoStrings
begin

text \<open>
  The decimal part of \<^verbatim>\<open>database/value.go\<close>: packed and zoned decimal fields, and the
  conversions between decimal text and digit strings with an implied scale.
\<close>

datatype decimal_error =
    DecimalLength nat nat nat nat
  | DecimalDigit nat
  | NotDecimal string
  | TooManyFractionalDigits string nat
  | DecimalDoesNotFit string nat nat
  | DecimalFieldSize nat nat

section \<open>Text with an implied scale\<close>

text \<open>The loop that prepends zeros while there are at most \<open>scale\<close> digits.\<close>

function pad_digits :: "string \<Rightarrow> nat \<Rightarrow> string" where
  "pad_digits ds scale = (if length ds \<le> scale then pad_digits (CHR ''0'' # ds) scale else ds)"
  by pat_completeness auto
termination
  by (relation "measure (\<lambda>(ds, scale). Suc scale - length ds)") auto

declare pad_digits.simps [simp del]

definition scaleDigits :: "string \<Rightarrow> nat \<Rightarrow> string" where
  "scaleDigits digits0 scale =
     (let (sign, digits1) = (if HasPrefix digits0 ''-'' then (''-'', drop 1 digits0) else ([], digits0));
          digits = pad_digits digits1 scale;
          intPart0 = TrimLeft (take (length digits - scale) digits) ''0'';
          intPart = (if intPart0 = [] then ''0'' else intPart0)
      in if scale = 0 then sign @ intPart
         else sign @ intPart @ ''.'' @ drop (length digits - scale) digits)"

definition formatDecimal :: "string \<Rightarrow> nat \<Rightarrow> bool \<Rightarrow> string" where
  "formatDecimal digits scale negative =
     (let s = scaleDigits digits scale in
      if negative \<and> Trim s ''0.'' \<noteq> [] then ''-'' @ s else s)"

text \<open>
  The check \<^verbatim>\<open>c < '0' || c > '9'\<close> runs over the characters of both parts; the sign rule of the
  last lines drops the sign of zero.
\<close>

definition digit_runes :: "string \<Rightarrow> bool" where
  "digit_runes s \<longleftrightarrow> list_all (\<lambda>r. 48 \<le> r \<and> r \<le> 57) (runes s)"

definition scaleToDigits :: "string \<Rightarrow> nat \<Rightarrow> nat \<Rightarrow> (decimal_error, string \<times> bool) res" where
  "scaleToDigits orig precision scale =
     (case split_sign orig of (negative, s) \<Rightarrow>
      case Cut CHR ''.'' s of (intPart0, fracPart0) \<Rightarrow>
        if intPart0 = [] \<and> fracPart0 = [] then Err (NotDecimal orig)
        else if \<not> digit_runes intPart0 \<or> \<not> digit_runes fracPart0 then Err (NotDecimal orig)
        else if length fracPart0 > scale \<and> Trim (drop scale fracPart0) ''0'' \<noteq> []
        then Err (TooManyFractionalDigits orig scale)
        else
          let fracPart1 = (if length fracPart0 > scale then take scale fracPart0 else fracPart0);
              fracPart = fracPart1 @ replicate (scale - length fracPart1) CHR ''0'';
              intPart = TrimLeft intPart0 ''0''
          in if int (length intPart) > int precision - int scale
             then Err (DecimalDoesNotFit orig precision scale)
             else
               let digits = replicate (precision - scale - length intPart) CHR ''0'' @ intPart @ fracPart
               in Ok (digits, if Trim digits ''0'' = [] then False else negative))"

section \<open>Packed decimal\<close>

fun packed_digits :: "bytes \<Rightarrow> (decimal_error, string) res" where
  "packed_digits [] = Ok []"
| "packed_digits (c # cs) =
     (let hi = unat (drop_bit 4 c); lo = unat (c AND 0x0F) in
      if hi > 9 then Err (DecimalDigit hi)
      else if cs = [] then Ok [digit_char hi]
      else if lo > 9 then Err (DecimalDigit lo)
      else fmap_res (\<lambda>ds. digit_char hi # digit_char lo # ds) (packed_digits cs))"

definition decodePacked :: "bytes \<Rightarrow> nat \<Rightarrow> nat \<Rightarrow> (decimal_error, string) res" where
  "decodePacked b precision scale =
     (if length b \<noteq> precision div 2 + 1
      then Err (DecimalLength precision scale (length b) (precision div 2 + 1))
      else bind_res (packed_digits b) (\<lambda>digits.
        bind_res (get8 b (length b - 1)) (\<lambda>l.
        let negative = (l AND 0x0F = 0x0B \<or> l AND 0x0F = 0x0D)
        in Ok (formatDecimal digits scale negative))))"

definition digit_nibble :: "char \<Rightarrow> byte" where
  "digit_nibble c = byte_of_char c - 48"

text \<open>\<open>out\<close> is a fresh field of \<open>n\<close> bytes.\<close>

definition encodePacked :: "nat \<Rightarrow> string \<Rightarrow> bool \<Rightarrow> (decimal_error, bytes) res" where
  "encodePacked n digits0 negative =
     (if n \<noteq> length digits0 div 2 + 1 then Err (DecimalFieldSize n (length digits0))
      else
        let digits = (if even (length digits0) then CHR ''0'' # digits0 else digits0);
            nibbles = map digit_nibble digits @ [if negative then 0x0D else 0x0F]
        in Ok (map (\<lambda>i. push_bit 4 (nibbles ! (2 * i)) OR nibbles ! (2 * i + 1)) [0..<n]))"

section \<open>Zoned decimal\<close>

fun zoned_digits :: "bytes \<Rightarrow> (decimal_error, string) res" where
  "zoned_digits [] = Ok []"
| "zoned_digits (c # cs) =
     (let d = unat (c AND 0x0F) in
      if d > 9 then Err (DecimalDigit (unat c))
      else fmap_res ((#) (digit_char d)) (zoned_digits cs))"

definition decodeZoned :: "bytes \<Rightarrow> nat \<Rightarrow> nat \<Rightarrow> (decimal_error, string) res" where
  "decodeZoned b precision scale =
     (if length b \<noteq> precision then Err (DecimalLength precision scale (length b) precision)
      else bind_res (zoned_digits b) (\<lambda>digits.
        bind_res (get8 b (length b - 1)) (\<lambda>l.
        let zone = drop_bit 4 l
        in Ok (formatDecimal digits scale (zone = 0x0B \<or> zone = 0x0D)))))"

definition encodeZoned :: "nat \<Rightarrow> string \<Rightarrow> bool \<Rightarrow> (decimal_error, bytes) res" where
  "encodeZoned n digits negative =
     (if n \<noteq> length digits then Err (DecimalFieldSize n (length digits))
      else
        let out = map (\<lambda>c. 0xF0 OR digit_nibble c) digits
        in if negative
           then bind_res (get8 out (length out - 1)) (\<lambda>l. Ok (out[length out - 1 := 0xD0 OR (l AND 0x0F)]))
           else Ok out)"

section \<open>Specification: the value of decimal text\<close>

text \<open>
  The number a decimal text denotes: all its digits as an integer, and how many of them
  follow the point, so that \<open>(n, k)\<close> stands for \<open>n / 10 ^ k\<close>.
\<close>

definition decimal_of :: "string \<Rightarrow> (int \<times> nat) option" where
  "decimal_of s =
     (case split_sign s of (neg, u) \<Rightarrow>
      case Cut CHR ''.'' u of (i, f) \<Rightarrow>
        if i @ f = [] \<or> \<not> list_all is_digit (i @ f) then None
        else Some ((if neg then - 1 else 1) * int (digits_val (i @ f)), length f))"

section \<open>Lemmas: digit strings\<close>

lemma decode_rune_ascii: "bs \<noteq> [] \<Longrightarrow> fst (decode_rune bs) < 0x80 \<Longrightarrow> hd bs < 0x80"
proof (cases bs)
  case (Cons b t)
  assume "fst (decode_rune bs) < 0x80"
  moreover have "0x80 \<le> fst (decode2 b t)" if "0xC2 \<le> b"
    using that by (cases "(b, t)" rule: decode2.cases) (auto simp: RuneError_def cont_byte_def)
  moreover have "0x80 \<le> fst (decode3 b t)" if "0xE0 \<le> b"
    using that by (cases "(b, t)" rule: decode3.cases) (auto simp: RuneError_def cont_byte_def)
  moreover have "0x80 \<le> fst (decode4 b t)" if "0xF0 \<le> b"
    using that by (cases "(b, t)" rule: decode4.cases) (auto simp: RuneError_def cont_byte_def)
  ultimately show ?thesis using Cons by (auto simp: RuneError_def split: if_splits)
qed simp

lemma digit_runes_iff: "digit_runes s \<longleftrightarrow> list_all is_digit s"
proof
  show "digit_runes s \<Longrightarrow> list_all is_digit s"
  proof (induction s)
    case (Cons c s)
    obtain r w where rw: "decode_rune (map of_char (c # s)) = (r, w)" by fastforce
    then have "runes (c # s) = r # decode_runes (drop w (map of_char (c # s)))"
      by (simp add: runes_def decode_runes.simps [of "of_char c # map of_char s"])
    then have "48 \<le> r" "r \<le> 57" using Cons.prems by (simp_all add: digit_runes_def)
    then have "(of_char c :: nat) < 0x80" using decode_rune_ascii [of "map of_char (c # s)"] rw by simp
    then have "runes (c # s) = of_char c # runes s" by (rule runes_ascii_Cons)
    with Cons show ?case by (simp add: digit_runes_def is_digit_def)
  qed simp
  assume "list_all is_digit s"
  then show "digit_runes s"
  proof (induction s)
    case (Cons c s)
    then show ?case by (simp add: digit_runes_def is_digit_def runes_ascii_Cons)
  qed (simp add: digit_runes_def)
qed

lemma pad_digits_eq: "pad_digits ds scale = replicate (Suc scale - length ds) CHR ''0'' @ ds"
proof (induction ds scale rule: pad_digits.induct)
  case (1 ds scale)
  show ?case
  proof (cases "length ds \<le> scale")
    case True
    then have "Suc scale - length ds = Suc (scale - length ds)" by simp
    with 1 True show ?thesis by (subst pad_digits.simps) (simp add: replicate_append_same)
  qed (simp add: pad_digits.simps [of ds])
qed

lemma zero_is_digit [simp]: "is_digit CHR ''0''"
  by (simp add: is_digit_def)

lemma point_no_digit [simp]: "\<not> is_digit CHR ''.''"
  by (simp add: is_digit_def)

lemma trim_right_Nil_iff: "trim_right p xs = [] \<longleftrightarrow> (\<forall>x \<in> set xs. p x)"
  by (simp add: trim_right_def)

lemma trim_both_Nil_iff: "trim_both p xs = [] \<longleftrightarrow> (\<forall>x \<in> set xs. p x)"
proof (cases "dropWhile p xs")
  case (Cons y ys)
  then have "\<not> p y" "y \<in> set xs"
    by (auto simp: dropWhile_eq_Cons_conv) (metis in_set_conv_decomp set_takeWhileD takeWhile_dropWhile_id)
  then show ?thesis by (auto simp: trim_both_def trim_right_Nil_iff Cons)
qed (auto simp: trim_both_def trim_right_Nil_iff dropWhile_eq_Nil_conv dest: set_dropWhileD)

lemma Trim_Nil_iff: "Trim s cs = [] \<longleftrightarrow> set s \<subseteq> set cs"
  by (auto simp: Trim_def trim_both_Nil_iff)

lemma digit_char_0 [simp]: "digit_char 0 = CHR ''0''"
proof -
  have "(48 :: nat) = of_char CHR ''0''" by simp
  then show ?thesis unfolding digit_char_def by (simp only: add_0_right char_of_char)
qed

lemma digits_val_0_iff: "list_all is_digit s \<Longrightarrow> digits_val s = 0 \<longleftrightarrow> set s \<subseteq> {CHR ''0''}"
proof (induction s)
  case (Cons c s)
  have "digit_val c = 0 \<longleftrightarrow> c = CHR ''0''"
  proof
    assume "digit_val c = 0"
    then have "digit_char (digit_val c) = CHR ''0''" by simp
    then show "c = CHR ''0''" using Cons.prems by simp
  qed (simp add: digit_val_def)
  with Cons show ?case by (auto simp: digits_val_Cons)
qed simp

lemma Cut_digits: "list_all is_digit i \<Longrightarrow> Cut CHR ''.'' (i @ CHR ''.'' # f) = (i, f)"
  by (induction i) auto

lemma Cut_digits_only: "list_all is_digit i \<Longrightarrow> Cut CHR ''.'' i = (i, [])"
  by (induction i) auto

lemma split_sign_digits': "i \<noteq> [] \<Longrightarrow> list_all is_digit i \<Longrightarrow> split_sign (i @ r) = (False, i @ r)"
  by (cases i) (auto simp: split_sign_def HasPrefix_def dest: digit_not_sign)

lemma TrimLeft_digits: "list_all is_digit s \<Longrightarrow> list_all is_digit (TrimLeft s cs)"
  unfolding TrimLeft_def list_all_iff by (auto dest: set_dropWhileD)

section \<open>Lemmas: decimal text\<close>

text \<open>The parts of the text that \<^verbatim>\<open>scaleDigits\<close> produces from digits.\<close>

lemma scaleDigits_parts:
  assumes "list_all is_digit ds"
  obtains i f where "scaleDigits ds scale = i @ (if scale = 0 then [] else CHR ''.'' # f)"
    "scaleDigits (CHR ''-'' # ds) scale = CHR ''-'' # scaleDigits ds scale"
    "list_all is_digit (i @ f)" "i \<noteq> []" "length f = scale" "digits_val (i @ f) = digits_val ds"
    "i = ''0'' \<or> hd i \<noteq> CHR ''0''"
proof -
  let ?p = "pad_digits ds scale"
  let ?t = "take (length ?p - scale) ?p" and ?f = "drop (length ?p - scale) ?p"
  let ?i = "if TrimLeft ?t ''0'' = [] then ''0'' else TrimLeft ?t ''0''"
  have p: "list_all is_digit ?p" "scale < length ?p" "digits_val ?p = digits_val ds"
    using assms by (auto simp: pad_digits_eq digits_val_append list_all_iff)
  have d: "list_all is_digit (TrimLeft ?t ''0'')" "list_all is_digit ?f"
    using p(1) TrimLeft_digits [of ?t "''0''"]
    by (auto simp: list_all_iff dest: in_set_takeD in_set_dropD)
  have v: "digits_val ?i = digits_val ?t"
    by (cases "TrimLeft ?t ''0'' = []")
      (simp_all add: digit_val_def del: digits_val_TrimLeft flip: digits_val_TrimLeft [of ?t])
  have "digits_val (?i @ ?f) = digits_val (?t @ ?f)"
    unfolding digits_val_append v by simp
  then have "digits_val (?i @ ?f) = digits_val ds" using p(3) by simp
  moreover have "\<not> HasPrefix ds ''-''"
    using assms by (cases ds) (auto simp: HasPrefix_def dest: digit_not_sign)
  then have "scaleDigits ds scale = ?i @ (if scale = 0 then [] else CHR ''.'' # ?f)"
    "scaleDigits (CHR ''-'' # ds) scale = CHR ''-'' # scaleDigits ds scale"
    by (simp_all add: scaleDigits_def Let_def HasPrefix_def)
  moreover have "hd (TrimLeft ?t ''0'') \<noteq> CHR ''0''" if "TrimLeft ?t ''0'' \<noteq> []"
    using that hd_dropWhile [of "\<lambda>c. c \<in> set ''0''" ?t] unfolding TrimLeft_def by simp
  then have "?i = ''0'' \<or> hd ?i \<noteq> CHR ''0''" by (cases "TrimLeft ?t ''0'' = []") simp_all
  moreover have "list_all is_digit (?i @ ?f)" using d by simp
  moreover have "?i \<noteq> []" "length ?f = scale" using p(2) by simp_all
  ultimately show thesis by (intro that) assumption+
qed

lemma decimal_of_scaleDigits:
  assumes "list_all is_digit ds"
  shows "decimal_of (scaleDigits ds scale) = Some (int (digits_val ds), scale)"
    and "decimal_of (CHR ''-'' # scaleDigits ds scale) = Some (- int (digits_val ds), scale)"
proof -
  obtain i f where p: "scaleDigits ds scale = i @ (if scale = 0 then [] else CHR ''.'' # f)"
    "list_all is_digit (i @ f)" "i \<noteq> []" "length f = scale" "digits_val (i @ f) = digits_val ds"
    by (rule scaleDigits_parts [OF assms, of scale])
  have "Cut CHR ''.'' (scaleDigits ds scale) = (i, f)"
    using p by (auto simp: Cut_digits Cut_digits_only)
  moreover have "split_sign (scaleDigits ds scale) = (False, scaleDigits ds scale)"
    unfolding p(1) using p(2,3) by (intro split_sign_digits') simp_all
  ultimately show "decimal_of (scaleDigits ds scale) = Some (int (digits_val ds), scale)"
    "decimal_of (CHR ''-'' # scaleDigits ds scale) = Some (- int (digits_val ds), scale)"
    using p by (simp_all add: decimal_of_def)
qed

lemma Trim_scaleDigits:
  assumes "list_all is_digit ds"
  shows "Trim (scaleDigits ds scale) ''0.'' = [] \<longleftrightarrow> digits_val ds = 0"
proof -
  obtain i f where p: "scaleDigits ds scale = i @ (if scale = 0 then [] else CHR ''.'' # f)"
    "list_all is_digit (i @ f)" "length f = scale" "digits_val (i @ f) = digits_val ds"
    by (rule scaleDigits_parts [OF assms, of scale])
  have "CHR ''.'' \<notin> set (i @ f)" using p(2) point_no_digit unfolding list_all_iff by blast
  moreover have "set (i @ f) \<subseteq> {CHR ''0''} \<longleftrightarrow> digits_val ds = 0"
    using digits_val_0_iff [OF p(2)] p(4) by simp
  ultimately show ?thesis unfolding Trim_Nil_iff p(1) using p(3) by auto
qed

lemma decimal_of_formatDecimal:
  assumes "list_all is_digit ds"
  shows "decimal_of (formatDecimal ds scale negative)
    = Some ((if negative then - 1 else 1) * int (digits_val ds), scale)"
  using decimal_of_scaleDigits [OF assms, of scale] Trim_scaleDigits [OF assms, of scale]
  by (auto simp: formatDecimal_def Let_def)

section \<open>Lemmas: packed and zoned fields\<close>

lemma nibble_bits: "m < 10 \<Longrightarrow> m \<in> {0, 1, 2, 3, 4, 5, 6, 7, 8, 9 :: nat}"
  by auto

lemma digit_nibble_val: "is_digit c \<Longrightarrow> digit_nibble c = of_nat (digit_val c)"
proof -
  assume "is_digit c"
  then have "48 \<le> (of_char c :: nat)" by (simp add: is_digit_def)
  then show ?thesis
    by (simp add: digit_nibble_def digit_val_def byte_of_char_def of_nat_diff)
qed

lemma packed_byte:
  assumes "a < 16" "b < 16"
  shows "unat (drop_bit 4 (push_bit 4 (of_nat a) OR of_nat b :: byte)) = a"
    and "(push_bit 4 (of_nat a) OR of_nat b :: byte) AND 0x0F = of_nat b"
proof -
  have "take_bit 4 a = a" "take_bit 4 b = b"
    using assms by (simp_all add: take_bit_nat_eq_self)
  then have bits: "bit a n \<Longrightarrow> n < 4" "bit b n \<Longrightarrow> n < 4" for n
    by (metis bit_take_bit_iff)+
  have m: "(0x0F :: byte) = mask 4" by (simp add: mask_eq_exp_minus_1)
  have "drop_bit 4 (push_bit 4 (of_nat a) OR of_nat b :: byte) = of_nat a"
    by (intro bit_word_eqI) (auto simp: bit_simps dest: bits)
  then show "unat (drop_bit 4 (push_bit 4 (of_nat a) OR of_nat b :: byte)) = a"
    using assms by (simp add: unat_of_nat take_bit_nat_eq_self)
  show "(push_bit 4 (of_nat a) OR of_nat b :: byte) AND 0x0F = of_nat b"
    unfolding m by (intro bit_word_eqI) (auto simp: bit_simps dest: bits)
qed

text \<open>Pairing nibbles by index is pairing them from the front.\<close>

fun pair_up :: "byte list \<Rightarrow> bytes" where
  "pair_up (a # b # ns) = (push_bit 4 a OR b) # pair_up ns"
| "pair_up ns = []"

lemma pair_up_index:
  "map (\<lambda>i. push_bit 4 (ns ! (2 * i)) OR ns ! (2 * i + 1)) [0..<length ns div 2] = pair_up ns"
proof (induction ns rule: pair_up.induct)
  case (1 a b ns)
  have "[0..<Suc (length ns div 2)] = 0 # map Suc [0..<length ns div 2]"
    by (simp add: upt_conv_Cons map_Suc_upt del: upt_Suc)
  with 1 show ?case by (simp del: upt_Suc add: comp_def)
qed simp_all

lemma packed_digits_pair_up:
  assumes "list_all is_digit ds" "odd (length ds)" "s < 16"
  shows "packed_digits (pair_up (map digit_nibble ds @ [of_nat s])) = Ok ds
    \<and> pair_up (map digit_nibble ds @ [of_nat s]) \<noteq> []
    \<and> last (pair_up (map digit_nibble ds @ [of_nat s])) AND 0x0F = of_nat s"
  using assms(1,2)
proof (induction ds rule: induct_list012)
  case (2 c)
  have c: "digit_nibble c = of_nat (digit_val c)" "digit_val c \<le> 9" "digit_val c < 16"
    using 2 digit_val_less [of c] by (simp_all add: digit_nibble_val del: digit_val_less)
  show ?case
    using packed_byte [OF c(3) assms(3)] c 2 by (simp add: Let_def)
next
  case (3 c d ds)
  have c: "digit_nibble c = of_nat (digit_val c)" "digit_val c \<le> 9" "digit_val c < 16"
    and d: "digit_nibble d = of_nat (digit_val d)" "digit_val d \<le> 9" "digit_val d < 16"
    using 3 digit_val_less [of c] digit_val_less [of d]
    by (simp_all add: digit_nibble_val del: digit_val_less)
  have "unat (of_nat (digit_val d) :: byte) = digit_val d"
    using d by (simp add: unat_of_nat take_bit_nat_eq_self)
  then show ?case
    using packed_byte [OF c(3) d(3)] c d 3 by (simp add: Let_def)
qed simp

lemma packed_round_trip:
  assumes "list_all is_digit ds"
  shows "\<exists>b. encodePacked (length ds div 2 + 1) ds negative = Ok b \<and> length b = length ds div 2 + 1
    \<and> decodePacked b (length ds) scale
        = Ok (formatDecimal (if even (length ds) then CHR ''0'' # ds else ds) scale negative)"
proof -
  let ?ds = "if even (length ds) then CHR ''0'' # ds else ds"
  let ?s = "if negative then 0x0D else 0x0F :: nat"
  let ?ns = "map digit_nibble ?ds @ [of_nat ?s]"
  have "length ?ns div 2 = length ds div 2 + 1" by auto
  then have b: "encodePacked (length ds div 2 + 1) ds negative = Ok (pair_up ?ns)"
    using pair_up_index [of ?ns] by (auto simp: encodePacked_def Let_def)
  have len: "length (pair_up ?ns) = length ds div 2 + 1"
    using arg_cong [OF pair_up_index [of ?ns], of length] \<open>length ?ns div 2 = _\<close>
    by (simp only: length_map length_upt diff_zero)
  have "list_all is_digit ?ds" "odd (length ?ds)" "?s < 16" using assms by simp_all
  note r = packed_digits_pair_up [OF this]
  have "get8 (pair_up ?ns) (length (pair_up ?ns) - 1) = (Ok (last (pair_up ?ns)) :: (decimal_error, _) res)"
    using r by (simp add: get8_def last_conv_nth)
  then have "decodePacked (pair_up ?ns) (length ds) scale = Ok (formatDecimal ?ds scale negative)"
    using r by (simp add: decodePacked_def len Let_def)
  with b len show ?thesis by blast
qed

lemma zoned_byte:
  assumes "a < 16"
  shows "(0xF0 OR of_nat a :: byte) AND 0x0F = of_nat a" "(0xD0 OR of_nat a :: byte) AND 0x0F = of_nat a"
    "drop_bit 4 (0xF0 OR of_nat a :: byte) = 0x0F" "drop_bit 4 (0xD0 OR of_nat a :: byte) = 0x0D"
proof -
  have "a \<in> {0, 1, 2, 3, 4, 5, 6, 7, 8, 9, 10, 11, 12, 13, 14, 15}"
    using assms unfolding insert_iff empty_iff by presburger
  then show "(0xF0 OR of_nat a :: byte) AND 0x0F = of_nat a" "(0xD0 OR of_nat a :: byte) AND 0x0F = of_nat a"
    "drop_bit 4 (0xF0 OR of_nat a :: byte) = 0x0F" "drop_bit 4 (0xD0 OR of_nat a :: byte) = 0x0D"
    by auto
qed

lemma zoned_digits_append:
  "zoned_digits (b @ c) = bind_res (zoned_digits b) (\<lambda>x. fmap_res ((@) x) (zoned_digits c))"
proof (induction b)
  case Nil
  then show ?case by (cases "zoned_digits c") simp_all
next
  case (Cons a b)
  then show ?case by (cases "zoned_digits b"; cases "zoned_digits c") (simp_all add: Let_def)
qed

lemma zoned_digits_encode:
  "list_all is_digit ds \<Longrightarrow> zoned_digits (map (\<lambda>c. 0xF0 OR digit_nibble c) ds) = Ok ds"
proof (induction ds)
  case (Cons c ds)
  have c: "digit_nibble c = of_nat (digit_val c)" "digit_val c \<le> 9" "digit_val c < 16"
    using Cons.prems digit_val_less [of c] by (simp_all add: digit_nibble_val del: digit_val_less)
  then have "unat (of_nat (digit_val c) :: byte) = digit_val c"
    by (simp add: unat_of_nat take_bit_nat_eq_self)
  with c Cons show ?case by (simp add: zoned_byte Let_def)
qed simp

lemma zoned_round_trip:
  assumes "list_all is_digit ds" "ds \<noteq> []"
  shows "\<exists>b. encodeZoned (length ds) ds negative = Ok b \<and> length b = length ds
    \<and> decodeZoned b (length ds) scale = Ok (formatDecimal ds scale negative)"
proof -
  obtain es c where ds: "ds = es @ [c]" using assms(2) by (cases ds rule: rev_cases) auto
  have c: "digit_nibble c = of_nat (digit_val c)" "digit_val c \<le> 9" "digit_val c < 16" "is_digit c"
    using assms(1) digit_val_less [of c] by (simp_all add: ds digit_nibble_val del: digit_val_less)
  then have u: "unat (of_nat (digit_val c) :: byte) = digit_val c"
    by (simp add: unat_of_nat take_bit_nat_eq_self)
  let ?z = "if negative then 0xD0 else 0xF0 :: byte"
  let ?b = "map (\<lambda>c. 0xF0 OR digit_nibble c) es @ [?z OR digit_nibble c]"
  have "encodeZoned (length ds) ds negative = Ok ?b"
    using c by (simp add: encodeZoned_def ds get8_def nth_append list_update_append zoned_byte Let_def)
  moreover have "zoned_digits ?b = Ok ds"
    unfolding zoned_digits_append using zoned_digits_encode [of es] assms(1) c u
    by (simp add: ds zoned_byte Let_def)
  moreover have "drop_bit 4 (?z OR digit_nibble c) = (if negative then 0x0D else 0x0F)"
    using zoned_byte(3,4) [OF c(3)] c(1) by simp
  ultimately show ?thesis
    by (intro exI [of _ ?b]) (auto simp: decodeZoned_def ds get8_def nth_append Let_def)
qed

section \<open>Lemmas: which decimals are accepted\<close>

lemma drop_zeros_val:
  assumes "list_all is_digit f" "scale \<le> length f"
  shows "set (drop scale f) \<subseteq> {CHR ''0''}
    \<longleftrightarrow> digits_val f = digits_val (take scale f) * 10 ^ (length f - scale)"
proof -
  have "list_all is_digit (drop scale f)"
    using assms(1) by (auto simp: list_all_iff dest: in_set_dropD)
  then show ?thesis
    using digits_val_append [of "take scale f" "drop scale f"] digits_val_0_iff [of "drop scale f"] by simp
qed

lemma digits_val_less_iff:
  assumes "list_all is_digit s" "hd s \<noteq> CHR ''0''"
  shows "s \<noteq> [] \<Longrightarrow> digits_val s < 10 ^ n \<longleftrightarrow> length s \<le> n"
proof -
  assume "s \<noteq> []"
  then obtain c t where s: "s = c # t" by (cases s) auto
  have "digit_val c \<noteq> 0"
    using assms digits_val_0_iff [of "[c]"] by (simp add: s)
  then have "10 ^ length t \<le> digits_val s"
    by (simp add: s digits_val_Cons trans_le_add1)
  then have "length s \<le> n" if "digits_val s < 10 ^ n"
    using le_less_trans [OF \<open>10 ^ length t \<le> digits_val s\<close> that]
      power_less_imp_less_exp [of "10 :: nat" "length t" n] by (simp add: s)
  moreover have "digits_val s < 10 ^ n" if "length s \<le> n"
    using less_le_trans [OF digits_val_less [OF assms(1)] power_increasing [of "length s" n "10 :: nat"]] that
    by simp
  ultimately show ?thesis by blast
qed

lemma TrimLeft_length_iff:
  assumes "list_all is_digit s"
  shows "length (TrimLeft s ''0'') \<le> n \<longleftrightarrow> digits_val s < 10 ^ n"
proof (cases "TrimLeft s ''0'' = []")
  case True
  then have "digits_val s = 0" using digits_val_TrimLeft [of s] by simp
  with True show ?thesis by simp
next
  case False
  then have "hd (TrimLeft s ''0'') \<noteq> CHR ''0''"
    unfolding TrimLeft_def using hd_dropWhile [of "\<lambda>c. c \<in> set ''0''" s] by simp
  from digits_val_less_iff [OF TrimLeft_digits [OF assms] this False] show ?thesis by simp
qed

text \<open>The fraction brought to exactly \<open>scale\<close> digits: the value times a power of ten.\<close>

definition fraction_to :: "nat \<Rightarrow> string \<Rightarrow> string" where
  "fraction_to scale f =
     (let f1 = (if length f > scale then take scale f else f) in f1 @ replicate (scale - length f1) CHR ''0'')"

lemma length_fraction_to [simp]: "length (fraction_to scale f) = scale"
  by (simp add: fraction_to_def Let_def)

lemma fraction_to_digits: "list_all is_digit f \<Longrightarrow> list_all is_digit (fraction_to scale f)"
  by (auto simp: fraction_to_def list_all_iff Let_def dest: in_set_takeD)

lemma fraction_to_val:
  assumes "list_all is_digit (i @ f)" "length f > scale \<Longrightarrow> set (drop scale f) \<subseteq> {CHR ''0''}"
  shows "digits_val (i @ fraction_to scale f) * 10 ^ length f = digits_val (i @ f) * 10 ^ scale"
proof (cases "length f > scale")
  case True
  then have "digits_val f = digits_val (take scale f) * 10 ^ (length f - scale)"
    using drop_zeros_val [of f scale] assms by simp
  moreover have "(10 :: nat) ^ length f = 10 ^ scale * 10 ^ (length f - scale)"
    using True by (simp flip: power_add)
  ultimately show ?thesis
    using True by (simp add: fraction_to_def digits_val_append algebra_simps)
next
  case False
  then have "(10 :: nat) ^ scale = 10 ^ length f * 10 ^ (scale - length f)"
    by (simp flip: power_add)
  with False show ?thesis by (simp add: fraction_to_def digits_val_append algebra_simps)
qed

text \<open>A non-zero digit beyond the scale has no exact representation.\<close>

lemma fraction_not_exact:
  assumes "list_all is_digit (i @ f)" "length f > scale" "\<not> set (drop scale f) \<subseteq> {CHR ''0''}"
  shows "m * 10 ^ length f \<noteq> digits_val (i @ f) * 10 ^ scale"
proof
  assume eq: "m * 10 ^ length f = digits_val (i @ f) * 10 ^ scale"
  let ?k = "length f - scale" and ?r = "drop scale f"
  have r: "list_all is_digit ?r" using assms(1) by (auto simp: list_all_iff dest: in_set_dropD)
  have "(10 :: nat) ^ length f = 10 ^ ?k * 10 ^ scale" using assms(2) by (simp flip: power_add)
  with eq have "m * 10 ^ ?k = digits_val (i @ f)" by simp
  also have "\<dots> = digits_val (i @ take scale f) * 10 ^ ?k + digits_val ?r"
    using digits_val_append [of "i @ take scale f" ?r] by simp
  finally have "10 ^ ?k dvd digits_val (i @ take scale f) * 10 ^ ?k + digits_val ?r"
    by (metis dvd_triv_right)
  then have "10 ^ ?k dvd digits_val ?r"
    using dvd_add_right_iff [of "10 ^ ?k" "digits_val (i @ take scale f) * 10 ^ ?k" "digits_val ?r"] by simp
  moreover have "digits_val ?r < 10 ^ ?k" using digits_val_less [OF r] by simp
  moreover have "digits_val ?r \<noteq> 0" using digits_val_0_iff [OF r] assms(3) by simp
  ultimately show False using nat_dvd_not_less by blast
qed

lemma scaleToDigits_eq:
  assumes s: "split_sign s = (neg, u)" "Cut CHR ''.'' u = (i, f)"
    and d: "i @ f \<noteq> []" "list_all is_digit (i @ f)"
  shows "scaleToDigits s p sc =
    (if length f > sc \<and> \<not> set (drop sc f) \<subseteq> {CHR ''0''} then Err (TooManyFractionalDigits s sc)
     else if sc \<le> p \<and> digits_val (i @ fraction_to sc f) < 10 ^ p
     then Ok (replicate (p - sc - length (TrimLeft i ''0'')) CHR ''0'' @ TrimLeft i ''0'' @ fraction_to sc f,
              neg \<and> digits_val (i @ f) \<noteq> 0)
     else Err (DecimalDoesNotFit s p sc))"
proof (cases "length f > sc \<and> \<not> set (drop sc f) \<subseteq> {CHR ''0''}")
  case True
  then show ?thesis
    using s d by (simp add: scaleToDigits_def digit_runes_iff Trim_Nil_iff)
next
  case False
  let ?t = "TrimLeft i ''0''" and ?f = "fraction_to sc f"
  let ?ds = "replicate (p - sc - length ?t) CHR ''0'' @ ?t @ ?f"
  have di: "list_all is_digit i" "list_all is_digit f" using d(2) by simp_all
  have dt: "list_all is_digit ?ds"
    using TrimLeft_digits [OF di(1)] fraction_to_digits [OF di(2)] by (auto simp: list_all_iff)
  have v: "digits_val ?ds = digits_val (i @ ?f)" by (simp add: digits_val_append)
  have "digits_val (i @ ?f) * 10 ^ length f = digits_val (i @ f) * 10 ^ sc"
    using False d(2) by (intro fraction_to_val) auto
  then have "digits_val (i @ ?f) = 0 \<longleftrightarrow> digits_val (i @ f) = 0" by (metis mult_eq_0_iff power_eq_0_iff zero_neq_numeral)
  then have zero: "Trim ?ds ''0'' = [] \<longleftrightarrow> digits_val (i @ f) = 0"
    unfolding Trim_Nil_iff using digits_val_0_iff [OF dt] v by simp
  have less: "digits_val ?f < 10 ^ sc" using digits_val_less [OF fraction_to_digits [OF di(2)]] by simp
  have fits: "\<not> int (length ?t) > int p - int sc \<longleftrightarrow> sc \<le> p \<and> digits_val (i @ ?f) < 10 ^ p"
  proof (cases "sc \<le> p")
    case True
    have "digits_val i * 10 ^ sc + digits_val ?f < 10 ^ (p - sc) * 10 ^ sc \<longleftrightarrow> digits_val i < 10 ^ (p - sc)"
    proof
      assume "digits_val i < 10 ^ (p - sc)"
      then have "Suc (digits_val i) * 10 ^ sc \<le> 10 ^ (p - sc) * 10 ^ sc" by (intro mult_right_mono) simp_all
      then show "digits_val i * 10 ^ sc + digits_val ?f < 10 ^ (p - sc) * 10 ^ sc" using less by simp
    next
      assume "digits_val i * 10 ^ sc + digits_val ?f < 10 ^ (p - sc) * 10 ^ sc"
      then have "digits_val i * 10 ^ sc < 10 ^ (p - sc) * 10 ^ sc" by linarith
      then show "digits_val i < 10 ^ (p - sc)" by simp
    qed
    moreover have "(10 :: nat) ^ p = 10 ^ (p - sc) * 10 ^ sc" using True by (simp flip: power_add)
    ultimately show ?thesis
      using True TrimLeft_length_iff [OF di(1), of "p - sc"] by (auto simp: digits_val_append)
  qed simp
  have "scaleToDigits s p sc =
    (if int (length ?t) > int p - int sc then Err (DecimalDoesNotFit s p sc)
     else Ok (?ds, if Trim ?ds ''0'' = [] then False else neg))"
    using s d di False by (simp add: scaleToDigits_def digit_runes_iff Trim_Nil_iff fraction_to_def Let_def)
  with False fits zero show ?thesis by auto
qed

lemma decimal_of_iff:
  "decimal_of s = Some (n, k) \<longleftrightarrow> (\<exists>neg u i f. split_sign s = (neg, u) \<and> Cut CHR ''.'' u = (i, f)
     \<and> i @ f \<noteq> [] \<and> list_all is_digit (i @ f) \<and> k = length f
     \<and> n = (if neg then - 1 else 1) * int (digits_val (i @ f)))"
  by (auto simp: decimal_of_def split: prod.splits)

lemma not_decimal_of:
  "decimal_of s = None \<Longrightarrow> scaleToDigits s p sc = Err (NotDecimal s)"
  by (auto simp: decimal_of_def scaleToDigits_def digit_runes_iff split: prod.splits if_splits)

lemma signed_cancel:
  assumes "(a :: nat) * 10 ^ k = b * 10 ^ sc" "m * 10 ^ k = (if neg then - 1 else 1 :: int) * int b * 10 ^ sc"
  shows "m = (if neg then - 1 else 1) * int a"
proof -
  have "int a * 10 ^ k = int b * 10 ^ sc" using arg_cong [OF assms(1), of int] by simp
  then have "m * 10 ^ k = ((if neg then - 1 else 1) * int a) * 10 ^ k" using assms(2) by auto
  then show ?thesis by simp
qed

text \<open>The decimals that have an exact representation with \<open>p\<close> digits, \<open>sc\<close> of them fractional.\<close>

definition representable :: "string \<Rightarrow> nat \<Rightarrow> nat \<Rightarrow> int \<Rightarrow> bool" where
  "representable s p sc m \<longleftrightarrow>
     (\<exists>n k. decimal_of s = Some (n, k) \<and> m * 10 ^ k = n * 10 ^ sc) \<and> \<bar>m\<bar> < 10 ^ p \<and> sc \<le> p"

lemma scaleToDigits_representable:
  assumes "representable s p sc m"
  obtains ds neg where "scaleToDigits s p sc = Ok (ds, neg)" "list_all is_digit ds" "length ds = p"
    "m = (if neg then - 1 else 1) * int (digits_val ds)"
proof -
  obtain n k where nk: "decimal_of s = Some (n, k)" "m * 10 ^ k = n * 10 ^ sc" "\<bar>m\<bar> < 10 ^ p" "sc \<le> p"
    using assms unfolding representable_def by blast
  then obtain neg u i f where p: "split_sign s = (neg, u)" "Cut CHR ''.'' u = (i, f)" "i @ f \<noteq> []"
      "list_all is_digit (i @ f)" "k = length f" "n = (if neg then - 1 else 1) * int (digits_val (i @ f))"
    unfolding decimal_of_iff by blast
  have "nat \<bar>m\<bar> * 10 ^ length f = digits_val (i @ f) * 10 ^ sc"
  proof -
    have "\<bar>m\<bar> * 10 ^ k = \<bar>n\<bar> * 10 ^ sc" using arg_cong [OF nk(2), of abs] by (simp add: abs_mult)
    then have "int (nat \<bar>m\<bar> * 10 ^ length f) = int (digits_val (i @ f) * 10 ^ sc)" using p by simp
    then show ?thesis by (rule of_nat_eq_iff [THEN iffD1])
  qed
  then have ok: "\<not> (length f > sc \<and> \<not> set (drop sc f) \<subseteq> {CHR ''0''})"
    using fraction_not_exact [OF p(4), of sc "nat \<bar>m\<bar>"] by blast
  then have v: "digits_val (i @ fraction_to sc f) * 10 ^ length f = digits_val (i @ f) * 10 ^ sc"
    using p(4) by (intro fraction_to_val) auto
  have m: "m = (if neg then - 1 else 1) * int (digits_val (i @ fraction_to sc f))"
    using signed_cancel [OF v, of m neg] nk(2) p(5,6) by simp
  then have lt: "digits_val (i @ fraction_to sc f) < 10 ^ p"
    using nk(3) by (auto simp flip: of_nat_less_iff split: if_splits)
  let ?t = "TrimLeft i ''0''"
  let ?ds = "replicate (p - sc - length ?t) CHR ''0'' @ ?t @ fraction_to sc f"
  have "scaleToDigits s p sc = Ok (?ds, neg \<and> digits_val (i @ f) \<noteq> 0)"
    unfolding scaleToDigits_eq [OF p(1-4)] using ok nk(4) lt by simp
  moreover have "list_all is_digit ?ds"
    using p(4) TrimLeft_digits [of i] fraction_to_digits [of f] by (auto simp: list_all_iff)
  moreover have "length ?t \<le> p - sc"
  proof -
    have "digits_val i * 10 ^ sc \<le> digits_val (i @ fraction_to sc f)" by (simp add: digits_val_append)
    then have "digits_val i * 10 ^ sc < 10 ^ (p - sc) * 10 ^ sc"
      using lt nk(4) by (simp flip: power_add)
    then show ?thesis using TrimLeft_length_iff [of i "p - sc"] p(4) by simp
  qed
  then have "length ?ds = p" using nk(4) by simp
  moreover have "m = (if neg \<and> digits_val (i @ f) \<noteq> 0 then - 1 else 1) * int (digits_val ?ds)"
    using m v by (auto simp: digits_val_append)
  ultimately show thesis by (rule that)
qed

lemma scaleToDigits_Ok_representable:
  assumes "scaleToDigits s p sc = Ok (ds, ng)"
  shows "\<exists>m. representable s p sc m"
proof -
  obtain n k where "decimal_of s = Some (n, k)"
    using assms not_decimal_of [of s p sc] by (cases "decimal_of s") auto
  then obtain neg u i f where p: "split_sign s = (neg, u)" "Cut CHR ''.'' u = (i, f)" "i @ f \<noteq> []"
      "list_all is_digit (i @ f)" "k = length f" "n = (if neg then - 1 else 1) * int (digits_val (i @ f))"
    unfolding decimal_of_iff by blast
  have ok: "\<not> (length f > sc \<and> \<not> set (drop sc f) \<subseteq> {CHR ''0''})"
    and lt: "sc \<le> p" "digits_val (i @ fraction_to sc f) < 10 ^ p"
    using assms unfolding scaleToDigits_eq [OF p(1-4)] by (auto split: if_splits)
  have "digits_val (i @ fraction_to sc f) * 10 ^ length f = digits_val (i @ f) * 10 ^ sc"
    using p(4) ok by (intro fraction_to_val) auto
  then have "int (digits_val (i @ fraction_to sc f)) * 10 ^ k = int (digits_val (i @ f)) * 10 ^ sc"
    using p(5) by (metis of_nat_mult of_nat_numeral of_nat_power)
  moreover have "int (digits_val (i @ fraction_to sc f)) < 10 ^ p"
    using lt(2) by (metis of_nat_less_iff of_nat_numeral of_nat_power)
  ultimately have "representable s p sc ((if neg then - 1 else 1) * int (digits_val (i @ fraction_to sc f)))"
    using \<open>decimal_of s = Some (n, k)\<close> p(6) lt(1) by (auto simp: representable_def)
  then show ?thesis by blast
qed

lemma scaleToDigits_no_panic [panic_free, simp]: "scaleToDigits s p sc \<noteq> Panic"
  by (auto simp: scaleToDigits_def Let_def split: prod.splits)

lemma packed_digits_no_panic [simp]: "packed_digits b \<noteq> Panic"
  by (induction b) (auto simp: Let_def)

lemma zoned_digits_no_panic [simp]: "zoned_digits b \<noteq> Panic"
  by (induction b) (auto simp: Let_def)

lemma decodePacked_no_panic [panic_free, simp]: "decodePacked b p sc \<noteq> Panic"
  by (auto simp: decodePacked_def bind_res_Panic_iff Let_def)

lemma decodeZoned_Panic_iff: "decodeZoned b p sc = Panic \<longleftrightarrow> p = 0 \<and> b = []"
  by (cases b) (auto simp: decodeZoned_def bind_res_Panic_iff Let_def)

lemma encodePacked_no_panic [panic_free, simp]: "encodePacked n ds neg \<noteq> Panic"
  by (simp add: encodePacked_def Let_def)

lemma encodeZoned_Panic_iff: "encodeZoned n ds neg = Panic \<longleftrightarrow> n = 0 \<and> ds = [] \<and> neg"
  by (cases ds) (auto simp: encodeZoned_def bind_res_Panic_iff Let_def)

lemma stored_decimal:
  assumes "representable s p sc m"
  shows "\<exists>ds neg. scaleToDigits s p sc = Ok (ds, neg)
    \<and> (\<exists>b t. encodePacked (p div 2 + 1) ds neg = Ok b \<and> decodePacked b p sc = Ok t \<and> decimal_of t = Some (m, sc))
    \<and> (0 < p \<longrightarrow> (\<exists>b t. encodeZoned p ds neg = Ok b \<and> decodeZoned b p sc = Ok t \<and> decimal_of t = Some (m, sc)))"
proof -
  obtain ds neg where ds: "scaleToDigits s p sc = Ok (ds, neg)" "list_all is_digit ds" "length ds = p"
    "m = (if neg then - 1 else 1) * int (digits_val ds)"
    by (rule scaleToDigits_representable [OF assms])
  let ?ds = "if even (length ds) then CHR ''0'' # ds else ds"
  have "list_all is_digit ?ds" "digits_val ?ds = digits_val ds"
    using ds(2) digits_val_append [of "''0''" ds] by (simp_all add: digit_val_def)
  then have "decimal_of (formatDecimal ?ds sc neg) = Some (m, sc)"
    using decimal_of_formatDecimal [of ?ds sc neg] ds(4) by simp
  moreover have "decimal_of (formatDecimal ds sc neg) = Some (m, sc)"
    using decimal_of_formatDecimal [OF ds(2), of sc neg] ds(4) by simp
  moreover have "ds \<noteq> []" if "0 < p" using that ds(3) by auto
  ultimately show ?thesis
    using packed_round_trip [OF ds(2), of neg sc] zoned_round_trip [OF ds(2), of neg sc] ds(1)
    unfolding ds(3) by blast
qed

section \<open>Properties\<close>

text \<open>C16. Which decimals are accepted for a field of \<open>p\<close> digits with scale \<open>sc\<close>: exactly the
  texts that denote a number with an exact representation there. Text that is no decimal,
  non-zero digits beyond the scale and numbers too large are errors; nothing is rounded,
  truncated or wrapped, and nothing panics.\<close>

theorem decimal_accepted_iff_representable:
  "scaleToDigits s p sc \<noteq> Panic
   \<and> ((\<exists>r. scaleToDigits s p sc = Ok r) \<longleftrightarrow> (\<exists>m. representable s p sc m))"
proof -
  have "\<exists>m. representable s p sc m" if "scaleToDigits s p sc = Ok r" for r
    using that scaleToDigits_Ok_representable [of s p sc "fst r" "snd r"] by simp
  moreover have "\<exists>r. scaleToDigits s p sc = Ok r" if "representable s p sc m" for m
    by (rule scaleToDigits_representable [OF that]) blast
  ultimately show ?thesis by auto
qed

text \<open>C13. A decimal that has an exact representation is stored exactly, packed or zoned: what is
  read back from the encoded field denotes the same number, with the field's scale.\<close>

theorem decimal_stored_exactly:
  assumes "representable s p sc m"
  shows "\<exists>ds neg. scaleToDigits s p sc = Ok (ds, neg)
    \<and> (\<exists>b t. encodePacked (p div 2 + 1) ds neg = Ok b \<and> decodePacked b p sc = Ok t \<and> decimal_of t = Some (m, sc))
    \<and> (0 < p \<longrightarrow> (\<exists>b t. encodeZoned p ds neg = Ok b \<and> decodeZoned b p sc = Ok t \<and> decimal_of t = Some (m, sc)))"
  using assms by (rule stored_decimal)

theorem decimal_stored_exactly_witness:
  "\<exists>ds neg. scaleToDigits ''-12.50'' 5 1 = Ok (ds, neg)
    \<and> (\<exists>b t. encodePacked 3 ds neg = Ok b \<and> decodePacked b 5 1 = Ok t \<and> decimal_of t = Some (- 125, 1))"
proof -
  have "representable ''-12.50'' 5 1 (- 125)"
    by (simp add: representable_def decimal_of_def is_digit_def digits_val_Cons digit_val_def)
  from decimal_stored_exactly [OF this] show ?thesis by auto
qed

end
