(* ===== verification/GoNumbers.thy ===== *)
theory GoNumbers
  imports GoStrings
begin

text \<open>
  Floating-point numbers as IEEE bits, with the conversions between \<^verbatim>\<open>float32\<close>, \<^verbatim>\<open>float64\<close> and
  \<^verbatim>\<open>int64\<close>, and the formatting and parsing of dates and times in the layouts of
  \<^verbatim>\<open>database/value.go\<close>.
\<close>

type_synonym instant = int
type_synonym location = nat

record civil =
  cv_year :: int
  cv_month :: nat
  cv_day :: nat
  cv_hour :: nat
  cv_min :: nat
  cv_sec :: nat
  cv_nsec :: nat

section \<open>Floating-point bits\<close>

fun bit_length :: "nat \<Rightarrow> nat" where
  "bit_length n = (if n = 0 then 0 else Suc (bit_length (n div 2)))"

declare bit_length.simps [simp del]

definition round_even :: "nat \<Rightarrow> nat \<Rightarrow> nat" where
  "round_even m s =
     (let q = m div 2 ^ s; r = m mod 2 ^ s
      in if 2 ^ s < 2 * r \<or> 2 * r = 2 ^ s \<and> odd q then q + 1 else q)"

text \<open>
  The bits, sign apart, of \<open>m * 2 ^ e\<close> rounded to \<open>p\<close> significant bits with least exponent
  \<open>emin\<close>; \<open>infbits\<close> are the bits of infinity.
\<close>

definition float_mag :: "nat \<Rightarrow> int \<Rightarrow> nat \<Rightarrow> nat \<Rightarrow> int \<Rightarrow> nat" where
  "float_mag p emin infbits m e =
     (if m = 0 then 0 else
        let et = max (e + int (bit_length m) - int p) emin;
            q = (if et \<le> e then m * 2 ^ nat (e - et) else round_even m (nat (et - e)))
        in min (q + nat (et - emin) * 2 ^ (p - 1)) infbits)"

definition inf32 :: nat where "inf32 = 255 * 2 ^ 23"
definition inf64 :: nat where "inf64 = 2047 * 2 ^ 52"

definition f64_sign :: "64 word \<Rightarrow> bool" where "f64_sign x \<longleftrightarrow> bit x 63"
definition f64_mag :: "64 word \<Rightarrow> nat" where "f64_mag x = unat x mod 2 ^ 63"
definition f32_mag :: "32 word \<Rightarrow> nat" where "f32_mag x = unat x mod 2 ^ 31"

text \<open>The number \<open>m * 2 ^ e\<close> a finite magnitude stands for.\<close>

definition f64_parts :: "nat \<Rightarrow> nat \<times> int" where
  "f64_parts a = (let x = a div 2 ^ 52; m = a mod 2 ^ 52
     in if x = 0 then (m, - 1074) else (2 ^ 52 + m, int x - 1075))"

definition f32_parts :: "nat \<Rightarrow> nat \<times> int" where
  "f32_parts a = (let x = a div 2 ^ 23; m = a mod 2 ^ 23
     in if x = 0 then (m, - 149) else (2 ^ 23 + m, int x - 150))"

definition with_sign64 :: "bool \<Rightarrow> nat \<Rightarrow> 64 word" where
  "with_sign64 s a = of_nat ((if s then 2 ^ 63 else 0) + a)"

definition float64_of_float32 :: "32 word \<Rightarrow> 64 word" where
  "float64_of_float32 x =
     (let a = f32_mag x in
      with_sign64 (bit x 31)
        (if a < inf32 then (case f32_parts a of (m, e) \<Rightarrow> float_mag 53 (- 1074) inf64 m e)
         else if a = inf32 then inf64
         else inf64 + 2 ^ 51 + (a - inf32) mod 2 ^ 22 * 2 ^ 29))"

definition float32_of_float64 :: "64 word \<Rightarrow> 32 word" where
  "float32_of_float64 x =
     (let a = f64_mag x in
      of_nat ((if f64_sign x then 2 ^ 31 else 0)
        + (if a < inf64 then (case f64_parts a of (m, e) \<Rightarrow> float_mag 24 (- 149) inf32 m e)
           else if a = inf64 then inf32
           else inf32 + 2 ^ 22 + (a - inf64) div 2 ^ 29 mod 2 ^ 22)))"

definition float64_of_int :: "int \<Rightarrow> 64 word" where
  "float64_of_int n = with_sign64 (n < 0) (float_mag 53 (- 1074) inf64 (nat \<bar>n\<bar>) 0)"

text \<open>The integer a float is equal to, within \<^verbatim>\<open>[MinInt64, MaxInt64)\<close>.\<close>

definition int_of_float64 :: "64 word \<Rightarrow> int option" where
  "int_of_float64 x =
     (let a = f64_mag x in
      if inf64 \<le> a then None
      else case f64_parts a of (m, e) \<Rightarrow>
        if 64 < e then None
        else if e < 0 \<and> m mod 2 ^ nat (- e) \<noteq> 0 then None
        else
          let v = (if e < 0 then m div 2 ^ nat (- e) else m * 2 ^ nat e);
              n = (if f64_sign x then - int v else int v)
          in if - (2 ^ 63) \<le> n \<and> n < 2 ^ 63 then Some n else None)"

section \<open>Dates and times\<close>

text \<open>\<^verbatim>\<open>appendInt\<close> of \<^verbatim>\<open>time\<close>: a number padded with zeros to a width.\<close>

definition pad_nat :: "nat \<Rightarrow> nat \<Rightarrow> string" where
  "pad_nat w n = (let d = dec_digits n in replicate (w - length d) CHR ''0'' @ d)"

definition pad_int :: "nat \<Rightarrow> int \<Rightarrow> string" where
  "pad_int w n = (if n < 0 then CHR ''-'' # pad_nat w (nat (- n)) else pad_nat w (nat n))"

definition format_date :: "civil \<Rightarrow> string" where
  "format_date c = pad_int 4 (cv_year c) @ ''-'' @ pad_nat 2 (cv_month c) @ ''-'' @ pad_nat 2 (cv_day c)"

definition format_time :: "civil \<Rightarrow> string" where
  "format_time c = pad_nat 2 (cv_hour c) @ ''.'' @ pad_nat 2 (cv_min c) @ ''.'' @ pad_nat 2 (cv_sec c)"

definition format_timestamp :: "civil \<Rightarrow> string" where
  "format_timestamp c = format_date c @ ''-'' @ format_time c"

text \<open>A layout of a point and \<open>n\<close> zeros: at most nine digits are ever written.\<close>

definition format_fraction :: "nat \<Rightarrow> civil \<Rightarrow> string" where
  "format_fraction n c = ''.'' @ take n (pad_nat 9 (cv_nsec c))"

fun number :: "nat \<Rightarrow> string \<Rightarrow> (nat \<times> string) option" where
  "number n s =
     (if n \<le> length s \<and> list_all is_digit (take n s)
      then Some (digits_val (take n s), drop n s) else None)"

definition hour_number :: "string \<Rightarrow> (nat \<times> string) option" where
  "hour_number s = (case number 2 s of Some r \<Rightarrow> Some r | None \<Rightarrow> number 1 s)"

fun literal :: "char \<Rightarrow> string \<Rightarrow> string option" where
  "literal c [] = None"
| "literal c (d # s) = (if d = c then Some s else None)"

definition leap_year :: "nat \<Rightarrow> bool" where
  "leap_year y \<longleftrightarrow> y mod 4 = 0 \<and> (y mod 100 \<noteq> 0 \<or> y mod 400 = 0)"

definition days_in :: "nat \<Rightarrow> nat \<Rightarrow> nat" where
  "days_in m y =
     (if m = 2 then (if leap_year y then 29 else 28)
      else if m \<in> {4, 6, 9, 11} then 30 else 31)"

definition parse_ymd :: "string \<Rightarrow> ((nat \<times> nat \<times> nat) \<times> string) option" where
  "parse_ymd s =
     Option.bind (number 4 s) (\<lambda>(y, s1). Option.bind (literal CHR ''-'' s1) (\<lambda>s2.
     Option.bind (number 2 s2) (\<lambda>(m, s3). Option.bind (literal CHR ''-'' s3) (\<lambda>s4.
     Option.bind (number 2 s4) (\<lambda>(d, s5).
     if 1 \<le> m \<and> m \<le> 12 then Some ((y, m, d), s5) else None)))))"

text \<open>A fraction is read after the seconds although the layout names none; digits beyond the
  ninth are dropped.\<close>

definition parse_fraction :: "string \<Rightarrow> nat \<times> string" where
  "parse_fraction s =
     (case s of
        c # d # r \<Rightarrow>
          if (c = CHR ''.'' \<or> c = CHR '','') \<and> is_digit d
          then let ds = takeWhile is_digit (d # r); used = take 9 ds
               in (digits_val used * 10 ^ (9 - length used), dropWhile is_digit (d # r))
          else (0, s)
      | _ \<Rightarrow> (0, s))"

definition parse_hms :: "string \<Rightarrow> ((nat \<times> nat \<times> nat \<times> nat) \<times> string) option" where
  "parse_hms s =
     Option.bind (hour_number s) (\<lambda>(h, s1). Option.bind (literal CHR ''.'' s1) (\<lambda>s2.
     Option.bind (number 2 s2) (\<lambda>(mi, s3). Option.bind (literal CHR ''.'' s3) (\<lambda>s4.
     Option.bind (number 2 s4) (\<lambda>(se, s5).
     if h < 24 \<and> mi < 60 \<and> se < 60
     then (case parse_fraction s5 of (ns, s6) \<Rightarrow> Some ((h, mi, se, ns), s6)) else None)))))"

definition valid_day :: "nat \<times> nat \<times> nat \<Rightarrow> bool" where
  "valid_day = (\<lambda>(y, m, d). 1 \<le> d \<and> d \<le> days_in m y)"

definition parse_date :: "string \<Rightarrow> civil option" where
  "parse_date s =
     Option.bind (parse_ymd s) (\<lambda>((y, m, d), r).
     if r = [] \<and> valid_day (y, m, d)
     then Some \<lparr>cv_year = int y, cv_month = m, cv_day = d, cv_hour = 0, cv_min = 0, cv_sec = 0, cv_nsec = 0\<rparr>
     else None)"

definition parse_timestamp :: "string \<Rightarrow> civil option" where
  "parse_timestamp s =
     Option.bind (parse_ymd s) (\<lambda>((y, m, d), r). Option.bind (literal CHR ''-'' r) (\<lambda>r1.
     Option.bind (parse_hms r1) (\<lambda>((h, mi, se, ns), r2).
     if r2 = [] \<and> valid_day (y, m, d)
     then Some \<lparr>cv_year = int y, cv_month = m, cv_day = d, cv_hour = h, cv_min = mi, cv_sec = se, cv_nsec = ns\<rparr>
     else None)))"

section \<open>Lemmas: dates and times\<close>

lemma length_dec_digits: "n < 10 ^ w \<Longrightarrow> 0 < w \<Longrightarrow> length (dec_digits n) \<le> w"
proof (induction n arbitrary: w rule: dec_digits.induct)
  case (1 n)
  show ?case
  proof (cases "n < 10")
    case True
    with "1.prems" show ?thesis by (subst dec_digits.simps) simp
  next
    case False
    with "1.prems" have "1 < w" by (cases w) (auto simp: gr0_conv_Suc less_Suc_eq split: nat.splits)
    then obtain v where w: "w = Suc v" "0 < v" by (cases w) auto
    have "n div 10 < 10 ^ v" using "1.prems"(1) w(1) by (simp add: less_mult_imp_div_less)
    with "1.IH" [OF False this w(2)] False w show ?thesis by (subst dec_digits.simps) simp
  qed
qed

lemma pad_nat_simps [simp]:
  assumes "n < 10 ^ w" "0 < w"
  shows "length (pad_nat w n) = w" "list_all is_digit (pad_nat w n)" "digits_val (pad_nat w n) = n"
  using length_dec_digits [OF assms] dec_digits_digits [of n]
  by (auto simp: pad_nat_def Let_def list_all_iff digits_val_append is_digit_def)

lemma number_pad_nat: "n < 10 ^ w \<Longrightarrow> 0 < w \<Longrightarrow> number w (pad_nat w n @ r) = Some (n, r)"
  by (simp add: list_all_append)

declare number.simps [simp del]

definition valid_civil :: "civil \<Rightarrow> bool" where
  "valid_civil c \<longleftrightarrow> 0 \<le> cv_year c \<and> cv_year c < 10000 \<and> 1 \<le> cv_month c \<and> cv_month c \<le> 12
     \<and> valid_day (nat (cv_year c), cv_month c, cv_day c)
     \<and> cv_hour c < 24 \<and> cv_min c < 60 \<and> cv_sec c < 60 \<and> cv_nsec c < 10 ^ 9"

lemma valid_civil_less:
  assumes "valid_civil c"
  shows "nat (cv_year c) < 10 ^ 4" "cv_month c < 10 ^ 2" "cv_day c < 10 ^ 2" "cv_hour c < 10 ^ 2"
    "cv_min c < 10 ^ 2" "cv_sec c < 10 ^ 2" "cv_nsec c < 10 ^ 9"
proof -
  have "days_in m y \<le> 31" for m y by (simp add: days_in_def)
  then have "cv_day c \<le> 31" using assms unfolding valid_civil_def valid_day_def by (simp, meson order_trans)
  with assms show "nat (cv_year c) < 10 ^ 4" "cv_month c < 10 ^ 2" "cv_day c < 10 ^ 2" "cv_hour c < 10 ^ 2"
    "cv_min c < 10 ^ 2" "cv_sec c < 10 ^ 2" "cv_nsec c < 10 ^ 9"
    unfolding valid_civil_def by (simp_all add: nat_less_iff)
qed

lemma parse_format_ymd:
  assumes "valid_civil c"
  shows "parse_ymd (format_date c @ r) = Some ((nat (cv_year c), cv_month c, cv_day c), r)"
proof -
  note less = valid_civil_less [OF assms]
  note n = number_pad_nat [OF less(1)] number_pad_nat [OF less(2)] number_pad_nat [OF less(3)]
  show ?thesis
    using assms by (simp add: valid_civil_def parse_ymd_def format_date_def pad_int_def n)
qed

lemma parse_format_hms:
  assumes "valid_civil c"
  shows "parse_hms (format_time c @ r)
     = Some ((cv_hour c, cv_min c, cv_sec c, fst (parse_fraction r)), snd (parse_fraction r))"
proof -
  note less = valid_civil_less [OF assms]
  note n = number_pad_nat [OF less(4)] number_pad_nat [OF less(5)] number_pad_nat [OF less(6)]
  show ?thesis
    using assms by (simp add: valid_civil_def parse_hms_def hour_number_def format_time_def n split_beta)
qed

lemma parse_format_fraction:
  assumes "ns < 10 ^ 9" "1 \<le> k"
  shows "parse_fraction (''.'' @ take k (pad_nat 9 ns))
    = (ns - ns mod 10 ^ (9 - min k 9), [])"
proof -
  let ?p = "pad_nat 9 ns" and ?k = "min k 9"
  have p: "length ?p = 9" "list_all is_digit ?p" "digits_val ?p = ns" using assms(1) by simp_all
  have t: "take k ?p = take ?k ?p" using p(1) by (simp add: min_def)
  have d: "list_all is_digit (take ?k ?p)" "list_all is_digit (drop ?k ?p)"
    using p(2) by (auto simp: list_all_iff dest: in_set_takeD in_set_dropD)
  have "ns = digits_val (take ?k ?p) * 10 ^ (9 - ?k) + digits_val (drop ?k ?p)"
    using digits_val_append [of "take ?k ?p" "drop ?k ?p"] p by simp
  moreover have "digits_val (drop ?k ?p) < 10 ^ (9 - ?k)"
    using digits_val_less [OF d(2)] p(1) by simp
  ultimately have v: "digits_val (take ?k ?p) * 10 ^ (9 - ?k) = ns - ns mod 10 ^ (9 - ?k)"
    by (metis add_diff_cancel_right' mod_less mod_mult_self3)
  obtain c r where cr: "take ?k ?p = c # r" using assms(2) p(1) by (cases "take ?k ?p") auto
  have len: "length (c # r) = ?k" unfolding cr [symmetric] using p(1) by simp
  have cd: "is_digit c" "list_all is_digit (c # r)" using d(1) unfolding cr by simp_all
  then have "takeWhile is_digit (c # r) = c # r" "dropWhile is_digit (c # r) = []"
    by (simp_all add: takeWhile_eq_all_conv list_all_iff)
  moreover have "take 9 (c # r) = c # r" using len by (intro take_all) simp
  ultimately have "parse_fraction (CHR ''.'' # c # r) = (digits_val (c # r) * 10 ^ (9 - ?k), [])"
    using cd(1) len unfolding parse_fraction_def by (simp only: list.case if_True simp_thms Let_def)
  then show ?thesis unfolding t cr v [unfolded cr] by simp
qed

lemma parse_date_format:
  "valid_civil c \<Longrightarrow> parse_date (format_date c)
    = Some (c\<lparr>cv_hour := 0, cv_min := 0, cv_sec := 0, cv_nsec := 0\<rparr>)"
  using parse_format_ymd [of c "[]"] by (simp add: parse_date_def valid_civil_def)

lemma parse_timestamp_format:
  assumes "valid_civil c"
  shows "parse_timestamp (format_timestamp c) = Some (c\<lparr>cv_nsec := 0\<rparr>)"
    and "1 \<le> k \<Longrightarrow> parse_timestamp (format_timestamp c @ format_fraction k c)
      = Some (c\<lparr>cv_nsec := cv_nsec c - cv_nsec c mod 10 ^ (9 - min k 9)\<rparr>)"
proof -
  have y: "parse_ymd (format_timestamp c @ r)
      = Some ((nat (cv_year c), cv_month c, cv_day c), ''-'' @ format_time c @ r)" for r
    using parse_format_ymd [OF assms, of "''-'' @ format_time c @ r"] by (simp add: format_timestamp_def)
  have p: "parse_fraction [] = (0, [])" by (simp add: parse_fraction_def)
  show "parse_timestamp (format_timestamp c) = Some (c\<lparr>cv_nsec := 0\<rparr>)"
    using y [of "[]"] parse_format_hms [OF assms, of "[]"] assms
    by (simp add: parse_timestamp_def p valid_civil_def)
  show "parse_timestamp (format_timestamp c @ format_fraction k c)
      = Some (c\<lparr>cv_nsec := cv_nsec c - cv_nsec c mod 10 ^ (9 - min k 9)\<rparr>)" if "1 \<le> k"
    using y [of "format_fraction k c"] parse_format_hms [OF assms, of "format_fraction k c"] assms
      parse_format_fraction [of "cv_nsec c" k] that
    by (simp add: parse_timestamp_def format_fraction_def valid_civil_def)
qed

text \<open>What is written ends in a digit, so that trimming blanks leaves it alone.\<close>

lemma pad_nat_last: "n < 10 ^ w \<Longrightarrow> 0 < w \<Longrightarrow> pad_nat w n \<noteq> [] \<and> is_digit (last (pad_nat w n))"
  using pad_nat_simps [of n w] by (metis last_in_set length_0_conv list_all_iff less_numeral_extra(3))

lemma time_texts_end_in_digit:
  assumes "valid_civil c"
  shows "format_date c \<noteq> [] \<and> is_digit (last (format_date c))"
    and "format_time c \<noteq> [] \<and> is_digit (last (format_time c))"
    and "format_timestamp c \<noteq> [] \<and> is_digit (last (format_timestamp c))"
    and "1 \<le> k \<Longrightarrow> is_digit (last (format_timestamp c @ format_fraction k c))"
proof -
  note less = valid_civil_less [OF assms]
  show d: "format_date c \<noteq> [] \<and> is_digit (last (format_date c))"
    and t: "format_time c \<noteq> [] \<and> is_digit (last (format_time c))"
    using pad_nat_last [OF less(3)] pad_nat_last [OF less(6)] by (simp_all add: format_date_def format_time_def)
  then show "format_timestamp c \<noteq> [] \<and> is_digit (last (format_timestamp c))"
    by (simp add: format_timestamp_def)
  have n: "length (pad_nat 9 (cv_nsec c)) = 9" "list_all is_digit (pad_nat 9 (cv_nsec c))"
    using less(7) by simp_all
  show "is_digit (last (format_timestamp c @ format_fraction k c))" if "1 \<le> k"
  proof -
    have "take k (pad_nat 9 (cv_nsec c)) \<noteq> []" using that n(1) by auto
    moreover from this have "last (take k (pad_nat 9 (cv_nsec c))) \<in> set (pad_nat 9 (cv_nsec c))"
      by (meson in_set_takeD last_in_set)
    ultimately show ?thesis using n(2) by (simp add: format_fraction_def list_all_iff)
  qed
qed

lemma length_format_timestamp: "valid_civil c \<Longrightarrow> length (format_timestamp c) = 19"
  using valid_civil_less [of c] pad_nat_simps(1)
  by (simp add: valid_civil_def format_timestamp_def format_date_def format_time_def pad_int_def)

end
