(* ===== verification/DbValue.thy ===== *)
theory DbValue
  imports DbFormat DbDecimal GoNumbers
begin

text \<open>
  \<^verbatim>\<open>database/value.go\<close>: the conversion between the bytes of a field and Go values. A
  \<^verbatim>\<open>driver.Value\<close> is a \<open>go_value\<close>, with \<^verbatim>\<open>nil\<close> (SQL NULL) as \<open>None\<close> where it can occur.
  Floating-point numbers are their IEEE bits, and the conversions between widths and to and
  from integers are computed on them; an instant is its nanoseconds since 1970 and a
  \<^verbatim>\<open>*time.Location\<close> an address. The zone database and the decimal rendering and reading of
  floating-point numbers are parameters.
\<close>

section \<open>Types\<close>

definition typeDate :: "16 word" where "typeDate = 384"
definition typeTime :: "16 word" where "typeTime = 388"
definition typeTimestamp :: "16 word" where "typeTimestamp = 392"
definition typeDatalink :: "16 word" where "typeDatalink = 396"
definition typeBLOB :: "16 word" where "typeBLOB = 404"
definition typeCLOB :: "16 word" where "typeCLOB = 408"
definition typeDBCLOB :: "16 word" where "typeDBCLOB = 412"
definition typeVarchar :: "16 word" where "typeVarchar = 448"
definition typeChar :: "16 word" where "typeChar = 452"
definition typeLongVarchar :: "16 word" where "typeLongVarchar = 456"
definition typeVargraphic :: "16 word" where "typeVargraphic = 464"
definition typeGraphic :: "16 word" where "typeGraphic = 468"
definition typeLongVargraph :: "16 word" where "typeLongVargraph = 472"
definition typeFloat :: "16 word" where "typeFloat = 480"
definition typePacked :: "16 word" where "typePacked = 484"
definition typeZoned :: "16 word" where "typeZoned = 488"
definition typeBigint :: "16 word" where "typeBigint = 492"
definition typeInteger :: "16 word" where "typeInteger = 496"
definition typeSmallint :: "16 word" where "typeSmallint = 500"
definition typeRowID :: "16 word" where "typeRowID = 904"
definition typeVarbinary :: "16 word" where "typeVarbinary = 908"
definition typeBinary :: "16 word" where "typeBinary = 912"
definition typeBLOBLocator :: "16 word" where "typeBLOBLocator = 960"
definition typeCLOBLocator :: "16 word" where "typeCLOBLocator = 964"
definition typeDBCLOBLocator :: "16 word" where "typeDBCLOBLocator = 968"
definition typeDecfloat :: "16 word" where "typeDecfloat = 996"

lemmas type_defs = typeDate_def typeTime_def typeTimestamp_def typeDatalink_def typeBLOB_def
  typeCLOB_def typeDBCLOB_def typeVarchar_def typeChar_def typeLongVarchar_def
  typeVargraphic_def typeGraphic_def typeLongVargraph_def typeFloat_def typePacked_def
  typeZoned_def typeBigint_def typeInteger_def typeSmallint_def typeRowID_def
  typeVarbinary_def typeBinary_def typeBLOBLocator_def typeCLOBLocator_def
  typeDBCLOBLocator_def typeDecfloat_def

definition type_names :: "(16 word \<times> string) list" where
  "type_names =
     [(typeDate, ''DATE''), (typeTime, ''TIME''), (typeTimestamp, ''TIMESTAMP''),
      (typeDatalink, ''DATALINK''), (typeBLOB, ''BLOB''), (typeCLOB, ''CLOB''),
      (typeDBCLOB, ''DBCLOB''), (typeVarchar, ''VARCHAR''), (typeChar, ''CHAR''),
      (typeLongVarchar, ''LONG VARCHAR''), (typeVargraphic, ''VARGRAPHIC''),
      (typeGraphic, ''GRAPHIC''), (typeLongVargraph, ''LONG VARGRAPHIC''),
      (typeFloat, ''FLOAT''), (typePacked, ''DECIMAL''), (typeZoned, ''NUMERIC''),
      (typeBigint, ''BIGINT''), (typeInteger, ''INTEGER''), (typeSmallint, ''SMALLINT''),
      (typeRowID, ''ROWID''), (typeVarbinary, ''VARBINARY''), (typeBinary, ''BINARY''),
      (typeBLOBLocator, ''BLOB LOCATOR''), (typeCLOBLocator, ''CLOB LOCATOR''),
      (typeDBCLOBLocator, ''DBCLOB LOCATOR''), (typeDecfloat, ''DECFLOAT'')]"

definition typeName :: "16 word \<Rightarrow> string" where
  "typeName t = (case map_of type_names t of Some s \<Rightarrow> s
     | None \<Rightarrow> ''SQLTYPE('' @ FormatInt (int (unat t)) @ '')'')"

definition charCCSID :: "field \<Rightarrow> nat" where
  "charCCSID f = (if f_ccsid f = 0 then ccsidEBCDIC37 else f_ccsid f)"

section \<open>Values\<close>

datatype go_value =
    VInt int
  | VFloat "64 word"
  | VBool bool
  | VBytes bytes
  | VString string
  | VTime instant

text \<open>\<^verbatim>\<open>t.In(loc)\<close> taken apart, \<^verbatim>\<open>time.Date\<close>, and \<^verbatim>\<open>FormatFloat(x, 'f', -1, 64)\<close> and \<^verbatim>\<open>ParseFloat\<close>.\<close>

record value_env =
  ve_ccsids :: ccsid_table
  ve_In :: "location \<Rightarrow> instant \<Rightarrow> civil"
  ve_Date :: "location \<Rightarrow> civil \<Rightarrow> instant"
  ve_FormatFloat :: "64 word \<Rightarrow> string"
  ve_ParseFloat :: "string \<Rightarrow> 64 word option"

datatype value_error =
    ValueText ccsid_error
  | ValueDecimal decimal_error
  | VaryingTooShort
  | VaryingLength nat nat
  | LobTooShort
  | LobLength nat nat
  | FieldLength "16 word" nat
  | BadTime "16 word" string
  | UnsupportedType "16 word"
  | DoesNotFit "16 word" nat nat
  | OutOfRange int nat
  | WrongValue go_value
  | NotInteger go_value
  | NotFloat go_value
  | ScaledInteger "16 word" nat
  | NeverReturns    \<comment> \<open>not an error of the code: it does not return\<close>

section \<open>Decoding\<close>

definition varData :: "bytes \<Rightarrow> nat \<Rightarrow> (value_error, bytes) res" where
  "varData b unitSize =
     (if length b < 2 then Err VaryingTooShort
      else bind_res (get16 b 0) (\<lambda>w.
        let n = unat w * unitSize in
        if 2 + n > length b then Err (VaryingLength n (length b - 2)) else go_slice b 2 (2 + n)))"

definition lobData :: "bytes \<Rightarrow> bool \<Rightarrow> (value_error, bytes) res" where
  "lobData b doubleByte =
     (if length b < 4 then Err LobTooShort
      else bind_res (get32 b 0) (\<lambda>w.
        let n = (if doubleByte then unat w * 2 else unat w) in
        if 4 + n > length b then Err (LobLength n (length b - 4)) else go_slice b 4 (4 + n)))"

definition decode_text :: "value_env \<Rightarrow> nat \<Rightarrow> bytes \<Rightarrow> (value_error, string) res" where
  "decode_text E c b = wrap_err ValueText (decodeString (ve_ccsids E) c b)"

definition encode_text :: "value_env \<Rightarrow> nat \<Rightarrow> string \<Rightarrow> (value_error, bytes) res" where
  "encode_text E c s = wrap_err ValueText (encodeString (ve_ccsids E) c s)"

definition decode_integer :: "field \<Rightarrow> bytes \<Rightarrow> (value_error, int) res" where
  "decode_integer f b =
     (if length b \<noteq> f_length f \<or> length b \<notin> {2, 4, 8} then Err (FieldLength (baseType f) (length b))
      else if length b = 2 then bind_res (get16 b 0) (\<lambda>w. Ok (sint w))
      else if length b = 4 then bind_res (get32 b 0) (\<lambda>w. Ok (sint w))
      else bind_res (get32 b 0) (\<lambda>hi. bind_res (get32 b 4) (\<lambda>lo. Ok (sint (u64 hi lo)))))"

definition decode_float :: "field \<Rightarrow> bytes \<Rightarrow> (value_error, 64 word) res" where
  "decode_float f b =
     (if length b = 4 then bind_res (get32 b 0) (\<lambda>w. Ok (float64_of_float32 w))
      else if length b = 8 then bind_res (get32 b 0) (\<lambda>hi. bind_res (get32 b 4) (\<lambda>lo. Ok (u64 hi lo)))
      else Err (FieldLength typeFloat (length b)))"

definition decode_time :: "value_env \<Rightarrow> field \<Rightarrow> bytes \<Rightarrow> location \<Rightarrow> (value_error, go_value) res" where
  "decode_time E f b loc =
     bind_res (decode_text E (charCCSID f) b) (\<lambda>s0.
       let s = TrimRight s0 [CHR '' '', CHR 0x00] in
       if baseType f = typeDate
       then (case parse_date s of Some c \<Rightarrow> Ok (VTime (ve_Date E loc c)) | None \<Rightarrow> Err (BadTime typeDate s))
       else if baseType f = typeTimestamp
       then (case parse_timestamp s of Some c \<Rightarrow> Ok (VTime (ve_Date E loc c)) | None \<Rightarrow> Err (BadTime typeTimestamp s))
       else Ok (VString (replace_char CHR ''.'' CHR '':'' s)))"

definition decodeValue :: "value_env \<Rightarrow> field \<Rightarrow> bytes \<Rightarrow> location \<Rightarrow> (value_error, go_value) res" where
  "decodeValue E f b loc =
     (let t = baseType f in
      if t = typeChar \<or> t = typeGraphic then
        (if f_ccsid f = ccsidBinary then Ok (VBytes b) else fmap_res VString (decode_text E (f_ccsid f) b))
      else if t \<in> {typeVarchar, typeLongVarchar, typeRowID, typeVarbinary, typeDatalink} then
        bind_res (varData b 1) (\<lambda>d.
          if f_ccsid f = ccsidBinary \<or> t = typeVarbinary \<or> t = typeRowID then Ok (VBytes d)
          else fmap_res VString (decode_text E (f_ccsid f) d))
      else if t \<in> {typeVargraphic, typeLongVargraph} then
        bind_res (varData b 2) (\<lambda>d.
          if f_ccsid f = ccsidBinary then Ok (VBytes d) else fmap_res VString (decode_text E (f_ccsid f) d))
      else if t = typeBinary then Ok (VBytes b)
      else if t \<in> {typeBLOB, typeCLOB, typeDBCLOB} then
        bind_res (lobData b (t = typeDBCLOB)) (\<lambda>d.
          if t = typeBLOB \<or> f_ccsid f = ccsidBinary then Ok (VBytes d)
          else fmap_res VString (decode_text E (f_ccsid f) d))
      else if t \<in> {typeSmallint, typeInteger, typeBigint} then
        bind_res (decode_integer f b) (\<lambda>v.
          Ok (if f_scale f > 0 then VString (scaleDigits (FormatInt v) (f_scale f)) else VInt v))
      else if t = typeFloat then fmap_res VFloat (decode_float f b)
      else if t = typePacked then
        fmap_res VString (wrap_err ValueDecimal (decodePacked b (f_precision f) (f_scale f)))
      else if t = typeZoned then
        fmap_res VString (wrap_err ValueDecimal (decodeZoned b (f_precision f) (f_scale f)))
      else if t \<in> {typeDate, typeTimestamp, typeTime} then decode_time E f b loc
      else Err (UnsupportedType t))"

section \<open>Encoding\<close>

fun bytesValue :: "go_value \<Rightarrow> (value_error, bytes) res" where
  "bytesValue (VBytes b) = Ok b"
| "bytesValue (VString s) = Ok (bytes_of_string s)"
| "bytesValue v = Err (WrongValue v)"

definition time_text :: "field \<Rightarrow> civil \<Rightarrow> string" where
  "time_text f c =
     (if baseType f = typeDate then format_date c
      else if baseType f = typeTime then format_time c
      else
        let s = format_timestamp c; frac = int (f_length f) - int (length s) - 1
        in if baseType f = typeTimestamp \<and> frac > 0 then s @ format_fraction (nat frac) c
           else if baseType f \<noteq> typeTimestamp then s @ format_fraction 6 c
           else s)"

fun stringValue :: "value_env \<Rightarrow> go_value \<Rightarrow> location \<Rightarrow> field \<Rightarrow> (value_error, string) res" where
  "stringValue E (VString s) loc f = Ok s"
| "stringValue E (VBytes b) loc f = Ok (string_of_bytes b)"
| "stringValue E (VInt n) loc f = Ok (FormatInt n)"
| "stringValue E (VFloat x) loc f = Ok (ve_FormatFloat E x)"
| "stringValue E (VBool x) loc f = Ok (if x then ''1'' else ''0'')"
| "stringValue E (VTime t) loc f = Ok (time_text f (ve_In E loc t))"

definition parse_int_text :: "go_value \<Rightarrow> string \<Rightarrow> (value_error, int) res" where
  "parse_int_text v s = (case ParseInt (TrimSpace s) of Some n \<Rightarrow> Ok n | None \<Rightarrow> Err (NotInteger v))"

fun intValue :: "go_value \<Rightarrow> (value_error, int) res" where
  "intValue (VInt n) = Ok n"
| "intValue (VBool x) = Ok (if x then 1 else 0)"
| "intValue (VFloat x) = (case int_of_float64 x of Some n \<Rightarrow> Ok n | None \<Rightarrow> Err (NotInteger (VFloat x)))"
| "intValue (VString s) = parse_int_text (VString s) s"
| "intValue (VBytes b) = parse_int_text (VBytes b) (string_of_bytes b)"
| "intValue v = Err (WrongValue v)"

definition parse_float_text :: "value_env \<Rightarrow> go_value \<Rightarrow> string \<Rightarrow> (value_error, 64 word) res" where
  "parse_float_text E v s = (case ve_ParseFloat E (TrimSpace s) of Some x \<Rightarrow> Ok x | None \<Rightarrow> Err (NotFloat v))"

fun floatValue :: "value_env \<Rightarrow> go_value \<Rightarrow> (value_error, 64 word) res" where
  "floatValue E (VFloat x) = Ok x"
| "floatValue E (VInt n) = Ok (float64_of_int n)"
| "floatValue E (VString s) = parse_float_text E (VString s) s"
| "floatValue E (VBytes b) = parse_float_text E (VBytes b) (string_of_bytes b)"
| "floatValue E v = Err (WrongValue v)"

fun decimalValue :: "value_env \<Rightarrow> go_value \<Rightarrow> (value_error, string) res" where
  "decimalValue E (VString s) = Ok (TrimSpace s)"
| "decimalValue E (VBytes b) = Ok (TrimSpace (string_of_bytes b))"
| "decimalValue E (VInt n) = Ok (FormatInt n)"
| "decimalValue E (VFloat x) =
     (if inf64 \<le> f64_mag x then Err (WrongValue (VFloat x)) else Ok (ve_FormatFloat E x))"
| "decimalValue E (VBool x) = Ok (if x then ''1'' else ''0'')"
| "decimalValue E v = Err (WrongValue v)"

text \<open>
  The loop of \<^verbatim>\<open>padText\<close> copies the pad while it fits. It does not end when the pad is empty,
  which a registered converter could make it.
\<close>

partial_function (option) pad_loop :: "bytes \<Rightarrow> bytes \<Rightarrow> nat \<Rightarrow> bytes option" where
  "pad_loop pad out n =
     (if n + length pad \<le> length out
      then pad_loop pad (take n out @ pad @ drop (n + length pad) out) (n + length pad)
      else Some out)"

definition padText :: "value_env \<Rightarrow> 16 word \<Rightarrow> nat \<Rightarrow> nat \<Rightarrow> string \<Rightarrow> (value_error, bytes) res" where
  "padText E t c len s =
     bind_res (encode_text E c s) (\<lambda>d.
       if length d > len then Err (DoesNotFit t (length d) len)
       else bind_res (encode_text E c '' '') (\<lambda>pad.
         case pad_loop pad (d @ replicate (len - length d) 0) (length d) of
           Some out \<Rightarrow> Ok out
         | None \<Rightarrow> Err NeverReturns))"

text \<open>The data of a varying-length or LOB field: bytes for binary fields, else text.\<close>

definition value_data :: "value_env \<Rightarrow> bool \<Rightarrow> field \<Rightarrow> go_value \<Rightarrow> location \<Rightarrow> (value_error, bytes) res" where
  "value_data E binary f v loc =
     (if binary then bytesValue v
      else bind_res (stringValue E v loc f) (\<lambda>s. encode_text E (f_ccsid f) s))"

definition encode_integer :: "field \<Rightarrow> int \<Rightarrow> (value_error, bytes) res" where
  "encode_integer f n =
     (if f_length f = 2 then
        (if n < - (2 ^ 15) \<or> n > 2 ^ 15 - 1 then Err (OutOfRange n 2) else Ok (be16 (of_int n)))
      else if f_length f = 4 then
        (if n < - (2 ^ 31) \<or> n > 2 ^ 31 - 1 then Err (OutOfRange n 4) else Ok (be32 (of_int n)))
      else if f_length f = 8 then Ok (be64 (of_int n))
      else Err (FieldLength (baseType f) (f_length f)))"

definition encodeValue :: "value_env \<Rightarrow> field \<Rightarrow> go_value \<Rightarrow> location \<Rightarrow> (value_error, bytes) res" where
  "encodeValue E f v loc =
     (let t = baseType f in
      if t = typeChar \<or> t = typeGraphic then
        (if f_ccsid f = ccsidBinary then
           bind_res (bytesValue v) (\<lambda>b.
             if length b > f_length f then Err (DoesNotFit t (length b) (f_length f)) else Ok (fit (f_length f) b))
         else bind_res (stringValue E v loc f) (\<lambda>s. padText E t (f_ccsid f) (f_length f) s))
      else if t \<in> {typeVarchar, typeLongVarchar, typeVarbinary, typeVargraphic, typeLongVargraph} then
        bind_res (value_data E (f_ccsid f = ccsidBinary \<or> t = typeVarbinary) f v loc) (\<lambda>d.
          if 2 + length d > f_length f then Err (DoesNotFit t (length d) (f_length f - 2))
          else
            let units = (if t = typeVargraphic \<or> t = typeLongVargraph then length d div 2 else length d)
            in Ok (fit (f_length f) (be16 (of_nat units) @ d)))
      else if t = typeBinary then
        bind_res (bytesValue v) (\<lambda>b.
          if length b > f_length f then Err (DoesNotFit t (length b) (f_length f)) else Ok (fit (f_length f) b))
      else if t \<in> {typeBLOB, typeCLOB, typeDBCLOB} then
        bind_res (value_data E (t = typeBLOB \<or> f_ccsid f = ccsidBinary) f v loc) (\<lambda>d.
          if 4 + length d > f_length f then Err (DoesNotFit t (length d) (f_length f - 4))
          else
            let n = (if t = typeDBCLOB then length d div 2 else length d)
            in Ok (fit (f_length f) (be32 (of_nat n) @ d)))
      else if t \<in> {typeSmallint, typeInteger, typeBigint} then
        (if f_scale f > 0 then Err (ScaledInteger t (f_scale f))
         else bind_res (intValue v) (encode_integer f))
      else if t = typeFloat then
        bind_res (floatValue E v) (\<lambda>x.
          if f_length f = 4 then Ok (be32 (float32_of_float64 x))
          else if f_length f = 8 then Ok (be64 x)
          else Err (FieldLength typeFloat (f_length f)))
      else if t = typePacked \<or> t = typeZoned then
        bind_res (decimalValue E v) (\<lambda>s.
        bind_res (wrap_err ValueDecimal (scaleToDigits s (f_precision f) (f_scale f))) (\<lambda>(digits, neg).
        wrap_err ValueDecimal
          (if t = typePacked then encodePacked (f_length f) digits neg else encodeZoned (f_length f) digits neg)))
      else if t \<in> {typeDate, typeTime, typeTimestamp} then
        bind_res (stringValue E v loc f) (\<lambda>s0.
        let s = (if t = typeTime then replace_char CHR '':'' CHR ''.'' s0 else s0)
        in padText E typeChar (charCCSID f) (f_length f) s)
      else Err (UnsupportedType t))"

section \<open>Lemmas: padding\<close>

lemma pad_loop_Some:
  "pad \<noteq> [] \<Longrightarrow> n \<le> length out \<Longrightarrow>
   pad_loop pad out n = Some (take n out @ concat (replicate ((length out - n) div length pad) pad)
     @ drop (n + (length out - n) div length pad * length pad) out)"
proof (induction "length out - n" arbitrary: n out rule: less_induct)
  case less
  show ?case
  proof (cases "n + length pad \<le> length out")
    case True
    let ?out = "take n out @ pad @ drop (n + length pad) out"
    have len: "length ?out = length out" using True by simp
    have d: "(length out - n) div length pad = Suc ((length out - (n + length pad)) div length pad)"
      using True less.prems(1) by (subst le_div_geq) simp_all
    have t: "take (n + length pad) ?out = take n out @ pad"
      "drop (n + length pad + k) ?out = drop (n + length pad + k) out" for k
      using True by (simp_all add: ac_simps)
    have "pad_loop pad ?out (n + length pad)
      = Some (take (n + length pad) ?out @ concat (replicate ((length ?out - (n + length pad)) div length pad) pad)
        @ drop (n + length pad + (length ?out - (n + length pad)) div length pad * length pad) ?out)"
    proof (rule less.hyps)
      have "0 < length pad" using less.prems(1) by simp
      then show "length ?out - (n + length pad) < length out - n" unfolding len using True by linarith
      show "n + length pad \<le> length ?out" unfolding len by (rule True)
    qed (rule less.prems(1))
    then show ?thesis
      using True unfolding t len d by (subst pad_loop.simps) (simp add: add.assoc)
  next
    case False
    then have "length out - n < length pad" using less.prems(2) by linarith
    then have "(length out - n) div length pad = 0" by simp
    with False show ?thesis by (subst pad_loop.simps) simp
  qed
qed

lemma pad_loop_Nil:
  assumes "n \<le> length out"
  shows "pad_loop [] out n = None"
proof -
  have "pad = [] \<longrightarrow> \<not> n \<le> length out" if "pad_loop pad out n = Some r" for pad out n r
    using that by (rule pad_loop.raw_induct [rotated]) (fastforce split: if_splits)
  then show ?thesis using assms by (cases "pad_loop [] out n") auto
qed

lemma encode_text_no_panic [panic_free, simp]: "encode_text E c s \<noteq> Panic"
  by (simp add: encode_text_def)

lemma decode_text_no_panic [panic_free, simp]: "decode_text E c b \<noteq> Panic"
  by (simp add: decode_text_def)

lemma encode_text_Ok_iff:
  "encode_text E c s = Ok b \<longleftrightarrow> (\<exists>e. ve_ccsids E c = Some e \<and> enc_Encode e s = Some b)"
  by (simp add: encode_text_def encodeString_Ok_iff)

lemma decode_text_Ok_iff:
  "decode_text E c b = Ok s \<longleftrightarrow> (\<exists>e. ve_ccsids E c = Some e \<and> enc_Decode e b = Some s)"
  by (simp add: decode_text_def decodeString_Ok_iff)

text \<open>What \<^verbatim>\<open>padText\<close> writes: the text, blanks as long as they fit, and zeros to the end.\<close>

lemma padText_cases:
  obtains (fails) e where "padText E t c len s = Err e" "e \<noteq> NeverReturns"
  | (loops) "padText E t c len s = Err NeverReturns" "encode_text E c '' '' = Ok []"
  | (padded) d pad where "encode_text E c s = Ok d" "encode_text E c '' '' = Ok pad" "pad \<noteq> []" "length d \<le> len"
      "padText E t c len s = Ok (d @ concat (replicate ((len - length d) div length pad) pad)
         @ replicate ((len - length d) mod length pad) 0)"
proof (cases "encode_text E c s")
  case d: (Ok d)
  show thesis
  proof (cases "length d \<le> len")
    case le: True
    show thesis
    proof (cases "encode_text E c '' ''")
      case pad: (Ok pad)
      let ?out = "d @ replicate (len - length d) 0"
      show thesis
      proof (cases "pad = []")
        case True
        then have "pad_loop pad ?out (length d) = None" using pad_loop_Nil [of "length d" ?out] by simp
        then show thesis using d le pad True by (intro loops) (simp_all add: padText_def)
      next
        case False
        let ?k = "(len - length d) div length pad"
        have "pad_loop pad ?out (length d) = Some (d @ concat (replicate ?k pad)
            @ replicate (len - length d - ?k * length pad) 0)"
          using pad_loop_Some [OF False, of "length d" ?out] by simp
        then show thesis
          using d le pad False by (intro padded [of d pad]) (simp_all add: padText_def minus_div_mult_eq_mod)
      qed
    next
      case (Err e)
      then have "e \<noteq> NeverReturns" by (cases "encodeString (ve_ccsids E) c '' ''") (auto simp: encode_text_def)
      with Err d le show thesis by (intro fails [of e]) (simp_all add: padText_def)
    qed simp
  next
    case False
    with d show thesis by (intro fails [of "DoesNotFit t (length d) len"]) (simp_all add: padText_def)
  qed
next
  case (Err e)
  then have "e \<noteq> NeverReturns" by (cases "encodeString (ve_ccsids E) c s") (auto simp: encode_text_def)
  with Err show thesis by (intro fails [of e]) (simp_all add: padText_def)
qed simp

lemma padText_no_panic [panic_free, simp]: "padText E t c len s \<noteq> Panic"
  by (cases rule: padText_cases [of E t c len s]) simp_all

lemma padText_length: "padText E t c len s = Ok b \<Longrightarrow> length b = len"
  by (cases rule: padText_cases [of E t c len s])
    (auto simp: length_concat sum_list_replicate comp_def)

lemma padText_NeverReturns: "padText E t c len s = Err NeverReturns \<Longrightarrow> encode_text E c '' '' = Ok []"
  by (cases rule: padText_cases [of E t c len s]) simp_all

text \<open>Text in a fixed-length field is read back with the blanks it was padded with.\<close>

lemma padText_decode:
  assumes "padText E t c len s = Ok b"
    and "ve_ccsids E c = Some e" "faithful e" "blank_padded e pad" "enc_Encode e '' '' = Some pad"
    and "\<And>d. enc_Encode e s = Some d \<Longrightarrow> length pad dvd len - length d"
  shows "\<exists>n. decode_text E c b = Ok (s @ replicate n CHR '' '')"
proof (cases rule: padText_cases [of E t c len s])
  case (padded d pad')
  then have d: "enc_Encode e s = Some d" and p: "pad' = pad"
    using assms(2,5) by (auto simp: encode_text_Ok_iff)
  let ?n = "(len - length d) div length pad"
  have "b = d @ concat (replicate ?n pad)"
    using padded(5) assms(1) assms(6) [OF d] by (simp add: p)
  moreover have "enc_Encode e (s @ replicate ?n CHR '' '') = Some (d @ concat (replicate ?n pad))"
    using assms(4) d unfolding blank_padded_def by blast
  ultimately have "enc_Decode e b = Some (s @ replicate ?n CHR '' '')"
    using assms(3) unfolding faithful_def by blast
  then show ?thesis using assms(2) by (auto simp: decode_text_Ok_iff)
qed (use assms(1) in simp_all)

section \<open>Lemmas: round trips\<close>

lemma varData_fit:
  assumes "2 + length d \<le> len" "unat (w :: 16 word) * unit = length d"
  shows "varData (fit len (be16 w @ d)) unit = Ok d"
  using assms by (simp add: varData_def fit_def wire_simps Let_def)

lemma lobData_fit:
  assumes "4 + length d \<le> len" "unat (w :: 32 word) * (if db then 2 else 1) = length d"
  shows "lobData (fit len (be32 w @ d)) db = Ok d"
  using assms by (cases db) (simp_all add: lobData_def fit_def wire_simps Let_def)

lemma int_fits:
  "- (2 ^ 15) \<le> n \<Longrightarrow> n < 2 ^ 15 \<Longrightarrow> sint (of_int n :: 16 word) = n"
  "- (2 ^ 31) \<le> n \<Longrightarrow> n < 2 ^ 31 \<Longrightarrow> sint (of_int n :: 32 word) = n"
  "- (2 ^ 63) \<le> n \<Longrightarrow> n < 2 ^ 63 \<Longrightarrow> sint (of_int n :: 64 word) = n"
  by (simp_all add: signed_of_int signed_take_bit_int_eq_self)

lemma be64_halves: "get32 (be64 x) 0 = (Ok (ucast (drop_bit 32 x)) :: ('e, _) res)"
  "get32 (be64 x) 4 = (Ok (ucast x) :: ('e, _) res)"
  by (simp_all add: be64_def wire_simps)

lemma integer_round_trip:
  assumes "encode_integer f n = Ok b" "- (2 ^ 63) \<le> n" "n < 2 ^ 63"
  shows "length b = f_length f \<and> decode_integer f b = Ok n"
proof -
  consider "f_length f = 2" "- (2 ^ 15) \<le> n" "n < 2 ^ 15" "b = be16 (of_int n)"
    | "f_length f = 4" "- (2 ^ 31) \<le> n" "n < 2 ^ 31" "b = be32 (of_int n)"
    | "f_length f = 8" "b = be64 (of_int n)"
    using assms(1) by (auto simp: encode_integer_def split: if_splits)
  then show ?thesis
    by cases (use assms(2,3) in \<open>simp_all add: decode_integer_def wire_simps be64_halves int_fits\<close>)
qed

lemma float_round_trip:
  "f_length f = 8 \<Longrightarrow> decode_float f (be64 x) = Ok x"
  by (simp add: decode_float_def be64_halves)

text \<open>Fields by the shape of their data.\<close>

definition varying_byte_types :: "16 word set" where
  "varying_byte_types = {typeVarchar, typeLongVarchar, typeVarbinary}"

definition varying_graphic_types :: "16 word set" where
  "varying_graphic_types = {typeVargraphic, typeLongVargraph}"

definition lob_types :: "16 word set" where
  "lob_types = {typeBLOB, typeCLOB, typeDBCLOB}"

definition integer_types :: "16 word set" where
  "integer_types = {typeSmallint, typeInteger, typeBigint}"

lemmas type_set_defs = varying_byte_types_def varying_graphic_types_def lob_types_def integer_types_def

text \<open>Whether the field holds bytes and not text.\<close>

definition binary_field :: "field \<Rightarrow> bool" where
  "binary_field f \<longleftrightarrow> f_ccsid f = ccsidBinary \<or> baseType f \<in> {typeVarbinary, typeBLOB, typeBinary}"

definition double_byte :: "field \<Rightarrow> bool" where
  "double_byte f \<longleftrightarrow> baseType f \<in> {typeVargraphic, typeLongVargraph, typeDBCLOB}"

text \<open>What is read back when \<open>d\<close> are the data bytes of the field.\<close>

definition data_value :: "value_env \<Rightarrow> field \<Rightarrow> bytes \<Rightarrow> (value_error, go_value) res" where
  "data_value E f d =
     (if binary_field f then Ok (VBytes d) else fmap_res VString (decode_text E (f_ccsid f) d))"

lemma decode_varying:
  assumes "baseType f \<in> varying_byte_types \<union> varying_graphic_types"
    and "varData b (if double_byte f then 2 else 1) = Ok d"
  shows "decodeValue E f b loc = data_value E f d"
  using assms
  by (auto simp: decodeValue_def data_value_def binary_field_def double_byte_def type_set_defs type_defs)

lemma decode_lob:
  assumes "baseType f \<in> lob_types" "lobData b (double_byte f) = Ok d"
  shows "decodeValue E f b loc = data_value E f d"
  using assms
  by (auto simp: decodeValue_def data_value_def binary_field_def double_byte_def type_set_defs type_defs)

lemma encode_varying:
  assumes "baseType f \<in> varying_byte_types \<union> varying_graphic_types" "encodeValue E f v loc = Ok b"
  obtains d where "value_data E (binary_field f) f v loc = Ok d" "2 + length d \<le> f_length f"
    "b = fit (f_length f) (be16 (of_nat (if double_byte f then length d div 2 else length d)) @ d)"
  using assms
  by (auto simp: encodeValue_def binary_field_def double_byte_def type_set_defs type_defs bind_res_Ok_iff
      Let_def split: if_splits)

lemma encode_lob:
  assumes "baseType f \<in> lob_types" "encodeValue E f v loc = Ok b"
  obtains d where "value_data E (binary_field f) f v loc = Ok d" "4 + length d \<le> f_length f"
    "b = fit (f_length f) (be32 (of_nat (if double_byte f then length d div 2 else length d)) @ d)"
  using assms
  by (auto simp: encodeValue_def binary_field_def double_byte_def type_set_defs type_defs bind_res_Ok_iff
      Let_def split: if_splits)

text \<open>The size of a varying-length or LOB field that its length prefix can count.\<close>

definition prefix_fits :: "field \<Rightarrow> bool" where
  "prefix_fits f \<longleftrightarrow> f_length f \<le> (if baseType f \<in> lob_types then 2 ^ 32 else 2 ^ 16)"

definition prefixed :: "field \<Rightarrow> bool" where
  "prefixed f \<longleftrightarrow> baseType f \<in> varying_byte_types \<union> varying_graphic_types \<union> lob_types"

lemma prefixed_round_trip:
  assumes "encodeValue E f v loc = Ok b" "prefixed f" "prefix_fits f"
    and "\<And>d. value_data E (binary_field f) f v loc = Ok d \<Longrightarrow> double_byte f \<Longrightarrow> even (length d)"
  shows "length b = f_length f \<and>
    (\<exists>d. value_data E (binary_field f) f v loc = Ok d \<and> decodeValue E f b loc = data_value E f d)"
proof (cases "baseType f \<in> lob_types")
  case True
  then obtain d where d: "value_data E (binary_field f) f v loc = Ok d" "4 + length d \<le> f_length f"
    and b: "b = fit (f_length f) (be32 (of_nat (if double_byte f then length d div 2 else length d)) @ d)"
    using encode_lob assms(1) by blast
  have "length d < 2 ^ 32" "length d div 2 < 2 ^ 32"
    using d(2) assms(3) True by (simp_all add: prefix_fits_def)
  moreover have "double_byte f \<Longrightarrow> length d div 2 * 2 = length d" using assms(4) [OF d(1)] by simp
  ultimately have "lobData b (double_byte f) = Ok d"
    unfolding b by (intro lobData_fit d(2)) (simp add: unat_of_nat32)
  then show ?thesis using decode_lob [OF True, of b d E loc] d(1) b by auto
next
  case False
  then have v: "baseType f \<in> varying_byte_types \<union> varying_graphic_types"
    using assms(2) by (simp add: prefixed_def)
  then obtain d where d: "value_data E (binary_field f) f v loc = Ok d" "2 + length d \<le> f_length f"
    and b: "b = fit (f_length f) (be16 (of_nat (if double_byte f then length d div 2 else length d)) @ d)"
    using encode_varying assms(1) by blast
  have "length d < 2 ^ 16" "length d div 2 < 2 ^ 16"
    using d(2) assms(3) False by (simp_all add: prefix_fits_def)
  moreover have "double_byte f \<Longrightarrow> length d div 2 * 2 = length d" using assms(4) [OF d(1)] by simp
  ultimately have "varData b (if double_byte f then 2 else 1) = Ok d"
    unfolding b by (intro varData_fit d(2)) (simp add: unat_of_nat16)
  then show ?thesis using decode_varying [OF v, of b d E loc] d(1) b by auto
qed

lemma encodeValue_length:
  assumes "encodeValue E f v loc = Ok b"
  shows "length b = f_length f"
proof -
  have e: "encode_integer f n = Ok b \<Longrightarrow> length b = f_length f" for n
    by (auto simp: encode_integer_def split: if_splits)
  have p: "encodePacked n ds neg = Ok b \<Longrightarrow> length b = n" for n ds neg
    by (auto simp: encodePacked_def Let_def split: if_splits)
  have z: "encodeZoned n ds neg = Ok b \<Longrightarrow> length b = n" for n ds neg
    by (auto simp: encodeZoned_def Let_def bind_res_Ok_iff split: if_splits)
  show ?thesis
    using assms unfolding encodeValue_def Let_def
    by (auto simp: bind_res_Ok_iff split: if_splits dest: e p z padText_length)
qed

lemma bytesValue_no_panic [panic_free, simp]: "bytesValue v \<noteq> Panic"
  by (cases v) simp_all

lemma stringValue_no_panic [panic_free, simp]: "stringValue E v loc f \<noteq> Panic"
  by (cases v) simp_all

lemma intValue_no_panic [panic_free, simp]: "intValue v \<noteq> Panic"
  by (cases v) (simp_all add: parse_int_text_def split: option.split)

lemma floatValue_no_panic [panic_free, simp]: "floatValue E v \<noteq> Panic"
  by (cases v) (simp_all add: parse_float_text_def split: option.split)

lemma decimalValue_no_panic [panic_free, simp]: "decimalValue E v \<noteq> Panic"
  by (cases v) simp_all

lemma encode_integer_no_panic [panic_free, simp]: "encode_integer f n \<noteq> Panic"
  by (simp add: encode_integer_def)

lemma value_data_no_panic [panic_free, simp]: "value_data E bin f v loc \<noteq> Panic"
  by (simp add: value_data_def bind_res_Panic_iff)

lemma varData_no_panic [panic_free, simp]: "varData b u \<noteq> Panic"
  by (auto simp: varData_def bind_res_Panic_iff Let_def)

lemma lobData_no_panic [panic_free, simp]: "lobData b db \<noteq> Panic"
  by (auto simp: lobData_def bind_res_Panic_iff Let_def)

lemma decode_integer_no_panic [panic_free, simp]: "decode_integer f b \<noteq> Panic"
  by (auto simp: decode_integer_def bind_res_Panic_iff)

lemma decode_float_no_panic [panic_free, simp]: "decode_float f b \<noteq> Panic"
  by (auto simp: decode_float_def bind_res_Panic_iff)

lemma decode_time_no_panic [panic_free, simp]: "decode_time E f b loc \<noteq> Panic"
  by (auto simp: decode_time_def bind_res_Panic_iff Let_def split: option.splits)

lemma scaleToDigits_sign: "scaleToDigits s p sc = Ok (ds, True) \<Longrightarrow> ds \<noteq> []"
  unfolding scaleToDigits_def Let_def
  by (clarsimp simp: Trim_Nil_iff split: prod.splits if_splits)

lemma encode_decimal_no_panic [panic_free]:
  "bind_res (wrap_err ValueDecimal (scaleToDigits s p sc)) (\<lambda>(digits, neg).
     wrap_err ValueDecimal (if c then encodePacked n digits neg else encodeZoned n digits neg)) \<noteq> Panic"
proof (cases "scaleToDigits s p sc")
  case (Ok r)
  then show ?thesis
    using scaleToDigits_sign [of s p sc "fst r"] by (cases r; cases "snd r") (auto simp: encodeZoned_Panic_iff)
qed simp_all

lemma encodeValue_no_panic [panic_free, simp]: "encodeValue E f v loc \<noteq> Panic"
  unfolding encodeValue_def Let_def by (intro panic_free)

lemma decodeValue_Panic_iff:
  "decodeValue E f b loc = Panic \<longleftrightarrow> baseType f = typeZoned \<and> f_precision f = 0 \<and> b = []"
proof (cases "baseType f = typeZoned")
  case True
  then have "decodeValue E f b loc
      = fmap_res VString (wrap_err ValueDecimal (decodeZoned b (f_precision f) (f_scale f)))"
    by (simp add: decodeValue_def type_defs)
  with True show ?thesis by (simp add: decodeZoned_Panic_iff)
next
  case False
  then have "decodeValue E f b loc \<noteq> Panic"
    unfolding decodeValue_def Let_def by (intro panic_free) simp
  with False show ?thesis by simp
qed

lemma wrap_err_Err_iff: "wrap_err w m = Err e \<longleftrightarrow> (\<exists>e'. m = Err e' \<and> e = w e')"
  by (cases m) auto

text \<open>The only way not to return is a converter that encodes a blank as nothing.\<close>

named_theorems returns \<open>rules that show that a computation returns\<close>

lemma returns_bind [returns]:
  "m \<noteq> Err NeverReturns \<Longrightarrow> (\<And>x. f x \<noteq> Err NeverReturns) \<Longrightarrow> bind_res m f \<noteq> Err NeverReturns"
  by (auto simp: bind_res_Err_iff)

lemma returns_if [returns]:
  "a \<noteq> Err NeverReturns \<Longrightarrow> b \<noteq> Err NeverReturns \<Longrightarrow> (if c then a else b) \<noteq> Err NeverReturns"
  by simp

lemma returns_split [returns]:
  "(\<And>x y. f x y \<noteq> Err NeverReturns) \<Longrightarrow> (case p of (x, y) \<Rightarrow> f x y) \<noteq> Err NeverReturns"
  by (cases p) simp

lemma returns_basic [returns]:
  "Ok x \<noteq> Err NeverReturns" "Err (DoesNotFit t n k) \<noteq> Err NeverReturns"
  "Err (FieldLength t n) \<noteq> Err NeverReturns" "Err (ScaledInteger t n) \<noteq> Err NeverReturns"
  "Err (UnsupportedType t) \<noteq> Err NeverReturns" "wrap_err ValueDecimal r \<noteq> Err NeverReturns"
  "encode_text E c s \<noteq> Err NeverReturns" "encode_integer f i \<noteq> Err NeverReturns"
  by (simp_all add: wrap_err_Err_iff encode_text_def encode_integer_def)

lemma returns_values [returns]:
  "bytesValue v \<noteq> Err NeverReturns" "stringValue E v loc f \<noteq> Err NeverReturns"
  "intValue v \<noteq> Err NeverReturns" "floatValue E v \<noteq> Err NeverReturns"
  "decimalValue E v \<noteq> Err NeverReturns"
  by (cases v; simp add: parse_int_text_def parse_float_text_def split: option.split)+

lemma encodeValue_returns:
  assumes "\<And>c. encode_text E c '' '' \<noteq> Ok []"
  shows "encodeValue E f v loc \<noteq> Err NeverReturns"
proof -
  have p: "padText E t c len s \<noteq> Err NeverReturns" for t c len s
    using padText_NeverReturns assms by blast
  show ?thesis
    unfolding encodeValue_def value_data_def Let_def by (intro returns p)
qed

text \<open>Blanks after a text that ends in a digit are trimmed off, and nothing else.\<close>

lemma TrimRight_padded:
  assumes "s \<noteq> []" "is_digit (last s)"
  shows "TrimRight (s @ replicate n CHR '' '') [CHR '' '', CHR 0x00] = s"
proof -
  have "last s \<notin> {CHR '' '', CHR 0x00}" using assms(2) by (auto simp: is_digit_def)
  then show ?thesis using assms(1) by (simp add: TrimRight_def trim_right_id)
qed

definition written_time :: "field \<Rightarrow> civil \<Rightarrow> string" where
  "written_time f c =
     (if baseType f = typeTime then replace_char CHR '':'' CHR ''.'' (time_text f c) else time_text f c)"

lemma encode_time:
  assumes "encodeValue E f (VTime t) loc = Ok b" "baseType f \<in> {typeDate, typeTime, typeTimestamp}"
  shows "padText E typeChar (charCCSID f) (f_length f) (written_time f (ve_In E loc t)) = Ok b"
  using assms by (auto simp: encodeValue_def written_time_def type_defs)

lemma decode_written_time:
  assumes "padText E typeChar (charCCSID f) (f_length f) s = Ok b" "s \<noteq> []" "is_digit (last s)"
    and "baseType f \<in> {typeDate, typeTime, typeTimestamp}"
    and "ve_ccsids E (charCCSID f) = Some e" "faithful e" "blank_padded e pad" "enc_Encode e '' '' = Some pad"
    and "\<forall>s d. enc_Encode e s = Some d \<longrightarrow> length pad dvd f_length f - length d"
  shows "decodeValue E f b loc =
    (if baseType f = typeDate
     then (case parse_date s of Some c \<Rightarrow> Ok (VTime (ve_Date E loc c)) | None \<Rightarrow> Err (BadTime typeDate s))
     else if baseType f = typeTimestamp
     then (case parse_timestamp s of Some c \<Rightarrow> Ok (VTime (ve_Date E loc c)) | None \<Rightarrow> Err (BadTime typeTimestamp s))
     else Ok (VString (replace_char CHR ''.'' CHR '':'' s)))"
proof -
  obtain n where n: "decode_text E (charCCSID f) b = Ok (s @ replicate n CHR '' '')"
    using padText_decode [OF assms(1,5-8)] assms(9) by blast
  have "decodeValue E f b loc = decode_time E f b loc"
    using assms(4) by (auto simp: decodeValue_def type_defs)
  then show ?thesis
    unfolding decode_time_def n bind_res.simps Let_def TrimRight_padded [OF assms(2,3)] .
qed

lemma replace_char_digits:
  assumes "a \<notin> set s"
  shows "replace_char a b s = s"
  unfolding replace_char_def using assms by (intro map_idI) auto

lemma colon_not_in_time: "valid_civil c \<Longrightarrow> CHR '':'' \<notin> set (format_time c)"
proof -
  assume v: "valid_civil c"
  note less = valid_civil_less [OF v]
  have "list_all is_digit (pad_nat 2 (cv_hour c))" "list_all is_digit (pad_nat 2 (cv_min c))"
    "list_all is_digit (pad_nat 2 (cv_sec c))"
    using pad_nat_simps(2) [OF less(4)] pad_nat_simps(2) [OF less(5)] pad_nat_simps(2) [OF less(6)] by simp_all
  moreover have "\<not> is_digit CHR '':''" by (simp add: is_digit_def)
  ultimately show ?thesis by (auto simp: format_time_def list_all_iff)
qed

lemma written_time_eq:
  assumes "valid_civil c"
  shows "baseType f = typeDate \<Longrightarrow> written_time f c = format_date c"
    and "baseType f = typeTime \<Longrightarrow> written_time f c = format_time c"
    and "baseType f = typeTimestamp \<Longrightarrow> written_time f c = format_timestamp c
      @ (if 20 < f_length f then format_fraction (f_length f - 20) c else [])"
proof -
  have n: "nat (int (f_length f) - 20) = f_length f - 20" by simp
  show "baseType f = typeTimestamp \<Longrightarrow> written_time f c = format_timestamp c
      @ (if 20 < f_length f then format_fraction (f_length f - 20) c else [])"
    by (auto simp: written_time_def time_text_def type_defs length_format_timestamp [OF assms] Let_def n)
qed (simp_all add: written_time_def time_text_def type_defs replace_char_digits [OF colon_not_in_time [OF assms]])

text \<open>Text and decimals in the fields that are not a plain copy of their data.\<close>

lemma text_round_trip:
  assumes "encodeValue E f (VString s) loc = Ok b" "prefixed f" "prefix_fits f" "\<not> binary_field f"
    and "ve_ccsids E (f_ccsid f) = Some e" "faithful e"
    and "double_byte f \<longrightarrow> (\<forall>d. enc_Encode e s = Some d \<longrightarrow> even (length d))"
  shows "decodeValue E f b loc = Ok (VString s)"
proof -
  have "value_data E (binary_field f) f (VString s) loc = Ok d \<longleftrightarrow> enc_Encode e s = Some d" for d
    using assms(4-6) by (simp add: value_data_def encode_text_Ok_iff)
  then obtain d where "enc_Encode e s = Some d" "decodeValue E f b loc = data_value E f d"
    using prefixed_round_trip [OF assms(1-3)] assms(7) by auto
  then show ?thesis using assms(4-6) by (simp add: data_value_def decode_text_Ok_iff faithful_def)
qed

lemma padded_text_round_trip:
  assumes "encodeValue E f (VString s) loc = Ok b" "baseType f \<in> {typeChar, typeGraphic}" "f_ccsid f \<noteq> ccsidBinary"
    and "ve_ccsids E (f_ccsid f) = Some e" "faithful e" "blank_padded e pad" "enc_Encode e '' '' = Some pad"
    and "\<forall>d. enc_Encode e s = Some d \<longrightarrow> length pad dvd f_length f - length d"
  shows "\<exists>n. decodeValue E f b loc = Ok (VString (s @ replicate n CHR '' ''))"
proof -
  have "padText E (baseType f) (f_ccsid f) (f_length f) s = Ok b"
    using assms(1-3) by (auto simp: encodeValue_def)
  from padText_decode [OF this assms(4-7)] assms(8) obtain n
    where "decode_text E (f_ccsid f) b = Ok (s @ replicate n CHR '' '')" by blast
  then show ?thesis using assms(2,3) by (auto simp: decodeValue_def)
qed

lemma decimal_field_round_trip:
  assumes "encodeValue E f v loc = Ok b" "decimalValue E v = Ok s" "baseType f \<in> {typePacked, typeZoned}" "0 < f_precision f"
  shows "\<exists>m t. representable s (f_precision f) (f_scale f) m
      \<and> decodeValue E f b loc = Ok (VString t) \<and> decimal_of t = Some (m, f_scale f)"
proof -
  obtain ds neg where ds: "scaleToDigits s (f_precision f) (f_scale f) = Ok (ds, neg)"
    and b: "(if baseType f = typePacked then encodePacked (f_length f) ds neg
        else encodeZoned (f_length f) ds neg) = Ok b"
    using assms(1-3) by (auto simp: encodeValue_def type_defs bind_res_Ok_iff split: prod.splits)
  obtain m where m: "representable s (f_precision f) (f_scale f) m"
    using scaleToDigits_Ok_representable [OF ds] by blast
  have len: "baseType f = typePacked \<Longrightarrow> f_length f = length ds div 2 + 1"
    "baseType f \<noteq> typePacked \<Longrightarrow> f_length f = length ds"
    using b by (auto simp: encodePacked_def encodeZoned_def split: if_splits)
  have "length ds = f_precision f" using scaleToDigits_representable [OF m] ds by auto
  then show ?thesis
    using stored_decimal [OF m] ds b len assms(3,4) m
    by (cases "baseType f = typePacked") (auto simp: decodeValue_def type_defs)
qed

section \<open>Properties\<close>

text \<open>The condition on double-byte data is needed: of an odd number of bytes for a binary
  VARGRAPHIC field, the last is dropped without an error.\<close>

definition vargraphic4 :: field where
  "vargraphic4 = \<lparr>f_sqlType = 464, f_length = 6, f_scale = 0, f_precision = 0, f_ccsid = 65535, f_name = []\<rparr>"

lemma odd_graphic_data_loses_a_byte:
  "\<exists>b. encodeValue E vargraphic4 (VBytes [1, 2, 3]) loc = Ok b
     \<and> decodeValue E vargraphic4 b loc = Ok (VBytes [1, 2])"
proof -
  have t: "baseType vargraphic4 = 464" by (simp add: vargraphic4_def baseType_def)
  have f: "f_ccsid vargraphic4 = 65535" "f_length vargraphic4 = 6" by (simp_all add: vargraphic4_def)
  have b: "fit 6 (be16 1 @ [1, 2, 3]) = [0, 1, 1, 2, 3, 0]" by (simp add: fit_def be16_def)
  have "encodeValue E vargraphic4 (VBytes [1, 2, 3]) loc = Ok [0, 1, 1, 2, 3, 0]"
    unfolding encodeValue_def t type_defs by (simp add: value_data_def f ccsidBinary_def b)
  moreover have "varData [0, 1, 1, 2, 3, 0] 2 = Ok [1, 2]"
    by (simp add: varData_def get16_def u16_def go_slice_def)
  then have "decodeValue E vargraphic4 [0, 1, 1, 2, 3, 0] loc = Ok (VBytes [1, 2])"
    unfolding decodeValue_def t type_defs by (simp add: f ccsidBinary_def)
  ultimately show ?thesis by blast
qed


definition text_env :: value_env where
  "text_env = \<lparr>ve_ccsids = [37 \<mapsto> byte_encoding], ve_In = (\<lambda>loc t. \<lparr>cv_year = 2024, cv_month = 2, cv_day = 29,
     cv_hour = 12, cv_min = 30, cv_sec = 59, cv_nsec = 123456789\<rparr>), ve_Date = (\<lambda>loc c. cv_year c),
     ve_FormatFloat = (\<lambda>x. []), ve_ParseFloat = (\<lambda>s. None)\<rparr>"

definition varchar5 :: field where
  "varchar5 = \<lparr>f_sqlType = 449, f_length = 7, f_scale = 0, f_precision = 0, f_ccsid = 37, f_name = []\<rparr>"


text \<open>C40. Encoding a value never panics, and it always returns when no converter encodes a
  blank as nothing; decoding a field panics only for a NUMERIC column described with no digits
  at all, whose last byte the code reads without looking.\<close>

theorem values_panic_only_for_empty_numeric:
  "encodeValue E f v loc \<noteq> Panic
   \<and> ((\<forall>c. encode_text E c '' '' \<noteq> Ok []) \<longrightarrow> encodeValue E f v loc \<noteq> Err NeverReturns)
   \<and> (decodeValue E f b loc = Panic \<longleftrightarrow> baseType f = typeZoned \<and> f_precision f = 0 \<and> b = [])"
  using encodeValue_returns [of E f v loc] decodeValue_Panic_iff [of E f b loc] by simp

theorem values_panic_only_for_empty_numeric_witness:
  "encodeValue text_env varchar5 (VString ''abc'') 0 \<noteq> Err NeverReturns"
proof -
  have "encode_text text_env c '' '' \<noteq> Ok []" for c
    by (simp add: encode_text_Ok_iff text_env_def byte_encoding_def bytes_of_string_def)
  then show ?thesis
    using values_panic_only_for_empty_numeric [of text_env varchar5 "VString ''abc''" 0] by blast
qed

text \<open>C17. A point in time stored in a DATE or TIMESTAMP field is read back as the same civil
  date and time in the location of the connection: without the time of day for a DATE, and
  with the nanoseconds cut down to the digits the field has room for, at most nine, for a
  TIMESTAMP; in a TIME field it is read back as its time of day.\<close>

theorem times_round_trip:
  assumes "encodeValue E f (VTime t) loc = Ok b" "ve_In E loc t = c" "valid_civil c"
    and "ve_ccsids E (charCCSID f) = Some e" "faithful e" "blank_padded e pad" "enc_Encode e '' '' = Some pad"
    and "\<forall>s d. enc_Encode e s = Some d \<longrightarrow> length pad dvd f_length f - length d"
  shows "(baseType f = typeDate \<longrightarrow> decodeValue E f b loc
        = Ok (VTime (ve_Date E loc (c\<lparr>cv_hour := 0, cv_min := 0, cv_sec := 0, cv_nsec := 0\<rparr>))))
    \<and> (baseType f = typeTimestamp \<longrightarrow> decodeValue E f b loc
        = Ok (VTime (ve_Date E loc
            (c\<lparr>cv_nsec := cv_nsec c - cv_nsec c mod 10 ^ (9 - min (f_length f - 20) 9)\<rparr>))))
    \<and> (baseType f = typeTime \<longrightarrow> decodeValue E f b loc
        = Ok (VString (replace_char CHR ''.'' CHR '':'' (format_time c))))"
proof -
  note ends = time_texts_end_in_digit [OF assms(3)]
  have d: "decodeValue E f b loc =
    (if baseType f = typeDate
     then (case parse_date s of Some c \<Rightarrow> Ok (VTime (ve_Date E loc c)) | None \<Rightarrow> Err (BadTime typeDate s))
     else if baseType f = typeTimestamp
     then (case parse_timestamp s of Some c \<Rightarrow> Ok (VTime (ve_Date E loc c)) | None \<Rightarrow> Err (BadTime typeTimestamp s))
     else Ok (VString (replace_char CHR ''.'' CHR '':'' s)))"
    if "baseType f \<in> {typeDate, typeTime, typeTimestamp}" "s = written_time f c" "s \<noteq> []" "is_digit (last s)" for s
    using decode_written_time [OF _ that(3,4,1) assms(4-8), of b loc] encode_time [OF assms(1) that(1)]
    by (simp add: that(2) assms(2))
  have ns: "cv_nsec c < 10 ^ 9" by (rule valid_civil_less [OF assms(3)])
  have "decodeValue E f b loc = Ok (VTime (ve_Date E loc
      (c\<lparr>cv_nsec := cv_nsec c - cv_nsec c mod 10 ^ (9 - min (f_length f - 20) 9)\<rparr>)))"
    if t: "baseType f = typeTimestamp"
  proof (cases "20 < f_length f")
    case True
    then show ?thesis
      using d [of "written_time f c"] ends(4) [of "f_length f - 20"] written_time_eq(3) [OF assms(3) t]
        parse_timestamp_format(2) [OF assms(3), of "f_length f - 20"] t
      by (simp add: type_defs format_fraction_def)
  next
    case False
    then show ?thesis
      using d [of "written_time f c"] ends(3) written_time_eq(3) [OF assms(3) t]
        parse_timestamp_format(1) [OF assms(3)] t ns
      by (simp add: type_defs)
  qed
  then show ?thesis
    using d [of "format_date c"] d [of "format_time c"] ends written_time_eq(1,2) [OF assms(3)]
      parse_date_format [OF assms(3)]
    by (simp add: type_defs)
qed

definition date_field :: field where
  "date_field = \<lparr>f_sqlType = 384, f_length = 10, f_scale = 0, f_precision = 0, f_ccsid = 0, f_name = []\<rparr>"

theorem times_round_trip_witness:
  "\<exists>b. encodeValue text_env date_field (VTime 0) 0 = Ok b \<and> decodeValue text_env date_field b 0 = Ok (VTime 2024)"
proof -
  let ?c = "\<lparr>cv_year = 2024, cv_month = 2, cv_day = 29, cv_hour = 12, cv_min = 30, cv_sec = 59, cv_nsec = 123456789\<rparr>"
  have t: "baseType date_field = typeDate" by (simp add: date_field_def baseType_def type_defs)
  have c: "ve_In text_env 0 0 = ?c" "valid_civil ?c"
    by (simp_all add: text_env_def valid_civil_def valid_day_def days_in_def leap_year_def)
  have e: "ve_ccsids text_env (charCCSID date_field) = Some byte_encoding"
    by (simp add: text_env_def date_field_def charCCSID_def ccsidEBCDIC37_def)
  have sp: "enc_Encode byte_encoding '' '' = Some [0x20]"
    by (simp add: byte_encoding_def bytes_of_string_def byte_of_char_def)
  obtain b where b: "encodeValue text_env date_field (VTime 0) 0 = Ok b"
  proof -
    let ?s = "written_time date_field ?c"
    have "length (format_date ?c) \<le> 10"
      using valid_civil_less [OF c(2)] pad_nat_simps(1) by (simp add: format_date_def pad_int_def)
    then have "length (bytes_of_string ?s) \<le> 10" using written_time_eq(1) [OF c(2) t] by simp
    moreover have "encode_text text_env 37 s = Ok (bytes_of_string s)" for s
      by (simp add: encode_text_Ok_iff text_env_def byte_encoding_def)
    ultimately have "padText text_env typeChar (charCCSID date_field) (f_length date_field) ?s \<noteq> Err e" for e
      using sp by (cases rule: padText_cases [of text_env typeChar "charCCSID date_field" "f_length date_field" ?s])
        (auto simp: padText_def charCCSID_def date_field_def ccsidEBCDIC37_def byte_encoding_def bytes_of_string_def
          split: option.splits)
    then obtain b where "padText text_env typeChar (charCCSID date_field) (f_length date_field) ?s = Ok b"
      using padText_no_panic by (cases "padText text_env typeChar (charCCSID date_field) (f_length date_field) ?s") auto
    then have "encodeValue text_env date_field (VTime 0) 0 = Ok b"
      using t c(1) by (simp add: encodeValue_def written_time_def type_defs)
    then show thesis by (rule that)
  qed
  have "\<forall>s d. enc_Encode byte_encoding s = Some d \<longrightarrow> length [0x20 :: byte] dvd f_length date_field - length d"
    by simp
  from times_round_trip [OF b c e faithful_byte_encoding blank_padded_byte_encoding sp this] b t show ?thesis
    by (simp add: text_env_def)
qed

end
