(* ===== verification/Connection.thy ===== *)
theory Connection
  imports Datastream
begin

text \<open>
  \<^verbatim>\<open>as400/conn.go\<close>: a connection carries one exchange at a time. The network and the
  clock are the environment: for every exchange that gets as far as using them, the next
  entry of a script says what they do. A theorem that holds for every script holds for
  every server, network and schedule.
\<close>

section \<open>The environment\<close>

datatype ctx_error = Canceled | DeadlineExceeded

record go_context =
  ctx_deadline :: "int option"      \<comment> \<open>\<^verbatim>\<open>ctx.Deadline()\<close>\<close>
  ctx_cancellable :: bool           \<comment> \<open>\<^verbatim>\<open>ctx.Done() != nil\<close>\<close>

definition background :: go_context where
  "background = \<lparr>ctx_deadline = None, ctx_cancellable = False\<rparr>"

text \<open>
  One exchange as the environment sees it: \<^verbatim>\<open>ctx.Err()\<close> and the time when it starts
  (a context may be cancelled between two exchanges of one operation), whether \<^verbatim>\<open>SetDeadline\<close> or
  \<^verbatim>\<open>Write\<close> fails, the bytes that arrive before reading stops (complete, or cut short by a
  timeout, a reset or the end of the stream), whether the cancellation watcher took its
  \<^verbatim>\<open>ctx.Done()\<close> branch, and the clock and context as \<^verbatim>\<open>wrapIOError\<close> finds them.
\<close>

record io_event =
  ev_ctx_done :: "ctx_error option"
  ev_now :: int
  ev_deadline_fails :: bool
  ev_write_fails :: bool
  ev_arrives :: bytes
  ev_cancel_fires :: bool
  ev_ctx_err :: "ctx_error option"
  ev_later :: int

text \<open>When the script is over, the network is dead.\<close>

definition dead_event :: io_event where
  "dead_event = \<lparr>ev_ctx_done = None, ev_now = 0, ev_deadline_fails = True, ev_write_fails = True, ev_arrives = [],
     ev_cancel_fires = False, ev_ctx_err = None, ev_later = 0\<rparr>"

section \<open>The connection\<close>

record connection =
  correlation :: "32 word"
  ioTimeout :: int
  net_closed :: bool
  sock_deadline :: "int option"   \<comment> \<open>the deadline now set on the socket\<close>
  inbuf :: bytes                  \<comment> \<open>received, not yet read\<close>
  written :: "bytes list"         \<comment> \<open>every frame handed to \<^verbatim>\<open>Write\<close>\<close>
  script :: "io_event list"

text \<open>The ports of \<^verbatim>\<open>serverid.go\<close>, and \<^verbatim>\<open>DialOptions\<close>.\<close>

definition PortSignonPlain :: int where "PortSignonPlain = 8476"
definition PortSignonSecure :: int where "PortSignonSecure = 9476"
definition PortDataQueuePlain :: int where "PortDataQueuePlain = 8472"
definition PortDataQueueSecure :: int where "PortDataQueueSecure = 9472"
definition PortRemoteCommandPlain :: int where "PortRemoteCommandPlain = 8475"
definition PortRemoteCommandSecure :: int where "PortRemoteCommandSecure = 9475"
definition PortDatabasePlain :: int where "PortDatabasePlain = 8471"
definition PortDatabaseSecure :: int where "PortDatabaseSecure = 9471"

record dial_options =
  do_Host :: string
  do_Port :: int
  do_TLS :: bool          \<comment> \<open>\<^verbatim>\<open>TLSConfig != nil\<close>\<close>
  do_Timeout :: int
  do_IOTimeout :: int

text \<open>The default port of a service, as every \<^verbatim>\<open>Connect\<close> chooses it.\<close>

definition default_port :: "int \<Rightarrow> int \<Rightarrow> dial_options \<Rightarrow> dial_options" where
  "default_port plain secure opts =
     (if do_Port opts = 0 then opts\<lparr>do_Port := if do_TLS opts then secure else plain\<rparr> else opts)"

text \<open>What \<^verbatim>\<open>Dial\<close> returns once the TCP or TLS dial has succeeded.\<close>

definition dialed :: "int \<Rightarrow> io_event list \<Rightarrow> connection" where
  "dialed timeout evs = \<lparr>correlation = 0, ioTimeout = timeout, net_closed = False,
     sock_deadline = None, inbuf = [], written = [], script = evs\<rparr>"

datatype io_op = WriteRequest | ReadReplyOp
datatype io_cause = WriteFailed | ReadFailed read_error

datatype conn_error =
    CtxDone ctx_error                         \<comment> \<open>nothing was sent\<close>
  | SetIODeadline                             \<comment> \<open>nothing was sent\<close>
  | IOInterrupted io_op ctx_error io_cause    \<comment> \<open>attributed to the context\<close>
  | IOFailed io_op io_cause

text \<open>
  \<^verbatim>\<open>Dial\<close>: the network either refuses or establishes a connection, with the script of
  what will happen on it.
\<close>

datatype dial_error = DialFailed string int

definition Dial ::
  "(dial_options \<Rightarrow> io_event list option) \<Rightarrow> dial_options \<Rightarrow> (dial_error, connection) res" where
  "Dial net opts =
     (case net opts of
        None \<Rightarrow> Err (DialFailed (do_Host opts) (do_Port opts))
      | Some evs \<Rightarrow> Ok (dialed (do_IOTimeout opts) evs))"

definition nextCorrelation :: "32 word \<Rightarrow> 32 word" where
  "nextCorrelation w = (let w' = w + 1 in if w' = 0 then 1 else w')"

text \<open>The earlier of \<^verbatim>\<open>now + IOTimeout\<close> and the context's own deadline.\<close>

definition exchange_deadline :: "int \<Rightarrow> int \<Rightarrow> int option \<Rightarrow> int option" where
  "exchange_deadline timeout now ctxd =
     (let deadline = (if timeout > 0 then Some (now + timeout) else None) in
      case ctxd of
        None \<Rightarrow> deadline
      | Some d \<Rightarrow> (case deadline of
            None \<Rightarrow> Some d
          | Some d0 \<Rightarrow> if d < d0 then Some d else deadline))"

definition wrapIOError :: "io_op \<Rightarrow> go_context \<Rightarrow> io_event \<Rightarrow> io_cause \<Rightarrow> conn_error" where
  "wrapIOError op ctx ev err =
     (case (if ctx_cancellable ctx then ev_ctx_err ev else None) of
        Some e \<Rightarrow> IOInterrupted op e err
      | None \<Rightarrow> (case ctx_deadline ctx of
            Some d \<Rightarrow> if \<not> ev_later ev < d then IOInterrupted op DeadlineExceeded err
                      else IOFailed op err
          | None \<Rightarrow> IOFailed op err))"

text \<open>A closed socket, an expired deadline or the network itself makes a write fail.\<close>

definition write_blocked :: "io_event \<Rightarrow> connection \<Rightarrow> bool" where
  "write_blocked ev c \<longleftrightarrow> ev_write_fails ev \<or> net_closed c
     \<or> (case sock_deadline c of None \<Rightarrow> False | Some d \<Rightarrow> d \<le> ev_now ev)"

text \<open>The part of \<^verbatim>\<open>exchange\<close> between setting and resetting the deadline.\<close>

definition transfer ::
  "go_context \<Rightarrow> io_event \<Rightarrow> request \<Rightarrow> bool \<Rightarrow> connection \<Rightarrow> (conn_error, reply option) res \<times> connection"
where
  "transfer ctx ev req wantReply c =
     (let cor = nextCorrelation (correlation c);
          frame = encode_request (req\<lparr>rq_Correlation := cor\<rparr>);
          c1 = c\<lparr>correlation := cor, written := written c @ [frame]\<rparr>
      in if write_blocked ev c then (Err (wrapIOError WriteRequest ctx ev WriteFailed), c1)
         else if \<not> wantReply then (Ok None, c1)
         else (case read_reply (inbuf c @ ev_arrives ev) of
             (Ok r, rest) \<Rightarrow> (Ok (Some r), c1\<lparr>inbuf := rest\<rparr>)
           | (Err e, rest) \<Rightarrow> (Err (wrapIOError ReadReplyOp ctx ev (ReadFailed e)), c1\<lparr>inbuf := rest\<rparr>)
           | (Panic, rest) \<Rightarrow> (Panic, c1\<lparr>inbuf := rest\<rparr>)))"

text \<open>The watcher's \<^verbatim>\<open>SetDeadline(time.Unix(1, 0))\<close>, in nanoseconds.\<close>

definition past :: int where "past = 1000000000"

fun next_event :: "io_event list \<Rightarrow> io_event \<times> io_event list" where
  "next_event [] = (dead_event, [])"
| "next_event (ev # evs) = (ev, evs)"

definition exchange ::
  "go_context \<Rightarrow> request \<Rightarrow> bool \<Rightarrow> connection \<Rightarrow> (conn_error, reply option) res \<times> connection"
where
  "exchange ctx req wantReply c =
     (case next_event (script c) of (ev, evs) \<Rightarrow>
       let c0 = c\<lparr>script := evs\<rparr> in
       case (if ctx_cancellable ctx then ev_ctx_done ev else None) of
         Some e \<Rightarrow> (Err (CtxDone e), c0)
       | None \<Rightarrow>
           let deadline = exchange_deadline (ioTimeout c) (ev_now ev) (ctx_deadline ctx) in
           if deadline \<noteq> None \<and> (ev_deadline_fails ev \<or> net_closed c0)
           then (Err SetIODeadline, c0)
           else
             let c1 = (if deadline \<noteq> None then c0\<lparr>sock_deadline := deadline\<rparr> else c0) in
             (case transfer ctx ev req wantReply c1 of (r, c2) \<Rightarrow>
               let c3 = (if ctx_cancellable ctx \<and> ev_cancel_fires ev
                         then c2\<lparr>sock_deadline := Some past\<rparr> else c2);
                   c4 = (if deadline \<noteq> None then c3\<lparr>sock_deadline := None\<rparr> else c3)
               in (r, c4)))"

fun reply_wanted :: "(conn_error, reply option) res \<Rightarrow> (conn_error, reply) res" where
  "reply_wanted (Ok (Some r)) = Ok r"
| "reply_wanted (Ok None) = Panic"
| "reply_wanted (Err e) = Err e"
| "reply_wanted Panic = Panic"

definition CallContext ::
  "go_context \<Rightarrow> request \<Rightarrow> connection \<Rightarrow> (conn_error, reply) res \<times> connection" where
  "CallContext ctx req c = apfst reply_wanted (exchange ctx req True c)"

definition Call :: "request \<Rightarrow> connection \<Rightarrow> (conn_error, reply) res \<times> connection" where
  "Call req c = CallContext background req c"

definition Send :: "request \<Rightarrow> connection \<Rightarrow> (conn_error, unit) res \<times> connection" where
  "Send req c = apfst (fmap_res (\<lambda>_. ())) (exchange background req False c)"

definition close_conn :: "connection \<Rightarrow> connection" where
  "close_conn c = c\<lparr>net_closed := True\<rparr>"

section \<open>Lemmas\<close>

lemmas exchange_defs = exchange_def transfer_def Let_def

lemma background_simps [simp]:
  "\<not> ctx_cancellable background" "ctx_deadline background = None"
  by (simp_all add: background_def)

lemma nextCorrelation_not_0 [simp]: "nextCorrelation w \<noteq> 0"
  by (simp add: nextCorrelation_def Let_def)

text \<open>Errors that \<^verbatim>\<open>exchange\<close> returns before it writes.\<close>

fun unsent :: "(conn_error, 'a) res \<Rightarrow> bool" where
  "unsent (Err (CtxDone e)) = True"
| "unsent (Err SetIODeadline) = True"
| "unsent r = False"

lemma wrapIOError_sent [simp]: "\<not> unsent (Err (wrapIOError op ctx ev err))"
  by (auto simp: wrapIOError_def split: option.splits)

lemma read_reply_no_panic [simp]: "fst (read_reply b) \<noteq> Panic" "read_reply b \<noteq> (Panic, rest)"
  by (simp_all add: read_reply_eq)

text \<open>The two ways an exchange changes the connection.\<close>

lemma transfer_cases:
  assumes "transfer ctx ev req wantReply c = (r, c')"
  shows "\<not> unsent r \<and> r \<noteq> Panic \<and> correlation c' = nextCorrelation (correlation c)
    \<and> written c' = written c @ [encode_request (req\<lparr>rq_Correlation := correlation c'\<rparr>)]
    \<and> script c' = script c \<and> ioTimeout c' = ioTimeout c \<and> net_closed c' = net_closed c
    \<and> sock_deadline c' = sock_deadline c"
  using assms
  by (auto simp: transfer_def Let_def split: if_splits prod.splits res.splits)

lemma exchange_cases:
  assumes "exchange ctx req wantReply c = (r, c')"
  obtains (unsent) "unsent r" "correlation c' = correlation c" "written c' = written c"
      "inbuf c' = inbuf c" "sock_deadline c' = sock_deadline c"
      "script c' = snd (next_event (script c))" "ioTimeout c' = ioTimeout c"
      "net_closed c' = net_closed c"
  | (sent) "\<not> unsent r" "r \<noteq> Panic" "correlation c' = nextCorrelation (correlation c)"
      "written c' = written c @ [encode_request (req\<lparr>rq_Correlation := correlation c'\<rparr>)]"
      "script c' = snd (next_event (script c))" "ioTimeout c' = ioTimeout c"
      "net_closed c' = net_closed c"
  using assms that
  by (auto simp: exchange_def Let_def split: if_splits prod.splits option.splits
      dest!: transfer_cases)

lemma exchange_no_panic: "fst (exchange ctx req wantReply c) \<noteq> Panic"
  by (cases "exchange ctx req wantReply c") (auto elim: exchange_cases)

section \<open>Correlation ids over the life of a connection\<close>

datatype conn_op = OpCall go_context request | OpSend request | OpClose

fun conn_exec :: "conn_op \<Rightarrow> connection \<Rightarrow> connection" where
  "conn_exec (OpCall ctx req) c = snd (CallContext ctx req c)"
| "conn_exec (OpSend req) c = snd (Send req c)"
| "conn_exec OpClose c = close_conn c"

lemma unat_nextCorrelation:
  "unat (nextCorrelation w) = (if unat w = 2 ^ 32 - 1 then 1 else unat w + 1)"
proof (cases "w + 1 = 0")
  case True
  then have "w = - 1" by (simp add: eq_neg_iff_add_eq_0)
  then show ?thesis
    by (simp add: nextCorrelation_def unsigned_minus_1_eq_mask mask_eq_exp_minus_1)
next
  case False
  then have "unat (w + 1) = unat w + 1"
    by (metis Suc_eq_plus1 add.commute unatSuc)
  moreover have "unat (w + 1) < 4294967296" by (rule unat32_less)
  ultimately show ?thesis using False by (simp add: nextCorrelation_def Let_def)
qed

lemma unat_iterate_correlation:
  "unat ((nextCorrelation ^^ Suc n) 0) = n mod (2 ^ 32 - 1) + 1"
proof (induction n)
  case 0
  show ?case by (simp add: nextCorrelation_def)
next
  case (Suc n)
  have "unat ((nextCorrelation ^^ Suc (Suc n)) 0)
      = (if n mod (2 ^ 32 - 1) + 1 = 2 ^ 32 - 1 then 1 else n mod (2 ^ 32 - 1) + 1 + 1)"
    using Suc.IH by (simp add: unat_nextCorrelation)
  also have "\<dots> = Suc n mod (2 ^ 32 - 1) + 1"
    by (simp add: mod_Suc)
  finally show ?case .
qed

text \<open>The correlation field of a frame.\<close>

definition frame_correlation :: "bytes \<Rightarrow> bytes" where
  "frame_correlation f = take 4 (drop 12 f)"

lemma frame_correlation_encode [simp]:
  "frame_correlation (encode_request req) = be32 (rq_Correlation req)"
  by (simp add: frame_correlation_def encode_request_def be32_def be16_def numeral_eq_Suc)

definition numbered :: "connection \<Rightarrow> bool" where
  "numbered c \<longleftrightarrow> correlation c = (nextCorrelation ^^ length (written c)) 0 \<and>
     (\<forall>i < length (written c).
        frame_correlation (written c ! i) = be32 ((nextCorrelation ^^ Suc i) 0))"

lemma exchange_numbered:
  assumes "numbered c" and "exchange ctx req wantReply c = (r, c')"
  shows "numbered c'"
  using assms(2)
proof (cases rule: exchange_cases)
  case unsent
  then show ?thesis using assms(1) by (simp add: numbered_def)
next
  case sent
  then show ?thesis
    using assms(1) by (auto simp: numbered_def nth_append less_Suc_eq)
qed

lemma conn_exec_numbered: "numbered c \<Longrightarrow> numbered (conn_exec op c)"
proof (cases op)
  case (OpCall ctx req)
  assume "numbered c"
  then show ?thesis
    using OpCall exchange_numbered [of c ctx req True]
    by (cases "exchange ctx req True c") (simp add: CallContext_def)
next
  case (OpSend req)
  assume "numbered c"
  then show ?thesis
    using OpSend exchange_numbered [of c background req False]
    by (cases "exchange background req False c") (simp add: Send_def)
next
  case OpClose
  assume "numbered c"
  then show ?thesis using OpClose by (simp add: close_conn_def numbered_def)
qed

interpretation numbering: invariant_machine conn_exec numbered
  by unfold_locales (rule conn_exec_numbered)

lemma conn_exec_log:
  "\<exists>new. written (conn_exec op c) = written c @ new \<and> length new \<le> 1"
proof -
  have *: "\<exists>new. written c' = written c @ new \<and> length new \<le> 1"
    if "exchange ctx req w c = (r, c')" for ctx req w r c'
    using that by (cases rule: exchange_cases) auto
  show ?thesis
  proof (cases op)
    case (OpCall ctx req)
    then show ?thesis
      using * [of ctx req True] by (cases "exchange ctx req True c") (auto simp: CallContext_def)
  next
    case (OpSend req)
    then show ?thesis
      using * [of background req False]
      by (cases "exchange background req False c") (auto simp: Send_def)
  next
    case OpClose
    then show ?thesis by (simp add: close_conn_def)
  qed
qed

interpretation wire_log: logging_machine conn_exec written
  by unfold_locales (rule conn_exec_log)

lemma numbered_dialed: "numbered (dialed timeout evs)"
  by (simp add: numbered_def dialed_def)

section \<open>Properties\<close>

text \<open>
  C14. Correlation ids: whatever operations a program runs on a fresh connection and
  whatever the network does, at most one frame is written per operation, and the \<open>i\<close>-th
  frame carries correlation id \<open>(i mod (2^32 - 1)) + 1\<close>: never the reserved 0, and never
  repeated within \<open>2^32 - 1\<close> frames.
\<close>

theorem frames_numbered_in_order:
  assumes w: "w = written (fold conn_exec ops (dialed timeout evs))"
  shows "length w \<le> length ops \<and>
    (\<forall>i < length w. frame_correlation (w ! i) = be32 (of_nat (i mod (2 ^ 32 - 1) + 1)))"
proof
  show "length w \<le> length ops"
    using wire_log.run_log [of ops "dialed timeout evs"] by (auto simp: w dialed_def)
  have *: "of_nat (i mod (2 ^ 32 - 1) + 1) = (nextCorrelation ^^ Suc i) 0" for i
    by (simp only: unat_iterate_correlation [symmetric]) simp
  show "\<forall>i < length w. frame_correlation (w ! i) = be32 (of_nat (i mod (2 ^ 32 - 1) + 1))"
    using numbering.run_inv [OF numbered_dialed, of ops timeout evs]
    unfolding * by (simp add: numbered_def w)
qed

definition quiet_event :: io_event where
  "quiet_event = dead_event\<lparr>ev_deadline_fails := False, ev_write_fails := False\<rparr>"

theorem frames_numbered_in_order_witness:
  "length (written (fold conn_exec [OpSend ping_request, OpSend ping_request]
       (dialed 0 [quiet_event, quiet_event]))) \<le> 2 \<and>
   frame_correlation (written (fold conn_exec [OpSend ping_request, OpSend ping_request]
       (dialed 0 [quiet_event, quiet_event])) ! 1) = be32 2"
proof -
  let ?w = "written (fold conn_exec [OpSend ping_request, OpSend ping_request]
       (dialed 0 [quiet_event, quiet_event]))"
  have "length ?w = 2"
    by (simp add: Send_def exchange_defs dialed_def quiet_event_def dead_event_def
        exchange_deadline_def write_blocked_def)
  then show ?thesis
    using frames_numbered_in_order [OF refl,
        of "[OpSend ping_request, OpSend ping_request]" 0 "[quiet_event, quiet_event]"]
    by auto
qed

text \<open>
  One reply per frame, in arrival order: a successful call consumes exactly the first
  frame of what the connection has received and returns it, whichever request that frame
  answers. So a reply left unread by an earlier request (one that \<^verbatim>\<open>Send\<close> should not have
  been used for, or a call cut short) is handed to the next call, as the comments on
  \<^verbatim>\<open>Send\<close> and \<^verbatim>\<open>CallContext\<close> warn.
\<close>

theorem Call_takes_first_frame:
  assumes "Call req c = (Ok r, c')"
  shows "\<exists>arrived. next_frame (inbuf c @ arrived) = Ok (r, inbuf c') \<and>
     (\<forall>late rest. inbuf c = encode_request late @ rest \<and> frameable late \<longrightarrow>
        r = reply_of late \<and> inbuf c' = rest @ arrived)"
proof -
  obtain ev evs where ev: "next_event (script c) = (ev, evs)" by fastforce
  have "read_reply (inbuf c @ ev_arrives ev) = (Ok r, inbuf c')"
    using assms ev
    by (auto simp: Call_def CallContext_def exchange_defs apfst_def map_prod_def
        split: if_splits prod.splits res.splits)
  then show ?thesis
    using read_reply_encode_request
    by (intro exI [of _ "ev_arrives ev"]) (auto simp: next_frame_def)
qed

definition stale_connection :: connection where
  "stale_connection =
     (dialed 0 [quiet_event])\<lparr>inbuf := encode_request ping_request\<rparr>"

theorem Call_takes_first_frame_witness:
  "\<exists>c'. Call (ping_request\<lparr>rq_ReqRepID := 0x1807\<rparr>) stale_connection
     = (Ok (reply_of ping_request), c') \<and>
     (\<exists>arrived. next_frame (inbuf stale_connection @ arrived)
        = Ok (reply_of ping_request, inbuf c'))"
proof -
  have rd: "read_reply (encode_request ping_request) = (Ok (reply_of ping_request), [])"
    using read_reply_encode_request [OF frameable_ping_request, of "[]"] by simp
  obtain c' where "Call (ping_request\<lparr>rq_ReqRepID := 0x1807\<rparr>) stale_connection
      = (Ok (reply_of ping_request), c')"
    by (simp add: Call_def CallContext_def exchange_defs stale_connection_def dialed_def
        quiet_event_def dead_event_def exchange_deadline_def write_blocked_def rd)
  with Call_takes_first_frame [OF this] show ?thesis by blast
qed

text \<open>
  C19. Deadlines: an exchange that sets a deadline on the socket (because of \<^verbatim>\<open>IOTimeout\<close> or
  of the context's deadline) leaves none behind, whatever the cancellation watcher did.
  Only an exchange under a cancellable context without any deadline can leave one, and
  then it is the watcher's, in the past.
\<close>

theorem exchange_resets_deadline:
  assumes "exchange ctx req wantReply c = (r, c')" and "sock_deadline c = None"
  shows "(0 < ioTimeout c \<or> ctx_deadline ctx \<noteq> None \<longrightarrow> sock_deadline c' = None) \<and>
    (sock_deadline c' \<noteq> None \<longrightarrow> sock_deadline c' = Some past \<and> ctx_cancellable ctx)"
  using assms
  by (auto simp: exchange_def Let_def exchange_deadline_def
      split: if_splits prod.splits option.splits dest!: transfer_cases)

definition bounded_connection :: connection where
  "bounded_connection = dialed 5 [quiet_event\<lparr>ev_cancel_fires := True\<rparr>]"

definition cancellable :: go_context where
  "cancellable = \<lparr>ctx_deadline = None, ctx_cancellable = True\<rparr>"

theorem exchange_resets_deadline_witness:
  "sock_deadline (snd (exchange cancellable ping_request False bounded_connection)) = None"
  using exchange_resets_deadline [of cancellable ping_request False bounded_connection]
  by (cases "exchange cancellable ping_request False bounded_connection")
    (simp add: bounded_connection_def dialed_def)

text \<open>
  The watcher outliving a success: on a connection without \<^verbatim>\<open>IOTimeout\<close>, a call under a
  cancellable context can return its reply and still leave the socket deadline in the
  past, because the deferred reset is only installed when a deadline was set. The next
  call, under no deadline and with the network in order, then fails to write.
\<close>

theorem cancelled_success_poisons_next_call:
  "\<exists>c c'. sock_deadline c = None \<and> ioTimeout c = 0 \<and>
     CallContext cancellable ping_request c = (Ok (reply_of ping_request), c') \<and>
     fst (Call ping_request (c'\<lparr>script := [quiet_event\<lparr>ev_now := past + 1\<rparr>]\<rparr>))
       = Err (IOFailed WriteRequest WriteFailed)"
proof -
  let ?c = "(dialed 0 [quiet_event\<lparr>ev_cancel_fires := True\<rparr>])
    \<lparr>inbuf := encode_request ping_request\<rparr>"
  have rd: "read_reply (encode_request ping_request) = (Ok (reply_of ping_request), [])"
    using read_reply_encode_request [OF frameable_ping_request, of "[]"] by simp
  obtain c' where "CallContext cancellable ping_request ?c = (Ok (reply_of ping_request), c')"
    and "sock_deadline c' = Some past" and "ioTimeout c' = 0"
    by (simp add: CallContext_def exchange_defs dialed_def cancellable_def
        quiet_event_def dead_event_def exchange_deadline_def write_blocked_def rd)
  moreover have "fst (Call ping_request (c'\<lparr>script := [quiet_event\<lparr>ev_now := past + 1\<rparr>]\<rparr>))
      = Err (IOFailed WriteRequest WriteFailed)"
    using calculation(2,3)
    by (simp add: Call_def CallContext_def exchange_defs quiet_event_def dead_event_def
        exchange_deadline_def write_blocked_def wrapIOError_def)
  ultimately show ?thesis by (intro exI [of _ ?c] exI [of _ c']) (simp add: dialed_def)
qed

end
