(* ===== verification/Ops.thy ===== *)
theory Ops
  imports Connection
begin

text \<open>
  Operations: Go functions that may fail and change the state they are called on. They
  are composed the way Go composes them, an error ending the caller. The interface
  \<open>transport\<close> is what every service client needs of the connection below it.
\<close>

type_synonym ('s, 'e, 'a) op = "'s \<Rightarrow> ('e, 'a) res \<times> 's"

fun bind_op :: "('s, 'e, 'a) op \<Rightarrow> ('a \<Rightarrow> ('s, 'e, 'b) op) \<Rightarrow> ('s, 'e, 'b) op" where
  "bind_op m f s =
     (case m s of
        (Ok x, s') \<Rightarrow> f x s'
      | (Err e, s') \<Rightarrow> (Err e, s')
      | (Panic, s') \<Rightarrow> (Panic, s'))"

definition ret_op :: "('e, 'a) res \<Rightarrow> ('s, 'e, 'a) op" where
  "ret_op r s = (r, s)"

definition wrap_op :: "('e \<Rightarrow> 'f) \<Rightarrow> ('s, 'e, 'a) op \<Rightarrow> ('s, 'f, 'a) op" where
  "wrap_op w m s = apfst (wrap_err w) (m s)"

text \<open>Running an operation on a component of the state.\<close>

definition on_part :: "('s \<Rightarrow> 'p) \<Rightarrow> (('p \<Rightarrow> 'p) \<Rightarrow> 's \<Rightarrow> 's) \<Rightarrow> ('p, 'e, 'a) op \<Rightarrow> ('s, 'e, 'a) op" where
  "on_part get upd m s = (case m (get s) of (r, p) \<Rightarrow> (r, upd (\<lambda>_. p) s))"

declare bind_op.simps [simp del]

section \<open>No panic, and bounded traffic\<close>

definition never_panics :: "('s, 'e, 'a) op \<Rightarrow> bool" where
  "never_panics m \<longleftrightarrow> (\<forall>s. fst (m s) \<noteq> Panic)"

definition adds_at_most :: "('s \<Rightarrow> 'l list) \<Rightarrow> nat \<Rightarrow> ('s \<Rightarrow> 'r \<times> 's) \<Rightarrow> bool" where
  "adds_at_most log n m \<longleftrightarrow> (\<forall>s. \<exists>new. log (snd (m s)) = log s @ new \<and> length new \<le> n)"

named_theorems op_rules \<open>composition of operations\<close>

lemma never_panics_bind [op_rules]:
  "never_panics m \<Longrightarrow> (\<And>x. never_panics (f x)) \<Longrightarrow> never_panics (bind_op m f)"
  by (simp add: never_panics_def bind_op.simps split: res.splits prod.splits) (metis fst_conv)

lemma never_panics_ret [op_rules]: "r \<noteq> Panic \<Longrightarrow> never_panics (ret_op r)"
  by (simp add: never_panics_def ret_op_def)

lemma never_panics_wrap [op_rules]: "never_panics m \<Longrightarrow> never_panics (wrap_op w m)"
  by (simp add: never_panics_def wrap_op_def)

lemma never_panics_if [op_rules]:
  "(c \<Longrightarrow> never_panics m) \<Longrightarrow> (\<not> c \<Longrightarrow> never_panics n) \<Longrightarrow> never_panics (if c then m else n)"
  by simp

lemma never_panicsD: "never_panics m \<Longrightarrow> fst (m s) \<noteq> Panic"
  by (simp add: never_panics_def)

lemma adds_at_most_bind:
  assumes m: "adds_at_most log a m" and f: "\<And>x. adds_at_most log b (f x)"
  shows "adds_at_most log (a + b) (bind_op m f)"
  unfolding adds_at_most_def
proof
  fix s
  obtain n1 where n1: "log (snd (m s)) = log s @ n1" "length n1 \<le> a"
    using m unfolding adds_at_most_def by blast
  show "\<exists>new. log (snd (bind_op m f s)) = log s @ new \<and> length new \<le> a + b"
  proof (cases "fst (m s)")
    case (Ok x)
    obtain n2 where "log (snd (f x (snd (m s)))) = log (snd (m s)) @ n2" "length n2 \<le> b"
      using f unfolding adds_at_most_def by blast
    with n1 Ok show ?thesis
      by (intro exI [of _ "n1 @ n2"], cases "m s") (simp add: bind_op.simps)
  next
    case (Err e)
    with n1 show ?thesis
      by (intro exI [of _ n1], cases "m s") (simp add: bind_op.simps)
  next
    case Panic
    with n1 show ?thesis
      by (intro exI [of _ n1], cases "m s") (simp add: bind_op.simps)
  qed
qed

lemma adds_at_most_ret: "adds_at_most log 0 (ret_op r)"
  by (simp add: adds_at_most_def ret_op_def)

lemma adds_at_most_wrap: "adds_at_most log n m \<Longrightarrow> adds_at_most log n (wrap_op w m)"
  by (simp add: adds_at_most_def wrap_op_def)

lemma adds_at_most_mono: "adds_at_most log n m \<Longrightarrow> n \<le> k \<Longrightarrow> adds_at_most log k m"
  unfolding adds_at_most_def by (meson order_trans)

lemma bind_op_Ok_iff:
  "bind_op m f s = (Ok y, s') \<longleftrightarrow> (\<exists>x s1. m s = (Ok x, s1) \<and> f x s1 = (Ok y, s'))"
  by (auto simp: bind_op.simps split: prod.splits res.splits)

lemma bind_op_cases:
  assumes "bind_op m f s = (r, s')"
  obtains (fails) e where "m s = (Err e, s')" "r = Err e"
  | (panics) "m s = (Panic, s')" "r = Panic"
  | (continues) x s1 where "m s = (Ok x, s1)" "f x s1 = (r, s')"
  using assms by (auto simp: bind_op.simps split: prod.splits res.splits)

lemma wrap_op_Ok_iff [simp]: "wrap_op w m s = (Ok x, s') \<longleftrightarrow> m s = (Ok x, s')"
  by (cases "m s") (simp add: wrap_op_def)

lemma wrap_op_Err_iff: "wrap_op w m s = (Err e, s') \<longleftrightarrow> (\<exists>e'. m s = (Err e', s') \<and> e = w e')"
proof (cases "m s")
  case (Pair r t)
  then show ?thesis by (cases r) (auto simp: wrap_op_def)
qed

lemma wrap_op_Panic_iff [simp]: "wrap_op w m s = (Panic, s') \<longleftrightarrow> m s = (Panic, s')"
  by (cases "m s") (simp add: wrap_op_def)

lemma ret_op_iff [simp]: "ret_op r s = (r', s') \<longleftrightarrow> r = r' \<and> s = s'"
  by (simp add: ret_op_def)

section \<open>The transport a client relies on\<close>

text \<open>
  A request is answered, or fails, without a panic; it puts at most one frame on the wire,
  and exactly one when it is answered.
\<close>

locale transport =
  fixes call :: "'q \<Rightarrow> ('s, 'e, 'r) op" and log :: "'s \<Rightarrow> 'l list"
    and frame_of :: "'s \<Rightarrow> 'q \<Rightarrow> 'l"
  assumes call_no_panic: "fst (call q s) \<noteq> Panic"
    and call_log: "log (snd (call q s)) = log s \<or> log (snd (call q s)) = log s @ [frame_of (snd (call q s)) q]"
    and answered_log: "fst (call q s) = Ok r \<Longrightarrow> log (snd (call q s)) = log s @ [frame_of (snd (call q s)) q]"
begin

lemma call_np: "never_panics (call q)"
  by (simp add: never_panics_def call_no_panic)

lemma call_adds: "adds_at_most log 1 (call q)"
  unfolding adds_at_most_def
proof
  fix s
  show "\<exists>new. log (snd (call q s)) = log s @ new \<and> length new \<le> 1"
    using call_log [of q s] by (elim disjE) (auto intro: exI [of _ "[_]"])
qed

text \<open>The shape of most client operations: a request whose reply is parsed.\<close>

lemma round_trip_np:
  "(\<And>r. parse r \<noteq> Panic) \<Longrightarrow>
   never_panics (bind_op (wrap_op w (call q)) (\<lambda>r. ret_op (parse r)))"
  by (intro op_rules call_np)

lemma round_trip_adds:
  "adds_at_most log 1 (bind_op (wrap_op w (call q)) (\<lambda>r. ret_op (parse r)))"
  using adds_at_most_bind [OF adds_at_most_wrap [OF call_adds] adds_at_most_ret, of w q parse]
  by simp

lemma answered: "call q s = (Ok r, s') \<Longrightarrow> log s' = log s @ [frame_of s' q]"
  using answered_log [of q s r] by simp

lemma attempted: "call q s = (r, s') \<Longrightarrow> log s' = log s \<or> log s' = log s @ [frame_of s' q]"
  using call_log [of q s] by simp

end

text \<open>The frame a connection writes for a request: with the correlation id just drawn.\<close>

definition frame_for :: "connection \<Rightarrow> request \<Rightarrow> bytes" where
  "frame_for c req = encode_request (req\<lparr>rq_Correlation := correlation c\<rparr>)"

lemma CallContext_transport:
  assumes "CallContext ctx q c = (r, c')"
  shows "r \<noteq> Panic \<and> (written c' = written c \<or> written c' = written c @ [frame_for c' q])
    \<and> (\<forall>x. r = Ok x \<longrightarrow> written c' = written c @ [frame_for c' q])"
proof -
  obtain r0 where ex: "exchange ctx q True c = (r0, c')" and r: "r = reply_wanted r0"
    using assms by (cases "exchange ctx q True c") (auto simp: CallContext_def)
  have "r0 \<noteq> Ok None"
    using ex by (auto simp: exchange_defs split: if_splits prod.splits option.splits res.splits)
  then have "r0 = Panic \<longleftrightarrow> r = Panic" "\<And>x. r = Ok x \<Longrightarrow> \<not> unsent r0"
    using r by (cases r0 rule: reply_wanted.cases; simp)+
  with ex show ?thesis by (auto elim!: exchange_cases simp: frame_for_def)
qed

interpretation wire_ctx: transport "CallContext ctx" written frame_for for ctx
proof
  fix q c r
  obtain r' c' where c': "CallContext ctx q c = (r', c')" by fastforce
  show "fst (CallContext ctx q c) \<noteq> Panic"
    using CallContext_transport [OF c'] by (simp add: c')
  show "written (snd (CallContext ctx q c)) = written c
    \<or> written (snd (CallContext ctx q c)) = written c @ [frame_for (snd (CallContext ctx q c)) q]"
    using CallContext_transport [OF c'] by (simp add: c')
  show "fst (CallContext ctx q c) = Ok r \<Longrightarrow>
    written (snd (CallContext ctx q c)) = written c @ [frame_for (snd (CallContext ctx q c)) q]"
    using CallContext_transport [OF c'] by (simp add: c')
qed

lemma Call_CallContext: "Call = CallContext background"
  by (rule ext, rule ext) (simp add: Call_def)

interpretation wire: transport Call written frame_for
  unfolding Call_CallContext by (rule wire_ctx.transport_axioms)

lemmas [op_rules] = wire.call_np wire_ctx.call_np

section \<open>Connecting to a service\<close>

text \<open>
  The common part of \<^verbatim>\<open>Connect\<close>: dial, run the handshake, close the connection if it fails.
  The second component is the connection dialed, as \<^verbatim>\<open>Connect\<close> leaves it.
\<close>

definition connect_with ::
  "(dial_options \<Rightarrow> io_event list option) \<Rightarrow> dial_options \<Rightarrow> (dial_error \<Rightarrow> 'e)
   \<Rightarrow> (connection, 'e, 'a) op \<Rightarrow> ('e, 'a) res \<times> connection option" where
  "connect_with net opts w handshake =
     (case Dial net opts of
        Err e \<Rightarrow> (Err (w e), None)
      | Panic \<Rightarrow> (Panic, None)
      | Ok conn \<Rightarrow>
          (case handshake conn of
             (Ok x, conn') \<Rightarrow> (Ok x, Some conn')
           | (Err e, conn') \<Rightarrow> (Err e, Some (close_conn conn'))
           | (Panic, conn') \<Rightarrow> (Panic, Some conn')))"

lemma connect_with_outcome:
  assumes "connect_with net opts w handshake = (r, k)" and "never_panics handshake"
    and "adds_at_most written n handshake"
  shows "r \<noteq> Panic
    \<and> (\<forall>e. r = Err e \<longrightarrow> k = None \<or> (\<exists>conn. k = Some conn \<and> net_closed conn \<and> length (written conn) \<le> n))
    \<and> (\<forall>x. r = Ok x \<longrightarrow> (\<exists>conn evs. k = Some conn \<and> handshake (dialed (do_IOTimeout opts) evs) = (Ok x, conn)
        \<and> length (written conn) \<le> n))"
proof (cases "net opts")
  case None
  then show ?thesis using assms(1) by (auto simp: connect_with_def Dial_def)
next
  case (Some evs)
  obtain r' conn where h: "handshake (dialed (do_IOTimeout opts) evs) = (r', conn)" by fastforce
  have "length (written conn) \<le> n"
    using assms(3)[unfolded adds_at_most_def, rule_format, of "dialed (do_IOTimeout opts) evs"]
    by (auto simp: h) (simp add: dialed_def)
  moreover have "r' \<noteq> Panic"
    using never_panicsD [OF assms(2), of "dialed (do_IOTimeout opts) evs"] by (simp add: h)
  ultimately show ?thesis
    using assms(1) Some h by (cases r') (auto simp: connect_with_def Dial_def close_conn_def)
qed

section \<open>A server that answers\<close>

text \<open>For showing that operations succeed: a healthy connection whose peer sends a frame.\<close>

definition answering :: "request \<Rightarrow> io_event" where
  "answering q = dead_event\<lparr>ev_deadline_fails := False, ev_write_fails := False,
     ev_arrives := encode_request q\<rparr>"

definition idle :: "connection \<Rightarrow> bool" where
  "idle c \<longleftrightarrow> \<not> net_closed c \<and> sock_deadline c = None \<and> inbuf c = []"

lemma idle_dialed [simp]: "idle (dialed t evs)" "script (dialed t evs) = evs" "written (dialed t evs) = []"
  by (simp_all add: idle_def dialed_def)

lemma Call_answered:
  assumes "idle c" "frameable a" "script c = answering a # evs"
  shows "\<exists>c'. Call q c = (Ok (reply_of a), c') \<and> idle c' \<and> script c' = evs
    \<and> written c' = written c @ [frame_for c' q]"
proof -
  have "read_reply (encode_request a) = (Ok (reply_of a), [])"
    using read_reply_encode_request [OF assms(2), of "[]"] by simp
  then show ?thesis
    using assms
    by (simp add: Call_def CallContext_def exchange_defs answering_def dead_event_def
        exchange_deadline_def write_blocked_def idle_def frame_for_def)
qed

text \<open>A reply with the given body, as the frame a peer sends.\<close>

definition peer_reply :: "server_id \<Rightarrow> 16 word \<Rightarrow> bytes \<Rightarrow> request" where
  "peer_reply sid hid body =
     \<lparr>rq_ServerID = sid, rq_HeaderID = hid, rq_Correlation = 0, rq_TemplateLen = 0,
      rq_ReqRepID = 0, rq_Body = body\<rparr>"

lemma frameable_peer_reply:
  "ucast (drop_bit 8 sid) = (0xE0 :: byte) \<Longrightarrow> length body < 2 ^ 31 \<Longrightarrow> frameable (peer_reply sid hid body)"
  by (simp add: frameable_def peer_reply_def HeaderLength_def)

lemma reply_of_peer [simp]:
  "rp_Body (reply_of (peer_reply sid hid body)) = body"
  "rp_HeaderID (reply_of (peer_reply sid hid body)) = hid"
  by (simp_all add: reply_of_def peer_reply_def)

end
