(* ===== verification/Password.thy ===== *)
theory Password
  imports Ebcdic
begin

text \<open>
  \<^verbatim>\<open>as400/auth/password.go\<close> and \<^verbatim>\<open>password_des.go\<close>: the three password-substitute
  schemes. The primitives of Go's \<^verbatim>\<open>crypto\<close> packages are parameters; what is relied on is
  only that they return digests and blocks of their documented sizes (\<open>crypto_sizes\<close>).
\<close>

record crypto = golib +
  sha1_sum :: "bytes \<Rightarrow> bytes"
  sha256_sum :: "bytes \<Rightarrow> bytes"
  sha512_sum :: "bytes \<Rightarrow> bytes"
  hmac_sha512 :: "bytes \<Rightarrow> bytes \<Rightarrow> bytes"
  des_encrypt :: "bytes \<Rightarrow> bytes \<Rightarrow> bytes"

definition crypto_sizes :: "'a crypto_scheme \<Rightarrow> bool" where
  "crypto_sizes C \<longleftrightarrow>
     (\<forall>m. length (sha1_sum C m) = 20) \<and> (\<forall>m. length (sha512_sum C m) = 64)
     \<and> (\<forall>k m. length (hmac_sha512 C k m) = 64)
     \<and> (\<forall>k b. length k = 8 \<longrightarrow> length b = 8 \<longrightarrow> length (des_encrypt C k b) = 8)"

datatype auth_error =
    UserIDError ebcdic_error
  | PasswordError ebcdic_error
  | EmptyPassword
  | StarPassword
  | NotLatin1 nat

definition signonSequence :: bytes where
  "signonSequence = [0, 0, 0, 0, 0, 0, 0, 1]"

section \<open>Password levels 0 and 1: DES\<close>

definition encDES :: "'a crypto_scheme \<Rightarrow> bytes \<Rightarrow> bytes \<Rightarrow> bytes" where
  "encDES C key data = des_encrypt C key data"

fun shift_left1 :: "bytes \<Rightarrow> bytes" where
  "shift_left1 [] = []"
| "shift_left1 [b] = [push_bit 1 b]"
| "shift_left1 (b # c # r) = (push_bit 1 b OR drop_bit 7 (c AND 0x80)) # shift_left1 (c # r)"

definition xorWith0x55AndLshift :: "bytes \<Rightarrow> bytes" where
  "xorWith0x55AndLshift b = shift_left1 (map (\<lambda>x. x XOR 0x55) b)"

definition xorArray8 :: "bytes \<Rightarrow> bytes \<Rightarrow> bytes" where
  "xorArray8 a b = map2 (XOR) a b"

text \<open>The carry loop of \<^verbatim>\<open>addArray8\<close>, from the last byte to the first.\<close>

fun add_carry :: "nat \<Rightarrow> bytes \<Rightarrow> bytes \<Rightarrow> bytes" where
  "add_carry carry (a # as) (b # bs) =
     (let sum = unat a + unat b + carry in of_nat sum # add_carry (sum div 256) as bs)"
| "add_carry carry _ _ = []"

definition addArray8 :: "bytes \<Rightarrow> bytes \<Rightarrow> bytes" where
  "addArray8 a b = rev (add_carry 0 (rev a) (rev b))"

definition ebcdicFieldLen :: "bytes \<Rightarrow> nat" where
  "ebcdicFieldLen b = length (takeWhile (\<lambda>c. c \<noteq> 0x40 \<and> c \<noteq> 0x00) b)"

definition folded_user_id :: "bytes \<Rightarrow> bytes" where
  "folded_user_id userID =
     (if 8 < ebcdicFieldLen userID then
        let x = userID ! 8; y = userID ! 9 in
        [userID ! 0 XOR (x AND 0xC0), userID ! 1 XOR push_bit 2 (x AND 0x30),
         userID ! 2 XOR push_bit 4 (x AND 0x0C), userID ! 3 XOR push_bit 6 (x AND 0x03),
         userID ! 4 XOR (y AND 0xC0), userID ! 5 XOR push_bit 2 (y AND 0x30),
         userID ! 6 XOR push_bit 4 (y AND 0x0C), userID ! 7 XOR push_bit 6 (y AND 0x03)]
      else take 8 userID)"

text \<open>\<open>blank_field v\<close> is an 8-byte array of blanks with \<open>v\<close> copied over its front.\<close>

definition blank_field :: "bytes \<Rightarrow> bytes" where
  "blank_field v = take 8 v @ replicate (8 - length v) 0x40"

definition generateDESToken :: "'a crypto_scheme \<Rightarrow> bytes \<Rightarrow> bytes \<Rightarrow> bytes" where
  "generateDESToken C userID password =
     (let folded = folded_user_id userID; pwLen = ebcdicFieldLen password in
      if 8 < pwLen then
        let half1 = xorWith0x55AndLshift (take 8 password);
            half2 = xorWith0x55AndLshift (blank_field (take (pwLen - 8) (drop 8 password)))
        in xorArray8 (encDES C half1 folded) (encDES C half2 folded)
      else encDES C (xorWith0x55AndLshift (blank_field (take pwLen password))) folded)"

definition generateDESPasswordSubstitute ::
  "'a crypto_scheme \<Rightarrow> bytes \<Rightarrow> bytes \<Rightarrow> bytes \<Rightarrow> bytes \<Rightarrow> bytes \<Rightarrow> bytes" where
  "generateDESPasswordSubstitute C userID token sequence clientSeed serverSeed =
     (let rdrSeq = addArray8 sequence serverSeed;
          enc = encDES C token rdrSeq;
          enc = encDES C token (xorArray8 enc clientSeed);
          enc = encDES C token (xorArray8 (xorArray8 (take 8 userID) rdrSeq) enc);
          enc = encDES C token
            (xorArray8 (xorArray8 rdrSeq (userID ! 8 # userID ! 9 # replicate 6 0x40)) enc)
      in encDES C token (xorArray8 sequence enc))"

definition encryptPasswordDES ::
  "'a crypto_scheme \<Rightarrow> string \<Rightarrow> string \<Rightarrow> bytes \<Rightarrow> bytes \<Rightarrow> (auth_error, bytes) res" where
  "encryptPasswordDES C userID password clientSeed serverSeed =
     (let password =
        (if password \<noteq> [] \<and> (of_char (hd password) :: nat) \<in> {0x30..0x39}
         then CHR ''Q'' # password else password) in
      bind_res (wrap_err UserIDError (EncodeEBCDIC10 (ToUpper C userID))) (\<lambda>userIDBytes.
      bind_res (wrap_err PasswordError (EncodeEBCDIC10 (ToUpper C password))) (\<lambda>pwBytes.
      Ok (generateDESPasswordSubstitute C userIDBytes
            (generateDESToken C userIDBytes pwBytes) signonSequence clientSeed serverSeed))))"

section \<open>Password levels 2 and 3: SHA-1\<close>

definition UTF16BE :: "string \<Rightarrow> bytes" where
  "UTF16BE s = concat (map be16 (concat (map utf16_of_rune (runes s))))"

text \<open>
  \<^verbatim>\<open>strings.TrimRight\<close> with the cut set NUL, blank and the ideographic space, whose
  encoding is the three bytes E3 80 80; on the reversed string.
\<close>

fun trim_reversed :: "string \<Rightarrow> string" where
  "trim_reversed [] = []"
| "trim_reversed (c # s) =
     (if of_char c = (0x00 :: nat) \<or> of_char c = (0x20 :: nat) then trim_reversed s
      else if map of_char (take 3 (c # s)) = [0x80, 0x80, 0xE3 :: nat]
      then trim_reversed (drop 2 s) else c # s)"

definition trimTrailingUnicodeSpace :: "string \<Rightarrow> string" where
  "trimTrailingUnicodeSpace s = rev (trim_reversed (rev s))"

definition encryptPasswordSHA1 ::
  "'a crypto_scheme \<Rightarrow> string \<Rightarrow> string \<Rightarrow> bytes \<Rightarrow> bytes \<Rightarrow> (auth_error, bytes) res" where
  "encryptPasswordSHA1 C userID password clientSeed serverSeed =
     bind_res (wrap_err UserIDError (EncodeEBCDIC10 (ToUpper C userID))) (\<lambda>userIDBytes.
     let userIDUTF16 = UTF16BE (DecodeEBCDIC10 userIDBytes);
         pw = trimTrailingUnicodeSpace password in
     if pw = [] then Err EmptyPassword
     else if hd pw = CHR ''*'' then Err StarPassword
     else
       let token = sha1_sum C (userIDUTF16 @ UTF16BE pw) in
       Ok (sha1_sum C (token @ serverSeed @ clientSeed @ userIDUTF16 @ signonSequence)))"

section \<open>Password level 4: PBKDF2 and SHA-512\<close>

definition padOrTruncate :: "string \<Rightarrow> nat \<Rightarrow> string" where
  "padOrTruncate s n =
     (let r = runes s in
      if n \<le> length r then string_of_runes (take n r) else s @ blanks (n - length r))"

fun latin1_of_runes :: "nat list \<Rightarrow> (auth_error, bytes) res" where
  "latin1_of_runes [] = Ok []"
| "latin1_of_runes (r # rs) =
     (if 0xFF < r then Err (NotLatin1 r) else fmap_res ((#) (of_nat r)) (latin1_of_runes rs))"

definition latin1Bytes :: "string \<Rightarrow> (auth_error, bytes) res" where
  "latin1Bytes s = latin1_of_runes (runes s)"

text \<open>
  \<^verbatim>\<open>pbkdf2HMACSHA512\<close>: the inner loop keeps the last digest \<open>u\<close> and the sum \<open>t\<close>;
  the outer loop appends one block per index.
\<close>

definition pbkdf2_round :: "'a crypto_scheme \<Rightarrow> bytes \<Rightarrow> bytes \<times> bytes \<Rightarrow> bytes \<times> bytes" where
  "pbkdf2_round C pw = (\<lambda>(u, t). let u' = hmac_sha512 C pw u in (u', map2 (XOR) t u'))"

definition pbkdf2_block :: "'a crypto_scheme \<Rightarrow> bytes \<Rightarrow> bytes \<Rightarrow> nat \<Rightarrow> nat \<Rightarrow> bytes" where
  "pbkdf2_block C pw salt iterations i =
     (let u = hmac_sha512 C pw (salt @ be32 (of_nat i)) in
      snd ((pbkdf2_round C pw ^^ (iterations - 1)) (u, u)))"

definition pbkdf2HMACSHA512 ::
  "'a crypto_scheme \<Rightarrow> bytes \<Rightarrow> bytes \<Rightarrow> nat \<Rightarrow> nat \<Rightarrow> ('e, bytes) res" where
  "pbkdf2HMACSHA512 C pw salt iterations keyLen =
     (let numBlocks = (keyLen + 64 - 1) div 64;
          dk = concat (map (pbkdf2_block C pw salt iterations) [1..<numBlocks + 1])
      in go_slice dk 0 keyLen)"

definition password_tail :: "string \<Rightarrow> string" where
  "password_tail password =
     (if 4 < length password then drop (length password - 4) password else password)"

definition encryptPasswordSHA512 ::
  "'a crypto_scheme \<Rightarrow> string \<Rightarrow> string \<Rightarrow> bytes \<Rightarrow> bytes \<Rightarrow> (auth_error, bytes) res" where
  "encryptPasswordSHA512 C userID password clientSeed serverSeed =
     (let profile = padOrTruncate userID 10;
          saltSource = profile @ padOrTruncate (password_tail password) 4;
          salt = sha256_sum C (UTF16BE saltSource) in
      bind_res (latin1Bytes password) (\<lambda>pwLatin1.
      bind_res (pbkdf2HMACSHA512 C pwLatin1 salt 10022 64) (\<lambda>token.
      Ok (sha512_sum C (token @ serverSeed @ clientSeed @ UTF16BE profile @ signonSequence)))))"

text \<open>\<^verbatim>\<open>EncryptPassword\<close>: the scheme is selected by the password level.\<close>

definition EncryptPassword ::
  "'a crypto_scheme \<Rightarrow> int \<Rightarrow> string \<Rightarrow> string \<Rightarrow> bytes \<Rightarrow> bytes \<Rightarrow> (auth_error, bytes) res" where
  "EncryptPassword C level userID password clientSeed serverSeed =
     (if level < 2 then encryptPasswordDES C userID password clientSeed serverSeed
      else if level < 4 then encryptPasswordSHA1 C userID password clientSeed serverSeed
      else encryptPasswordSHA512 C userID password clientSeed serverSeed)"

section \<open>Lemmas: the arrays of the DES scheme as 64-bit numbers\<close>

lemma be64_bytes:
  "be64 w = [ucast (drop_bit 56 w), ucast (drop_bit 48 w), ucast (drop_bit 40 w),
     ucast (drop_bit 32 w), ucast (drop_bit 24 w), ucast (drop_bit 16 w), ucast (drop_bit 8 w),
     ucast w]"
proof -
  have byte: "(ucast (drop_bit n (ucast (drop_bit m w) :: 32 word)) :: byte) = ucast (drop_bit (n + m) w)"
    if "n \<le> 24" for n m
    by (rule bit_word_eqI) (use that in \<open>auto simp: bit_simps ac_simps\<close>)
  show ?thesis
    using byte [of 24 32] byte [of 16 32] byte [of 8 32] byte [of 0 32]
      byte [of 24 0] byte [of 16 0] byte [of 8 0] byte [of 0 0]
    by (simp add: be64_def be32_def)
qed

lemma xorArray8_be64: "xorArray8 (be64 v) (be64 w) = be64 (v XOR w)"
proof -
  have byte: "(ucast (drop_bit n v) XOR ucast (drop_bit n w) :: byte) = ucast (drop_bit n (v XOR w))"
    for n
    by (rule bit_word_eqI) (auto simp: bit_simps)
  have byte0: "(ucast v XOR ucast w :: byte) = ucast (v XOR w)"
    by (rule bit_word_eqI) (auto simp: bit_simps)
  show ?thesis by (simp add: xorArray8_def be64_bytes byte byte0)
qed

lemma xor55_be64: "map (\<lambda>x. x XOR 0x55) (be64 w) = be64 (w XOR 0x5555555555555555)"
proof -
  have "replicate 8 x = [x, x, x, x, x, x, x, x]" for x :: byte
    by (simp add: numeral_eq_Suc)
  then have "be64 (0x5555555555555555 :: 64 word) = replicate 8 0x55"
    by (simp add: be64_bytes)
  moreover have "xorArray8 b (replicate (length b) 0x55) = map (\<lambda>x. x XOR 0x55) b" for b
    unfolding xorArray8_def by (induction b) simp_all
  from this [of "be64 w"] have "map (\<lambda>x. x XOR 0x55) (be64 w) = xorArray8 (be64 w) (replicate 8 0x55)"
    by simp
  ultimately show ?thesis by (simp only: xorArray8_be64 [symmetric])
qed

lemma shift_left1_be64: "shift_left1 (be64 w) = be64 (push_bit 1 w)"
proof -
  have byte: "push_bit 1 (ucast (drop_bit (n + 8) w) :: byte) OR
        drop_bit 7 (ucast (drop_bit n w) AND 0x80) = ucast (drop_bit (n + 8) (push_bit 1 w))"
    if "n \<le> 48" for n
  proof (rule bit_word_eqI)
    fix i assume "i < LENGTH(8)"
    have mask: "drop_bit 7 (c AND 0x80) = drop_bit 7 c AND 1" for c :: byte
      by (simp add: drop_bit_and)
    from \<open>i < LENGTH(8)\<close> show "bit (push_bit 1 (ucast (drop_bit (n + 8) w) :: byte) OR
        drop_bit 7 (ucast (drop_bit n w) AND 0x80)) i
        \<longleftrightarrow> bit (ucast (drop_bit (n + 8) (push_bit 1 w)) :: byte) i"
      unfolding mask using that
      by (cases i) (auto simp: bit_simps ac_simps simp del: push_bit_Suc One_nat_def)
  qed
  have last: "push_bit 1 (ucast w :: byte) = ucast (push_bit 1 w)"
    by (rule bit_word_eqI) (auto simp: bit_simps simp del: push_bit_Suc One_nat_def)
  show ?thesis
    using byte [of 0] byte [of 8] byte [of 16] byte [of 24] byte [of 32] byte [of 40] byte [of 48] last
    by (simp add: be64_bytes)
qed

text \<open>The number a little-endian list of bytes stands for, and addition with carry on it.\<close>

fun le_value :: "bytes \<Rightarrow> nat" where
  "le_value [] = 0"
| "le_value (b # bs) = unat b + 256 * le_value bs"

lemma le_value_less: "le_value bs < 256 ^ length bs"
proof (induction bs)
  case (Cons b bs)
  then show ?case using unat8_less [of b] by simp
qed simp

lemma le_value_inject: "length as = length bs \<Longrightarrow> le_value as = le_value bs \<Longrightarrow> as = bs"
proof (induction as bs rule: list_induct2)
  case (Cons a as b bs)
  have "unat a = le_value (a # as) mod 256" "unat b = le_value (b # bs) mod 256"
    using unat8_less [of a] unat8_less [of b] by simp_all
  moreover have "le_value as = le_value (a # as) div 256" "le_value bs = le_value (b # bs) div 256"
    using unat8_less [of a] unat8_less [of b] by simp_all
  ultimately show ?case using Cons by (metis word_unat_eq_iff)
qed simp

lemma length_add_carry: "length as = length bs \<Longrightarrow> length (add_carry c as bs) = length as"
  by (induction as bs arbitrary: c rule: list_induct2) (simp_all add: Let_def)

lemma add_carry_value:
  "length as = length bs \<Longrightarrow>
   le_value (add_carry c as bs) = (le_value as + le_value bs + c) mod 256 ^ length as"
proof (induction as bs arbitrary: c rule: list_induct2)
  case (Cons a as b bs)
  define s where "s = unat a + unat b + c"
  have "unat (of_nat s :: byte) = s mod 256"
    by (simp add: unat_of_nat take_bit_eq_mod)
  then have "le_value (add_carry c (a # as) (b # bs))
      = s mod 256 + 256 * ((le_value as + le_value bs + s div 256) mod 256 ^ length as)"
    using Cons.IH by (simp add: Let_def s_def)
  also have "\<dots> = (s + 256 * (le_value as + le_value bs)) mod 256 ^ length (a # as)"
  proof -
    define y where "y = le_value as + le_value bs"
    have "(s + 256 * y) mod (256 * 256 ^ length as)
        = 256 * ((s + 256 * y) div 256 mod 256 ^ length as) + (s + 256 * y) mod 256"
      by (rule mod_mult2_eq)
    moreover have "(s + 256 * y) div 256 = y + s div 256" "(s + 256 * y) mod 256 = s mod 256"
      by simp_all
    ultimately show ?thesis by (simp add: y_def)
  qed
  finally show ?case by (simp add: s_def algebra_simps)
qed simp

lemma le_value_be64: "le_value (rev (be64 w)) = unat w"
proof -
  have b: "unat (ucast (drop_bit n w) :: byte) = unat w div 2 ^ n mod 256" for n
    by (simp add: unsigned_ucast_eq unat_drop_bit_eq drop_bit_eq_div [where 'a = nat]
        take_bit_eq_mod)
  have b0: "unat (ucast w :: byte) = unat w mod 256"
    using b [of 0] by simp
  have lt: "unat w < 2 ^ 64" using unsigned_less [of w] by simp
  define u where "u = unat w"
  have step: "x mod 256 + 256 * (x div 256) = x" for x :: nat by simp
  have d: "u div 65536 = u div 256 div 256" "u div 16777216 = u div 65536 div 256"
    "u div 4294967296 = u div 16777216 div 256" "u div 1099511627776 = u div 4294967296 div 256"
    "u div 281474976710656 = u div 1099511627776 div 256"
    "u div 72057594037927936 = u div 281474976710656 div 256"
    by (simp_all flip: div_mult2_eq)
  have last: "u div 72057594037927936 mod 256 = u div 72057594037927936"
    using lt by (simp add: u_def)
  have s: "u div 281474976710656 mod 256 + 256 * (u div 72057594037927936) = u div 281474976710656"
    "u div 1099511627776 mod 256 + 256 * (u div 281474976710656) = u div 1099511627776"
    "u div 4294967296 mod 256 + 256 * (u div 1099511627776) = u div 4294967296"
    "u div 16777216 mod 256 + 256 * (u div 4294967296) = u div 16777216"
    "u div 65536 mod 256 + 256 * (u div 16777216) = u div 65536"
    "u div 256 mod 256 + 256 * (u div 65536) = u div 256"
    "u mod 256 + 256 * (u div 256) = u"
    by (simp_all only: d step)
  have "le_value (rev (be64 w)) = u mod 256 + 256 * (u div 256 mod 256 + 256 * (u div 65536 mod 256
      + 256 * (u div 16777216 mod 256 + 256 * (u div 4294967296 mod 256
      + 256 * (u div 1099511627776 mod 256 + 256 * (u div 281474976710656 mod 256
      + 256 * (u div 72057594037927936 mod 256)))))))"
    unfolding be64_bytes using b [of 8] b [of 16] b [of 24] b [of 32] b [of 40] b [of 48] b [of 56] b0
    by (simp add: u_def)
  also have "\<dots> = u"
    by (simp only: last s)
  finally show ?thesis by (simp add: u_def)
qed

lemma addArray8_be64: "addArray8 (be64 v) (be64 w) = be64 (v + w)"
proof -
  have "le_value (add_carry 0 (rev (be64 v)) (rev (be64 w))) = (unat v + unat w) mod 256 ^ 8"
    by (simp add: add_carry_value le_value_be64)
  also have "\<dots> = unat (v + w)"
    by (simp add: unat_word_ariths)
  finally have "le_value (add_carry 0 (rev (be64 v)) (rev (be64 w))) = le_value (rev (be64 (v + w)))"
    by (simp add: le_value_be64)
  then have "add_carry 0 (rev (be64 v)) (rev (be64 w)) = rev (be64 (v + w))"
    by (rule le_value_inject [rotated]) (simp add: length_add_carry)
  then show ?thesis by (simp add: addArray8_def)
qed

section \<open>Lemmas: lengths\<close>

lemma length_shift_left1 [simp]: "length (shift_left1 b) = length b"
  by (induction b rule: shift_left1.induct) simp_all

lemma length_xor55 [simp]: "length (xorWith0x55AndLshift b) = length b"
  by (simp add: xorWith0x55AndLshift_def)

lemma length_xorArray8 [simp]: "length (xorArray8 a b) = min (length a) (length b)"
  by (simp add: xorArray8_def)

lemma length_addArray8 [simp]: "length a = length b \<Longrightarrow> length (addArray8 a b) = length a"
  by (simp add: addArray8_def length_add_carry)

lemma length_blank_field [simp]: "length (blank_field v) = 8"
  by (simp add: blank_field_def)

lemma length_folded [simp]: "8 \<le> length u \<Longrightarrow> length (folded_user_id u) = 8"
  by (simp add: folded_user_id_def Let_def)

lemma crypto_sizes_simps:
  assumes "crypto_sizes C"
  shows "length (sha1_sum C m) = 20" "length (sha512_sum C m) = 64"
    "length (hmac_sha512 C k m) = 64"
    "length k = 8 \<Longrightarrow> length b = 8 \<Longrightarrow> length (encDES C k b) = 8"
  using assms by (simp_all add: crypto_sizes_def encDES_def)

lemma length_generateDESToken:
  assumes "crypto_sizes C" "length u = 10" "length p = 10"
  shows "length (generateDESToken C u p) = 8"
  using assms by (simp add: generateDESToken_def Let_def crypto_sizes_simps [OF assms(1)])

lemma length_generateDESPasswordSubstitute:
  assumes "crypto_sizes C" "length u = 10" "length t = 8" "length s = 8" "length cs = 8" "length ss = 8"
  shows "length (generateDESPasswordSubstitute C u t s cs ss) = 8"
  using assms
  by (simp add: generateDESPasswordSubstitute_def Let_def crypto_sizes_simps [OF assms(1)])

section \<open>Lemmas: errors, PBKDF2, padding\<close>

datatype scheme = DES | SHA1 | SHA512

definition scheme_of :: "int \<Rightarrow> scheme" where
  "scheme_of level = (if level < 2 then DES else if level < 4 then SHA1 else SHA512)"

text \<open>The schemes in the order of their strength, which is the order of the levels.\<close>

instantiation scheme :: linorder
begin

fun rank :: "scheme \<Rightarrow> nat" where
  "rank DES = 0" | "rank SHA1 = 1" | "rank SHA512 = 2"

definition less_eq_scheme :: "scheme \<Rightarrow> scheme \<Rightarrow> bool" where
  "less_eq_scheme a b \<longleftrightarrow> rank a \<le> rank b"

definition less_scheme :: "scheme \<Rightarrow> scheme \<Rightarrow> bool" where
  "less_scheme a b \<longleftrightarrow> rank a < rank b"

instance
proof
  fix x y z :: scheme
  show "x < y \<longleftrightarrow> x \<le> y \<and> \<not> y \<le> x" by (auto simp: less_eq_scheme_def less_scheme_def)
  show "x \<le> x" by (simp add: less_eq_scheme_def)
  show "x \<le> y \<Longrightarrow> y \<le> z \<Longrightarrow> x \<le> z" by (simp add: less_eq_scheme_def)
  show "x \<le> y \<Longrightarrow> y \<le> x \<Longrightarrow> x = y"
    by (cases x; cases y) (simp_all add: less_eq_scheme_def)
  show "x \<le> y \<or> y \<le> x" unfolding less_eq_scheme_def by linarith
qed

end

lemma scheme_of_mono: "l \<le> l' \<Longrightarrow> scheme_of l \<le> scheme_of l'"
  by (auto simp: scheme_of_def less_eq_scheme_def)

text \<open>The size of the substitute a scheme produces.\<close>

fun substitute_size :: "scheme \<Rightarrow> nat" where
  "substitute_size DES = 8"
| "substitute_size SHA1 = 20"
| "substitute_size SHA512 = 64"

lemma latin1_Ok_iff:
  "latin1_of_runes rs = Ok b \<longleftrightarrow> list_all (\<lambda>r. r \<le> 0xFF) rs \<and> b = map of_nat rs"
  by (induction rs arbitrary: b) auto

lemma latin1_no_panic [panic_free, simp]: "latin1_of_runes rs \<noteq> Panic"
  by (induction rs) auto

lemma latin1_Err_iff:
  "latin1_of_runes rs = Err e \<longleftrightarrow>
   (\<exists>r. List.find (\<lambda>r. 0xFF < r) rs = Some r \<and> e = NotLatin1 r)"
proof (induction rs)
  case (Cons r rs)
  have "fmap_res f (latin1_of_runes rs) = Err e \<longleftrightarrow> latin1_of_runes rs = Err e" for f :: "bytes \<Rightarrow> bytes"
    by (cases "latin1_of_runes rs") auto
  with Cons show ?case by auto
qed simp

text \<open>RFC 2898, section 5.2: \<open>U_j\<close>, and \<open>F\<close> as the exclusive or of \<open>U_1 .. U_c\<close>.\<close>

fun rfc_U :: "'a crypto_scheme \<Rightarrow> bytes \<Rightarrow> bytes \<Rightarrow> nat \<Rightarrow> nat \<Rightarrow> bytes" where
  "rfc_U C pw salt i 0 = hmac_sha512 C pw (salt @ be32 (of_nat i))"
| "rfc_U C pw salt i (Suc j) = hmac_sha512 C pw (rfc_U C pw salt i j)"

definition rfc_F :: "'a crypto_scheme \<Rightarrow> bytes \<Rightarrow> bytes \<Rightarrow> nat \<Rightarrow> nat \<Rightarrow> bytes" where
  "rfc_F C pw salt c i =
     foldl (map2 (XOR)) (rfc_U C pw salt i 0) (map (rfc_U C pw salt i) [1..<c])"

lemma pbkdf2_rounds:
  "(pbkdf2_round C pw ^^ n) (rfc_U C pw salt i 0, rfc_U C pw salt i 0)
   = (rfc_U C pw salt i n, foldl (map2 (XOR)) (rfc_U C pw salt i 0) (map (rfc_U C pw salt i) [1..<Suc n]))"
  by (induction n) (simp_all add: pbkdf2_round_def Let_def)

lemma pbkdf2_block_rfc: "0 < c \<Longrightarrow> pbkdf2_block C pw salt c i = rfc_F C pw salt c i"
  using pbkdf2_rounds [where C = C and pw = pw and n = "c - 1" and salt = salt and i = i]
  by (simp add: pbkdf2_block_def rfc_F_def)

lemma length_rfc_U: "crypto_sizes C \<Longrightarrow> length (rfc_U C pw salt i j) = 64"
  by (cases j) (simp_all add: crypto_sizes_simps)

lemma length_rfc_F: "crypto_sizes C \<Longrightarrow> length (rfc_F C pw salt c i) = 64"
proof -
  assume C: "crypto_sizes C"
  have "length t = 64 \<Longrightarrow> length (foldl (map2 (XOR)) t (map (rfc_U C pw salt i) js)) = 64" for t js
    by (induction js arbitrary: t) (simp_all add: length_rfc_U [OF C])
  then show ?thesis by (simp add: rfc_F_def length_rfc_U [OF C] del: rfc_U.simps)
qed

lemma pbkdf2_blocks_enough:
  assumes "crypto_sizes C"
  shows "keyLen \<le> length (concat (map (rfc_F C pw salt c) [1..<(keyLen + 64 - 1) div 64 + 1]))"
proof -
  have "length (concat (map (rfc_F C pw salt c) is)) = 64 * length is" for "is"
    by (induction "is") (simp_all add: length_rfc_F [OF assms])
  moreover have "keyLen \<le> 64 * ((keyLen + 64 - 1) div 64)" by simp
  ultimately show ?thesis by (simp del: upt_Suc)
qed

lemma pbkdf2_rfc:
  assumes "crypto_sizes C" "0 < c"
  shows "pbkdf2HMACSHA512 C pw salt c keyLen
    = Ok (take keyLen (concat (map (rfc_F C pw salt c) [1..<(keyLen + 64 - 1) div 64 + 1])))"
proof -
  have same: "map (pbkdf2_block C pw salt c) js = map (rfc_F C pw salt c) js" for js
    by (simp add: pbkdf2_block_rfc assms)
  show ?thesis
    using pbkdf2_blocks_enough [OF assms(1), of keyLen pw salt c]
    unfolding pbkdf2HMACSHA512_def Let_def go_slice_def same by simp
qed

lemma EncryptPassword_no_panic [panic_free]:
  assumes "crypto_sizes C"
  shows "EncryptPassword C level u p cs ss \<noteq> Panic"
  unfolding EncryptPassword_def encryptPasswordDES_def encryptPasswordSHA1_def
    encryptPasswordSHA512_def latin1Bytes_def Let_def
  by (auto simp: pbkdf2_rfc [OF assms] bind_res_Panic_iff)

lemma blank_runes: "map of_char (blanks n) = replicate n (32 :: nat)"
  by (simp add: blanks_def map_replicate_const)

lemma runes_padOrTruncate: "runes (padOrTruncate s n) = take n (runes s @ replicate n 32)"
proof (cases "n \<le> length (runes s)")
  case True
  have "list_all scalar (take n (runes s))"
    using scalar_runes [of s] by (auto simp: list_all_iff dest: in_set_takeD)
  with True show ?thesis by (simp add: padOrTruncate_def runes_string_of_runes)
next
  case False
  have "list_all (\<lambda>c. (of_char c :: nat) < 0x80) (blanks (n - length (runes s)))"
    by (simp add: blanks_def list_all_iff)
  with False show ?thesis
    by (simp add: padOrTruncate_def runes_append_ascii blank_runes min_def)
qed

lemma EncryptPassword_Ok_length:
  assumes C: "crypto_sizes C" and seeds: "length cs = 8" "length ss = 8"
    and ok: "EncryptPassword C level u p cs ss = Ok b"
  shows "length b = substitute_size (scheme_of level)"
proof -
  have "length signonSequence = 8" by (simp add: signonSequence_def)
  then have des: "length b = 8" if "encryptPasswordDES C u p cs ss = Ok b"
    using that seeds
    by (auto simp: encryptPasswordDES_def Let_def bind_res_Ok_iff
        intro!: length_generateDESPasswordSubstitute [OF C] length_generateDESToken [OF C]
        dest!: EncodeEBCDIC10_length)
  have sha1: "length b = 20" if "encryptPasswordSHA1 C u p cs ss = Ok b"
    using that by (auto simp: encryptPasswordSHA1_def Let_def bind_res_Ok_iff
        crypto_sizes_simps [OF C] split: if_splits)
  have sha512: "length b = 64" if "encryptPasswordSHA512 C u p cs ss = Ok b"
    using that by (auto simp: encryptPasswordSHA512_def Let_def bind_res_Ok_iff
        crypto_sizes_simps [OF C])
  from ok show ?thesis
    by (auto simp: EncryptPassword_def scheme_of_def dest: des sha1 sha512 split: if_splits)
qed

text \<open>A concrete instance of the primitives, for the witnesses.\<close>

definition toy_crypto :: crypto where
  "toy_crypto =
     \<lparr>unicode_ToUpper = id, unicode_IsLetter = (\<lambda>_. False),
      sha1_sum = fit 20, sha256_sum = fit 32, sha512_sum = fit 64,
      hmac_sha512 = (\<lambda>k m. fit 64 (m @ k)), des_encrypt = xorArray8\<rparr>"

lemma toy_crypto_sizes: "crypto_sizes toy_crypto"
  by (simp add: crypto_sizes_def toy_crypto_def)

section \<open>Properties\<close>

text \<open>
  The array arithmetic of the DES scheme is 64-bit arithmetic. On the big-endian bytes
  of 64-bit numbers, the carry loop of \<^verbatim>\<open>addArray8\<close> is addition modulo 2^64,
  \<^verbatim>\<open>xorArray8\<close> is exclusive or, and \<^verbatim>\<open>xorWith0x55AndLshift\<close> is a left shift by one of the
  number exclusive-or 0x5555555555555555.
\<close>
theorem des_arrays_are_words:
  "addArray8 (be64 v) (be64 w) = be64 (v + w)
   \<and> xorArray8 (be64 v) (be64 w) = be64 (v XOR w)
   \<and> xorWith0x55AndLshift (be64 v) = be64 (push_bit 1 (v XOR 0x5555555555555555))"
  by (simp only: addArray8_be64 xorArray8_be64 xorWith0x55AndLshift_def xor55_be64
      shift_left1_be64 simp_thms)

text \<open>
  C24. The hand-written PBKDF2 loop computes RFC 2898: for any positive iteration count the
  key is the first \<open>keyLen\<close> bytes of the blocks \<open>F(password, salt, c, 1)\<close>,
  \<open>F(password, salt, c, 2)\<close>, and so on, each the exclusive or of the \<open>c\<close> iterates \<open>U_j\<close> of
  the keyed hash; it has exactly \<open>keyLen\<close> bytes and no slice is out of range.
\<close>
theorem pbkdf2_is_rfc2898:
  assumes "crypto_sizes C" and "0 < c"
  shows "\<exists>dk. pbkdf2HMACSHA512 C pw salt c keyLen = Ok dk \<and> length dk = keyLen
    \<and> dk = take keyLen (concat (map (rfc_F C pw salt c) [1..<(keyLen + 64 - 1) div 64 + 1]))"
proof -
  have "length (take keyLen (concat (map (rfc_F C pw salt c) [1..<(keyLen + 64 - 1) div 64 + 1])))
      = keyLen"
    using pbkdf2_blocks_enough [OF assms(1), of keyLen pw salt c] unfolding length_take by linarith
  with pbkdf2_rfc [OF assms] show ?thesis by blast
qed

theorem pbkdf2_is_rfc2898_witness:
  "\<exists>dk. pbkdf2HMACSHA512 toy_crypto [1, 2] [3] 2 70 = Ok dk \<and> length dk = 70
    \<and> dk = take 70 (concat (map (rfc_F toy_crypto [1, 2] [3] 2) [1..<(70 + 64 - 1) div 64 + 1]))"
  by (rule pbkdf2_is_rfc2898) (simp_all add: toy_crypto_sizes)

text \<open>
  The level selects the scheme and the scheme fixes the size. A password substitute
  that \<^verbatim>\<open>EncryptPassword\<close> returns has 8, 20 or 64 bytes according to the password level
  (DES below 2, SHA-1 below 4, SHA-512 from 4 on), and a higher level never selects a
  weaker scheme; no input makes it panic.
\<close>
theorem EncryptPassword_size:
  assumes "crypto_sizes C" and "length cs = 8" and "length ss = 8"
  shows "EncryptPassword C level u p cs ss \<noteq> Panic
    \<and> (\<forall>b. EncryptPassword C level u p cs ss = Ok b \<longrightarrow> length b = substitute_size (scheme_of level))
    \<and> (\<forall>l \<ge> level. scheme_of level \<le> scheme_of l)"
  using EncryptPassword_no_panic [OF assms(1)] EncryptPassword_Ok_length [OF assms] scheme_of_mono
  by blast

theorem EncryptPassword_size_witness:
  "EncryptPassword toy_crypto 3 ''QUSER'' ''pw'' (be64 5) (be64 7) \<noteq> Panic \<and> scheme_of 3 \<le> scheme_of 4"
  using EncryptPassword_size [OF toy_crypto_sizes, of "be64 5" "be64 7" 3 "''QUSER''" "''pw''"] by simp

text \<open>
  \<^verbatim>\<open>padOrTruncate\<close> counts characters, not bytes: whatever bytes \<open>s\<close> holds, ill-formed
  UTF-8 included, the result has exactly \<open>n\<close> characters, the first \<open>n\<close> of \<open>s\<close> followed by
  blanks.
\<close>
theorem padOrTruncate_characters:
  "runes (padOrTruncate s n) = take n (runes s @ replicate n 32)
   \<and> length (runes (padOrTruncate s n)) = n"
  by (simp add: runes_padOrTruncate)

text \<open>
  The salt of password level 4 is cut by bytes. The last four characters of the
  password \<open>abc\<close> followed by U+00E9 are all of it, but the tail taken for the salt is its
  last four bytes, so the salt loses the \<open>a\<close> and gains a blank.
\<close>
theorem salt_tail_cuts_bytes:
  "runes (string_of_runes [0x61, 0x62, 0x63, 0xE9]) = [0x61, 0x62, 0x63, 0xE9]
   \<and> runes (padOrTruncate (password_tail (string_of_runes [0x61, 0x62, 0x63, 0xE9])) 4)
     = [0x62, 0x63, 0xE9, 0x20]"
proof -
  have tail: "password_tail (string_of_runes [0x61, 0x62, 0x63, 0xE9])
      = string_of_runes [0x62, 0x63, 0xE9]"
    by (simp add: password_tail_def string_of_runes_def utf8_of_rune_def scalar_def)
  have four: "replicate 4 x = [x, x, x, x]" for x :: nat by (simp add: numeral_eq_Suc)
  show ?thesis
    unfolding tail runes_padOrTruncate four by (simp add: runes_string_of_runes scalar_def)
qed

end
