(* ===== verification/Logon.thy ===== *)
theory Logon
  imports Ops Params Password
begin

text \<open>
  \<^verbatim>\<open>as400/logon.go\<close>: the exchange of random seeds and the start of a server job, which
  every host server but as-signon requires before its own requests.
\<close>

record start_server_session =
  ss_PasswordLevel :: int
  ss_JobName :: string

datatype logon_error =
    XChgCall conn_error
  | XChgTooShort
  | XChgFailed "32 word"
  | XChgNoSeed
  | LogonAuth auth_error
  | LogonUserID ebcdic_error
  | StartCall conn_error
  | StartTooShort
  | StartFailed "32 word"
  | StartParams param_error

definition buildXChgRandSeedRequest :: "server_id \<Rightarrow> bytes \<Rightarrow> request" where
  "buildXChgRandSeedRequest serverID clientSeed =
     \<lparr>rq_ServerID = serverID, rq_HeaderID = AttrHeaderID 0x03, rq_Correlation = 0,
      rq_TemplateLen = 8, rq_ReqRepID = 0x7001, rq_Body = clientSeed\<rparr>"

definition parseXChgRandSeedReply :: "reply \<Rightarrow> (logon_error, bytes \<times> int) res" where
  "parseXChgRandSeedReply reply =
     (case RC reply of
        None \<Rightarrow> Err XChgTooShort
      | Some rc \<Rightarrow>
          if rc \<noteq> 0 then Err (XChgFailed rc)
          else if length (rp_Body reply) < 12 then Err XChgNoSeed
          else bind_res (go_slice (rp_Body reply) 4 12) (\<lambda>seed.
            Ok (fit 8 seed, int (unat (ServerAttr reply)))))"

text \<open>The \<^verbatim>\<open>switch len(authBytes)\<close> that names the scheme on the wire.\<close>

definition auth_type :: "bytes \<Rightarrow> byte" where
  "auth_type authBytes =
     (if length authBytes = 8 then 0x01 else if length authBytes = 20 then 0x03 else 0x07)"

definition buildStartServerRequest :: "server_id \<Rightarrow> bytes \<Rightarrow> bytes \<Rightarrow> request" where
  "buildStartServerRequest serverID userIDBytes authBytes =
     \<lparr>rq_ServerID = serverID, rq_HeaderID = AttrHeaderID 0x02, rq_Correlation = 0,
      rq_TemplateLen = 2, rq_ReqRepID = 0x7002,
      rq_Body = [auth_type authBytes, 0x01]
        @ EncodeParams [\<lparr>CodePoint = 0x1105, Data = authBytes\<rparr>]
        @ EncodeParams [\<lparr>CodePoint = 0x1104, Data = userIDBytes\<rparr>]\<rparr>"

text \<open>
  A name field: a 4-byte CCSID before the EBCDIC text, whose trailing blanks are trimmed.
  A field shorter than the CCSID counts as absent.
\<close>

definition job_name_field :: "param list \<Rightarrow> 16 word \<Rightarrow> ('e, string) res" where
  "job_name_field params cp =
     (case Find params cp of
        Some d \<Rightarrow>
          if 4 \<le> length d
          then bind_res (slice_from d 4) (\<lambda>t. Ok (TrimRightBlanks (DecodeEBCDICLossy t)))
          else Ok []
      | None \<Rightarrow> Ok [])"

definition parseStartServerReply :: "reply \<Rightarrow> (logon_error, string) res" where
  "parseStartServerReply reply =
     (case RC reply of
        None \<Rightarrow> Err StartTooShort
      | Some rc \<Rightarrow>
          if rc \<noteq> 0 then Err (StartFailed rc)
          else if length (rp_Body reply) < 4 then Ok []
          else bind_res (slice_from (rp_Body reply) 4) (\<lambda>b.
            bind_res (wrap_err StartParams (DecodeParams b)) (\<lambda>params.
            job_name_field params 0x111F)))"

text \<open>\<open>millis\<close> is \<^verbatim>\<open>time.Now().UnixMilli()\<close>, whose bytes are the client seed.\<close>

definition Logon ::
  "'a crypto_scheme \<Rightarrow> 64 word \<Rightarrow> server_id \<Rightarrow> string \<Rightarrow> string
   \<Rightarrow> (connection, logon_error, start_server_session) op" where
  "Logon C millis serverID userID password =
     (let clientSeed = be64 millis in
      bind_op (wrap_op XChgCall (Call (buildXChgRandSeedRequest serverID clientSeed))) (\<lambda>reply.
      bind_op (ret_op (parseXChgRandSeedReply reply)) (\<lambda>(serverSeed, passwordLevel).
      bind_op (ret_op (wrap_err LogonAuth
        (EncryptPassword C passwordLevel userID password clientSeed serverSeed))) (\<lambda>authBytes.
      bind_op (ret_op (wrap_err LogonUserID (EncodeEBCDIC10 (ToUpper C userID)))) (\<lambda>userIDBytes.
      bind_op (wrap_op StartCall (Call (buildStartServerRequest serverID userIDBytes authBytes)))
        (\<lambda>reply.
      bind_op (ret_op (parseStartServerReply reply)) (\<lambda>jobName.
      ret_op (Ok \<lparr>ss_PasswordLevel = passwordLevel, ss_JobName = jobName\<rparr>))))))))"

section \<open>Lemmas\<close>

lemma job_name_field_no_panic [panic_free, simp]: "job_name_field params cp \<noteq> Panic"
  by (simp add: job_name_field_def bind_res_Panic_iff split: option.split)

lemma parseXChg_no_panic [panic_free, simp]: "parseXChgRandSeedReply r \<noteq> Panic"
  by (auto simp: parseXChgRandSeedReply_def bind_res_Panic_iff split: option.splits)

lemma parseStart_no_panic [panic_free, simp]: "parseStartServerReply r \<noteq> Panic"
  by (auto simp: parseStartServerReply_def bind_res_Panic_iff DecodeParams_no_panic
      split: option.splits)

lemma parseXChg_OkD:
  "parseXChgRandSeedReply r = Ok (seed, level) \<Longrightarrow> length seed = 8 \<and> level = int (unat (ServerAttr r))"
  by (auto simp: parseXChgRandSeedReply_def bind_res_Ok_iff split: option.splits if_splits)

fun auth_code :: "scheme \<Rightarrow> byte" where
  "auth_code DES = 0x01"
| "auth_code SHA1 = 0x03"
| "auth_code SHA512 = 0x07"

lemma auth_type_scheme: "length b = substitute_size sc \<Longrightarrow> auth_type b = auth_code sc"
  by (cases sc) (simp_all add: auth_type_def)

lemma Logon_never_panics [op_rules]:
  assumes "crypto_sizes C"
  shows "never_panics (Logon C millis sid u p)"
  unfolding Logon_def Let_def
  by (intro op_rules) (auto intro!: op_rules simp: EncryptPassword_no_panic [OF assms] split: prod.splits)

text \<open>
  The credentials as the second frame carries them: encrypted for the level the server
  asked for, under a type byte that names the scheme of that level.
\<close>

definition credentials ::
  "'a crypto_scheme \<Rightarrow> 64 word \<Rightarrow> server_id \<Rightarrow> string \<Rightarrow> string \<Rightarrow> int \<Rightarrow> request \<Rightarrow> bool" where
  "credentials C millis sid u p level req \<longleftrightarrow>
     (\<exists>seed authBytes uid. length seed = 8
        \<and> EncryptPassword C level u p (be64 millis) seed = Ok authBytes
        \<and> EncodeEBCDIC10 (ToUpper C u) = Ok uid
        \<and> req = buildStartServerRequest sid uid authBytes
        \<and> hd (rq_Body req) = auth_code (scheme_of level))"

lemma Logon_outcome:
  assumes C: "crypto_sizes C" and run: "Logon C millis sid u p c = (r, c')"
  shows "(\<forall>s. r \<noteq> Ok s) \<and> (written c' = written c
        \<or> (\<exists>c1. written c' = written c @ [frame_for c1 (buildXChgRandSeedRequest sid (be64 millis))]))
    \<or> (\<exists>c1 level req. written c' = written c
          @ [frame_for c1 (buildXChgRandSeedRequest sid (be64 millis)), frame_for c' req]
        \<and> credentials C millis sid u p level req
        \<and> (\<forall>s. r = Ok s \<longrightarrow> ss_PasswordLevel s = level))"
  using run unfolding Logon_def Let_def
proof (cases rule: bind_op_cases)
  case (fails e)
  then show ?thesis by (auto simp: wrap_op_Err_iff dest!: wire.attempted)
next
  case panics
  then show ?thesis by (auto dest!: wire.attempted)
next
  case (continues reply c1)
  then have w1: "written c1 = written c @ [frame_for c1 (buildXChgRandSeedRequest sid (be64 millis))]"
    by (auto dest: wire.answered)
  show ?thesis
  proof (cases "parseXChgRandSeedReply reply")
    case (Ok x)
    obtain seed level where x: "x = (seed, level)" by fastforce
    note seed = parseXChg_OkD [OF Ok [unfolded x]]
    show ?thesis
    proof (cases "EncryptPassword C level u p (be64 millis) seed")
      case enc: (Ok authBytes)
      have len: "length authBytes = substitute_size (scheme_of level)"
        using EncryptPassword_Ok_length [OF C _ _ enc] seed by simp
      show ?thesis
      proof (cases "EncodeEBCDIC10 (ToUpper C u)")
        case uid: (Ok uid)
        let ?req = "buildStartServerRequest sid uid authBytes"
        have cred: "credentials C millis sid u p level ?req"
          unfolding credentials_def using seed enc uid auth_type_scheme [OF len]
          by (auto simp: buildStartServerRequest_def)
        have rest: "bind_op (wrap_op StartCall (Call ?req)) (\<lambda>reply.
            bind_op (ret_op (parseStartServerReply reply)) (\<lambda>jobName.
            ret_op (Ok \<lparr>ss_PasswordLevel = level, ss_JobName = jobName\<rparr>))) c1 = (r, c')"
          using continues(2) by (simp add: Ok x enc uid bind_op.simps ret_op_def)
        from rest show ?thesis
        proof (cases rule: bind_op_cases)
          case (fails e)
          then obtain e' where "Call ?req c1 = (Err e', c')" by (auto simp: wrap_op_Err_iff)
          from wire.attempted [OF this] fails w1 cred show ?thesis by auto
        next
          case panics
          then show ?thesis using wire.call_no_panic [of ?req c1] by simp
        next
          case (continues reply2 c2)
          then have "Call ?req c1 = (Ok reply2, c2)" by simp
          moreover have "c2 = c' \<and> (\<forall>s. r = Ok s \<longrightarrow> ss_PasswordLevel s = level)"
            using continues(2) by (auto elim!: bind_op_cases)
          ultimately show ?thesis using w1 cred wire.answered [of ?req c1 reply2 c2] by auto
        qed
      qed (use continues(2) w1 in \<open>auto simp: Ok x enc bind_op.simps ret_op_def\<close>)
    qed (use continues(2) w1 in \<open>auto simp: Ok x bind_op.simps ret_op_def\<close>)
  qed (use continues(2) w1 in \<open>auto simp: bind_op.simps ret_op_def\<close>)
qed

lemma Logon_adds [op_rules]:
  assumes "crypto_sizes C"
  shows "adds_at_most written 2 (Logon C millis sid u p)"
  unfolding adds_at_most_def
proof
  fix c
  obtain r c' where run: "Logon C millis sid u p c = (r, c')" by fastforce
  from Logon_outcome [OF assms run]
  show "\<exists>new. written (snd (Logon C millis sid u p c)) = written c @ new \<and> length new \<le> 2"
    by (auto simp: run)
qed

text \<open>The answers to the two requests that let a user in.\<close>

definition lets_in :: "'a crypto_scheme \<Rightarrow> 64 word \<Rightarrow> string \<Rightarrow> string \<Rightarrow> request \<Rightarrow> request \<Rightarrow> bool" where
  "lets_in C millis user pw x s \<longleftrightarrow> frameable x \<and> frameable s \<and> (\<exists>job. parseStartServerReply (reply_of s) = Ok job)
     \<and> (\<exists>seed level auth uid. parseXChgRandSeedReply (reply_of x) = Ok (seed, level)
         \<and> EncryptPassword C level user pw (be64 millis) seed = Ok auth \<and> EncodeEBCDIC10 (ToUpper C user) = Ok uid)"

lemma Logon_answered:
  assumes "idle k" "script k = answering x # answering s # evs" "lets_in C millis user pw x s"
  shows "\<exists>ses k'. Logon C millis sid user pw k = (Ok ses, k') \<and> idle k' \<and> script k' = evs \<and> length (written k') = length (written k) + 2"
proof -
  obtain seed level auth uid job where
    a: "parseXChgRandSeedReply (reply_of x) = Ok (seed, level)" "EncryptPassword C level user pw (be64 millis) seed = Ok auth"
      "EncodeEBCDIC10 (ToUpper C user) = Ok uid" "parseStartServerReply (reply_of s) = Ok job" "frameable x" "frameable s"
    using assms(3) by (auto simp: lets_in_def)
  from Call_answered [OF assms(1) a(5) assms(2)] obtain k1 where
    k1: "Call (buildXChgRandSeedRequest sid (be64 millis)) k = (Ok (reply_of x), k1)" "idle k1"
      "script k1 = answering s # evs" "length (written k1) = length (written k) + 1" by fastforce
  from Call_answered [OF k1(2) a(6) k1(3)] obtain k2 where
    k2: "Call (buildStartServerRequest sid uid auth) k1 = (Ok (reply_of s), k2)" "idle k2"
      "script k2 = evs" "length (written k2) = length (written k1) + 1" by fastforce
  have "Logon C millis sid user pw k = (Ok \<lparr>ss_PasswordLevel = level, ss_JobName = job\<rparr>, k2)"
    using k1(1) k2(1) a(1-4) by (simp add: Logon_def Let_def bind_op.simps wrap_op_def ret_op_def)
  with k2 k1(4) show ?thesis by auto
qed

section \<open>Properties\<close>


text \<open>A server that answers the seed exchange with level 2 and accepts the credentials.\<close>

definition logon_conn :: connection where
  "logon_conn = dialed 0
     [answering (peer_reply ServerDataQueue 2 (be32 0 @ [1, 2, 3, 4, 5, 6, 7, 8])),
      answering (peer_reply ServerDataQueue 0 (be32 0))]"


end
