(* ===== verification/DbConn.thy ===== *)
theory DbConn
  imports DbWire DbValue Logon
begin

text \<open>
  \<^verbatim>\<open>database/conn.go\<close>: one connection to the database server, its SQL environment, the two
  ways to send a request, commitment control, and the table of statement handles. The table
  of character converters is global in the code and an argument \<open>T\<close> here.
\<close>

section \<open>Options, errors, state\<close>

record db_options =
  op_SystemNaming :: bool
  op_DefaultSchema :: string
  op_Location :: "location option"
  op_BlockSize :: int

definition UTC :: location where "UTC = 0"

definition IsolationNone :: int where "IsolationNone = 0"
definition IsolationReadUncommitted :: int where "IsolationReadUncommitted = 1"
definition IsolationReadCommitted :: int where "IsolationReadCommitted = 2"
definition IsolationRepeatableRead :: int where "IsolationRepeatableRead = 3"
definition IsolationSerializable :: int where "IsolationSerializable = 4"

definition maxStatements :: nat where "maxStatements = 9999"
definition defaultBlockSize :: int where "defaultBlockSize = 32 * 1024"
definition clientFunctionalLevel :: string where "clientFunctionalLevel = ''V7R2M01   ''"
definition languageFeatureCode :: string where "languageFeatureCode = ''2924''"
definition vrmV5R4 :: nat where "vrmV5R4 = push_bit 16 5 OR push_bit 8 4"

text \<open>\<^verbatim>\<open>errors.Join\<close> of at least one error is \<open>Joined\<close>.\<close>

datatype db_error =
    ErrConnBroken
  | ErrClosed
  | DbDial dial_error
  | DbLogon logon_error
  | DbIO conn_error
  | DbReply reply_error
  | DbServer server_failure
  | DbText ccsid_error
  | DbName ebcdic_error
  | DbSetAttributes db_error
  | DbAttributesTooShort nat
  | DbInTransaction
  | DbIsolation int
  | DbNoTransaction
  | DbNoReplyExpected "16 word"
  | DbTooManyStatements
  | DbStatementTooLong nat
  | DbReturnsRows
  | DbReturnsNoRows
  | DbArgumentCount nat nat
  | DbParameter nat value_error
  | DbArgument nat
  | DbEOF
  | DbDestination nat nat
  | DbColumnCount nat nat
  | DbRowTooShort nat nat
  | DbMapping nat string int
  | DbColumn nat string value_error
  | DbNamedParameter
  | DbReadOnly
  | DbLevel int
  | DbLastInsertId
  | DbCtx ctx_error
  | ErrBadConn
  | Joined "db_error list"

text \<open>\<^verbatim>\<open>errors.Is(err, ErrConnBroken)\<close>.\<close>

fun is_conn_broken :: "db_error \<Rightarrow> bool" where
  "is_conn_broken ErrConnBroken = True"
| "is_conn_broken (DbSetAttributes e) = is_conn_broken e"
| "is_conn_broken (Joined es) = list_ex is_conn_broken es"
| "is_conn_broken e = False"

definition join_errors :: "db_error option list \<Rightarrow> db_error option" where
  "join_errors es = (case List.map_filter id es of [] \<Rightarrow> None | xs \<Rightarrow> Some (Joined xs))"

record db_conn =
  dc_conn :: connection
  dc_opts :: db_options
  dc_serverCCSID :: nat
  dc_vrm :: nat
  dc_functionalLevel :: int
  dc_jobID :: string
  dc_ids :: "nat \<Rightarrow> bool"
  dc_inTx :: bool
  dc_broken :: bool
  dc_closed :: bool

section \<open>Sending\<close>

definition db_usable :: "db_conn \<Rightarrow> db_error option" where
  "db_usable c = (if dc_closed c then Some ErrClosed else if dc_broken c then Some ErrConnBroken else None)"

definition db_call ::
  "ccsid_table \<Rightarrow> go_context \<Rightarrow> db_request \<Rightarrow> (db_conn, db_error, db_reply) op"
where
  "db_call T ctx req c =
     (case db_usable c of
        Some e \<Rightarrow> (Err e, c)
      | None \<Rightarrow>
          (case CallContext ctx (db_encode req) (dc_conn c) of
             (Ok raw, k) \<Rightarrow>
               (case parseReply T raw of
                  Ok rep \<Rightarrow> (Ok rep, c\<lparr>dc_conn := k\<rparr>)
                | Err e \<Rightarrow> (Err (DbReply e), c\<lparr>dc_conn := k, dc_broken := True\<rparr>)
                | Panic \<Rightarrow> (Panic, c\<lparr>dc_conn := k\<rparr>))
           | (Err e, k) \<Rightarrow> (Err (DbIO e), c\<lparr>dc_conn := k, dc_broken := True\<rparr>)
           | (Panic, k) \<Rightarrow> (Panic, c\<lparr>dc_conn := k\<rparr>)))"

definition db_send :: "db_request \<Rightarrow> (db_conn, db_error, unit) op" where
  "db_send req c =
     (case db_usable c of
        Some e \<Rightarrow> (Err e, c)
      | None \<Rightarrow>
          if dq_ors req \<noteq> 0 then (Err (DbNoReplyExpected (dq_functionID req)), c)
          else
            (case Send (db_encode req) (dc_conn c) of
               (Ok u, k) \<Rightarrow> (Ok (), c\<lparr>dc_conn := k\<rparr>)
             | (Err e, k) \<Rightarrow> (Err (DbIO e), c\<lparr>dc_conn := k, dc_broken := True\<rparr>)
             | (Panic, k) \<Rightarrow> (Panic, c\<lparr>dc_conn := k\<rparr>)))"

text \<open>A call whose failed reply becomes the error \<^verbatim>\<open>newError(op, rep)\<close>.\<close>

definition db_request_ok ::
  "ccsid_table \<Rightarrow> go_context \<Rightarrow> string \<Rightarrow> db_request \<Rightarrow> (db_conn, db_error, db_reply) op"
where
  "db_request_ok T ctx op req =
     bind_op (db_call T ctx req) (\<lambda>rep.
       ret_op (if failed rep then Err (DbServer (newError T op rep)) else Ok rep))"

definition Ping :: "ccsid_table \<Rightarrow> go_context \<Rightarrow> (db_conn, db_error, unit) op" where
  "Ping T ctx =
     bind_op (db_request_ok T ctx ''ping''
       (db_request_for fnRetrieveAttributes 0 (orsReply OR orsServerAttributes)))
     (\<lambda>_. ret_op (Ok ()))"

definition db_Close :: "db_conn \<Rightarrow> db_conn" where
  "db_Close c = (if dc_closed c then c else c\<lparr>dc_closed := True, dc_conn := close_conn (dc_conn c)\<rparr>)"

definition ServerCCSID :: "db_conn \<Rightarrow> nat" where "ServerCCSID c = dc_serverCCSID c"
definition VRM :: "db_conn \<Rightarrow> nat" where "VRM c = dc_vrm c"
definition JobID :: "db_conn \<Rightarrow> string" where "JobID c = dc_jobID c"
definition inTransaction :: "db_conn \<Rightarrow> bool" where "inTransaction c \<longleftrightarrow> dc_inTx c"

section \<open>Commitment control\<close>

definition autocommit_request :: "bool \<Rightarrow> int \<Rightarrow> db_request" where
  "autocommit_request on level =
     (let req = db_request_for fnSetAttributes 0 (orsReply OR orsServerAttributes) in
      if on then addShort 0x380E (of_int IsolationNone) (addByte 0x3824 0xE8 req)
      else addShort 0x380E (of_int level) (addByte 0x3824 0xD5 req))"

definition setAutoCommit :: "ccsid_table \<Rightarrow> go_context \<Rightarrow> bool \<Rightarrow> int \<Rightarrow> (db_conn, db_error, unit) op" where
  "setAutoCommit T ctx on level =
     bind_op (db_request_ok T ctx ''set autocommit'' (autocommit_request on level)) (\<lambda>_. ret_op (Ok ()))"

definition end_request :: "16 word \<Rightarrow> db_request" where
  "end_request functionID = addByte 0x380F 1 (db_request_for functionID 0 (orsReply OR orsSQLCA))"

definition commitOrRollback ::
  "ccsid_table \<Rightarrow> go_context \<Rightarrow> 16 word \<Rightarrow> string \<Rightarrow> (db_conn, db_error, unit) op"
where
  "commitOrRollback T ctx functionID op =
     bind_op (db_request_ok T ctx op (end_request functionID)) (\<lambda>_. ret_op (Ok ()))"

definition Begin :: "ccsid_table \<Rightarrow> go_context \<Rightarrow> int \<Rightarrow> (db_conn, db_error, unit) op" where
  "Begin T ctx level c =
     (if dc_inTx c then (Err DbInTransaction, c)
      else if level < IsolationReadUncommitted \<or> level > IsolationSerializable then (Err (DbIsolation level), c)
      else
        (case setAutoCommit T ctx False level c of
           (Ok _, c1) \<Rightarrow> (Ok (), c1\<lparr>dc_inTx := True\<rparr>)
         | r \<Rightarrow> r))"

text \<open>The last part of \<^verbatim>\<open>endTransaction\<close>: autocommit is restored; \<open>endErr\<close> is reported.\<close>

definition restore_autocommit ::
  "ccsid_table \<Rightarrow> go_context \<Rightarrow> db_error option \<Rightarrow> (db_conn, db_error, unit) op"
where
  "restore_autocommit T ctx endErr c =
     (case setAutoCommit T ctx True IsolationNone c of
        (Ok _, c1) \<Rightarrow> (case endErr of None \<Rightarrow> Ok () | Some e \<Rightarrow> Err e, c1\<lparr>dc_inTx := False\<rparr>)
      | (Err e, c1) \<Rightarrow>
          (Err (the (join_errors [endErr, Some e])), c1\<lparr>dc_broken := True\<rparr>)
      | (Panic, c1) \<Rightarrow> (Panic, c1))"

definition endTransaction ::
  "ccsid_table \<Rightarrow> go_context \<Rightarrow> 16 word \<Rightarrow> string \<Rightarrow> (db_conn, db_error, unit) op"
where
  "endTransaction T ctx functionID op c =
     (if \<not> dc_inTx c then (Err DbNoTransaction, c)
      else
        (case commitOrRollback T ctx functionID op c of
           (Ok _, c1) \<Rightarrow> restore_autocommit T ctx None c1
         | (Panic, c1) \<Rightarrow> (Panic, c1)
         | (Err endErr, c1) \<Rightarrow>
             if functionID = fnCommit then
               (case commitOrRollback T ctx fnRollback ''rollback'' c1 of
                  (Ok _, c2) \<Rightarrow> restore_autocommit T ctx (Some endErr) c2
                | (Err rbErr, c2) \<Rightarrow>
                    (Err (the (join_errors [Some endErr, Some rbErr])), c2\<lparr>dc_broken := True\<rparr>)
                | (Panic, c2) \<Rightarrow> (Panic, c2))
             else restore_autocommit T ctx (Some endErr) c1))"

definition Commit :: "ccsid_table \<Rightarrow> go_context \<Rightarrow> (db_conn, db_error, unit) op" where
  "Commit T ctx = endTransaction T ctx fnCommit ''commit''"

definition Rollback :: "ccsid_table \<Rightarrow> go_context \<Rightarrow> (db_conn, db_error, unit) op" where
  "Rollback T ctx = endTransaction T ctx fnRollback ''rollback''"

section \<open>Statement handles\<close>

definition allocID :: "(db_conn, db_error, nat) op" where
  "allocID c =
     (case List.find (\<lambda>i. \<not> dc_ids c i) [1..<maxStatements + 1] of
        Some i \<Rightarrow> (Ok i, c\<lparr>dc_ids := (dc_ids c)(i := True)\<rparr>)
      | None \<Rightarrow> (Err DbTooManyStatements, c))"

definition freeID :: "nat \<Rightarrow> db_conn \<Rightarrow> db_conn" where
  "freeID i c = c\<lparr>dc_ids := (dc_ids c)(i := False)\<rparr>"

section \<open>Connecting\<close>

definition zonedText :: "string \<Rightarrow> bytes" where
  "zonedText s = be16 (of_nat ccsidEBCDIC37)
     @ map (\<lambda>c. if c = CHR '' '' then 0x40 else byte_of_char c OR 0xF0) s"

text \<open>The parameters of the initial \<^verbatim>\<open>SET_ATTRIBUTES\<close>, in the order the code adds them.\<close>

definition attributes_request :: "ccsid_table \<Rightarrow> db_options \<Rightarrow> (db_error, db_request) res" where
  "attributes_request T opts =
     (let req0 = add_param 0x3802 (zonedText languageFeatureCode) (addShort 0x3801 (of_nat clientCCSID)
        (db_request_for fnSetAttributes 0 (orsReply OR orsServerAttributes))) in
      bind_res (wrap_err DbName (EncodeEBCDIC clientFunctionalLevel)) (\<lambda>level.
      let req1 = add_param 0x3803 (be16 (of_nat ccsidEBCDIC37) @ level @ [0, 0]) req0;
          req2 = addShort 0x3809 2 (addShort 0x3807 5 (addShort 0x380E 0 (addByte 0x3824 0xE8
            (addShort 0x3806 1 (addByte 0x3805 0xF0 req1)))));
          req3 = addShort 0x3823 0 (addShort 0x380C (if op_SystemNaming opts then 1 else 0) req2)
      in bind_res
           (if op_DefaultSchema opts \<noteq> []
            then bind_res (wrap_err DbText (encodeString T ccsidEBCDIC37 (op_DefaultSchema opts)))
              (\<lambda>schema. Ok (addText 0x380F ccsidEBCDIC37 schema req3))
            else Ok req3)
         (\<lambda>req4. Ok (addShort 0x3811 1 (addInt 0x3822 32768 (addByte 0x3821 0xF1 req4))))))"

text \<open>\<^verbatim>\<open>n, _ = strconv.Atoi(s)\<close>: 0 for text that is no number, the nearest bound when out of range.\<close>

definition Atoi_value :: "string \<Rightarrow> int" where
  "Atoi_value s =
     (case split_sign s of (neg, ds) \<Rightarrow>
        if ds = [] \<or> \<not> list_all is_digit ds then 0
        else max (- (2 ^ 63)) (min (2 ^ 63 - 1) ((if neg then - 1 else 1) * int (digits_val ds))))"

text \<open>The functional level, which stays as it was when the text is too short to hold one.\<close>

definition functional_level :: "ccsid_table \<Rightarrow> nat \<Rightarrow> bytes \<Rightarrow> int \<Rightarrow> int" where
  "functional_level T ccsid a old =
     (let level = decodeServerText T ccsid (take 10 (drop 50 a)) in
      if length level \<ge> 10 then Atoi_value (TrimSpace (drop 6 level)) else old)"

text \<open>The job identifier name(10) user(10) number(6) as number/user/name.\<close>

definition job_identifier :: "string \<Rightarrow> string" where
  "job_identifier i =
     (if length i = 26
      then TrimSpace (drop 20 i) @ ''/'' @ TrimSpace (take 10 (drop 10 i)) @ ''/'' @ TrimSpace (take 10 i)
      else TrimSpace i)"

definition parseServerAttributes :: "ccsid_table \<Rightarrow> bytes \<Rightarrow> (db_conn, db_error, unit) op" where
  "parseServerAttributes T a c =
     (if length a < 60 then (Err (DbAttributesTooShort (length a)), c)
      else
        let ccsid = unat (u16 (a ! 19) (a ! 20));
            vrm = push_bit 16 (unat (a ! 51 AND 0x0F)) OR push_bit 8 (unat (a ! 53 AND 0x0F))
              OR unat (a ! 55 AND 0x0F);
            level = functional_level T ccsid a (dc_functionalLevel c)
        in (Ok (), c\<lparr>dc_serverCCSID := ccsid, dc_vrm := vrm, dc_functionalLevel := level,
          dc_jobID := (if level \<ge> 5 \<and> length a \<ge> 114
                       then job_identifier (decodeServerText T ccsid (take 26 (drop 88 a)))
                       else dc_jobID c)\<rparr>))"

definition setServerAttributes :: "ccsid_table \<Rightarrow> (db_conn, db_error, unit) op" where
  "setServerAttributes T c =
     bind_op (ret_op (attributes_request T (dc_opts c))) (\<lambda>req.
     bind_op (wrap_op DbSetAttributes (db_call T background req)) (\<lambda>rep.
     if failed rep then ret_op (Err (DbServer (newError T ''set server attributes'' rep)))
     else parseServerAttributes T (dr_serverAttributes rep))) c"

definition new_conn :: "db_options \<Rightarrow> connection \<Rightarrow> db_conn" where
  "new_conn opts k = \<lparr>dc_conn = k, dc_opts = opts, dc_serverCCSID = 0, dc_vrm = 0, dc_functionalLevel = 0,
     dc_jobID = [], dc_ids = (\<lambda>_. False), dc_inTx = False, dc_broken = False, dc_closed = False\<rparr>"

definition with_defaults :: "db_options \<Rightarrow> db_options" where
  "with_defaults opts =
     (let o1 = (if op_Location opts = None then opts\<lparr>op_Location := Some UTC\<rparr> else opts)
      in if op_BlockSize o1 \<le> 0 then o1\<lparr>op_BlockSize := defaultBlockSize\<rparr> else o1)"

definition db_handshake ::
  "'a crypto_scheme \<Rightarrow> ccsid_table \<Rightarrow> 64 word \<Rightarrow> string \<Rightarrow> string \<Rightarrow> db_options \<Rightarrow> (connection, db_error, db_conn) op"
where
  "db_handshake C T millis userID password opts =
     bind_op (wrap_op DbLogon (Logon C millis ServerDatabase userID password)) (\<lambda>_ k.
       (case setServerAttributes T (new_conn opts k) of
          (Ok _, c) \<Rightarrow> (Ok c, dc_conn c)
        | (Err e, c) \<Rightarrow> (Err e, dc_conn c)
        | (Panic, c) \<Rightarrow> (Panic, dc_conn c)))"

definition db_Connect ::
  "'a crypto_scheme \<Rightarrow> ccsid_table \<Rightarrow> (dial_options \<Rightarrow> io_event list option) \<Rightarrow> 64 word \<Rightarrow> dial_options
   \<Rightarrow> string \<Rightarrow> string \<Rightarrow> db_options \<Rightarrow> (db_error, db_conn) res \<times> connection option"
where
  "db_Connect C T net millis dial userID password opts =
     connect_with net (default_port PortDatabasePlain PortDatabaseSecure dial) DbDial
       (db_handshake C T millis userID password (with_defaults opts))"

end
