(* ===== verification/DbTx.thy ===== *)
theory DbTx
  imports DbConn
begin

text \<open>
  What the connection of \<open>DbConn\<close> promises: the contract of a request on it, which the
  statements rely on, and the protocol of commitment control that \<^verbatim>\<open>Begin\<close>, \<^verbatim>\<open>Commit\<close> and
  \<^verbatim>\<open>Rollback\<close> refine.
\<close>

section \<open>The contract of a request\<close>

text \<open>
  On a session that is not usable nothing happens but the error. On a usable one, a request
  that returns has written exactly one frame and leaves the session usable; one that fails
  has written at most one and ends the session.
\<close>

locale session =
  fixes usable :: "'s \<Rightarrow> 'e option" and log :: "'s \<Rightarrow> 'l list"
    and run :: "'q \<Rightarrow> ('s, 'e, 'r) op" and frame_of :: "'s \<Rightarrow> 'q \<Rightarrow> 'l" and valid :: "'q \<Rightarrow> bool"
  assumes run_dead: "usable s = Some e \<Longrightarrow> run q s = (Err e, s)"
    and run_no_panic: "fst (run q s) \<noteq> Panic"
    and run_returned: "usable s = None \<Longrightarrow> run q s = (Ok r, s') \<Longrightarrow>
      usable s' = None \<and> log s' = log s @ [frame_of s' q]"
    and run_lost: "valid q \<Longrightarrow> usable s = None \<Longrightarrow> run q s = (Err e, s') \<Longrightarrow>
      usable s' \<noteq> None \<and> (log s' = log s \<or> log s' = log s @ [frame_of s' q])"
begin

lemma run_np: "never_panics (run q)"
  by (simp add: never_panics_def run_no_panic)

lemma run_cases:
  assumes "valid q" "run q s = (res, s')"
  obtains (dead) e where "usable s = Some e" "res = Err e" "s' = s"
  | (returned) r where "usable s = None" "res = Ok r" "usable s' = None" "log s' = log s @ [frame_of s' q]"
  | (lost) e where "usable s = None" "res = Err e" "usable s' \<noteq> None"
      "log s' = log s \<or> log s' = log s @ [frame_of s' q]"
proof (cases "usable s")
  case (Some e)
  from run_dead [OF this] have r: "run q s = (Err e, s)" .
  show thesis using assms(2) by (intro that(1) [OF Some]) (simp_all add: r)
next
  case None
  show thesis
  proof (cases res)
    case (Ok r)
    with run_returned [OF None] assms(2) None show thesis by (intro that(2)) simp_all
  next
    case (Err e)
    with run_lost [OF assms(1) None] assms(2) None show thesis by (intro that(3)) simp_all
  next
    case Panic
    with run_no_panic [of q s] assms(2) show thesis by simp
  qed
qed

lemma run_adds: "valid q \<Longrightarrow> adds_at_most log 1 (run q)"
  unfolding adds_at_most_def
proof
  fix s
  assume v: "valid q"
  obtain res s' where run: "run q s = (res, s')" by fastforce
  show "\<exists>new. log (snd (run q s)) = log s @ new \<and> length new \<le> 1"
    by (rule run_cases [OF v run]) (auto simp: run)
qed

end

definition db_written :: "db_conn \<Rightarrow> bytes list" where
  "db_written c = written (dc_conn c)"

definition db_frame :: "db_conn \<Rightarrow> db_request \<Rightarrow> bytes" where
  "db_frame c req = frame_for (dc_conn c) (db_encode req)"

lemma db_usable_None_iff: "db_usable c = None \<longleftrightarrow> \<not> dc_closed c \<and> \<not> dc_broken c"
  by (simp add: db_usable_def)

lemma db_call_same:
  "db_call T ctx req c = (r, c') \<Longrightarrow>
   c' = c\<lparr>dc_conn := dc_conn c', dc_broken := dc_broken c'\<rparr> \<and> (dc_broken c \<longrightarrow> dc_broken c')
   \<and> (dc_broken c' \<longrightarrow> dc_broken c \<or> (\<forall>x. r \<noteq> Ok x))"
  by (auto simp: db_call_def db_usable_def split: option.splits if_splits prod.splits res.splits)

lemma db_call_inTx: "db_call T ctx req c = (r, c') \<Longrightarrow> dc_inTx c' = dc_inTx c"
  by (auto simp: db_call_def split: option.splits prod.splits res.splits)

lemma db_send_same:
  "db_send req c = (r, c') \<Longrightarrow>
   c' = c\<lparr>dc_conn := dc_conn c', dc_broken := dc_broken c'\<rparr> \<and> (dc_broken c \<longrightarrow> dc_broken c')
   \<and> (dc_broken c' \<longrightarrow> dc_broken c \<or> (\<forall>x. r \<noteq> Ok x))"
  by (auto simp: db_send_def db_usable_def split: option.splits if_splits prod.splits res.splits)

interpretation dbcall: session db_usable db_written "db_call T ctx" db_frame "\<lambda>_. True" for T ctx
proof
  fix q c r c' e
  show "db_usable c = Some e \<Longrightarrow> db_call T ctx q c = (Err e, c)"
    by (simp add: db_call_def)
  obtain w k where k: "CallContext ctx (db_encode q) (dc_conn c) = (w, k)" by fastforce
  note t = CallContext_transport [OF k]
  show "fst (db_call T ctx q c) \<noteq> Panic"
    using t k by (auto simp: db_call_def split: option.splits prod.splits res.splits)
  show "db_usable c = None \<Longrightarrow> db_call T ctx q c = (Ok r, c') \<Longrightarrow>
      db_usable c' = None \<and> db_written c' = db_written c @ [db_frame c' q]"
    using t k by (auto simp: db_call_def db_usable_def db_written_def db_frame_def
        split: option.splits prod.splits res.splits if_splits)
  show "db_usable c = None \<Longrightarrow> db_call T ctx q c = (Err e, c') \<Longrightarrow>
      db_usable c' \<noteq> None \<and> (db_written c' = db_written c \<or> db_written c' = db_written c @ [db_frame c' q])"
    using t k by (auto simp: db_call_def db_usable_def db_written_def db_frame_def
        split: option.splits prod.splits res.splits if_splits)
qed

lemma Send_transport:
  assumes "Send q c = (r, c')"
  shows "r \<noteq> Panic \<and> (written c' = written c \<or> written c' = written c @ [frame_for c' q])
    \<and> (\<forall>x. r = Ok x \<longrightarrow> written c' = written c @ [frame_for c' q])"
proof -
  obtain r0 where ex: "exchange background q False c = (r0, c')" and r: "r = fmap_res (\<lambda>_. ()) r0"
    using assms by (cases "exchange background q False c") (auto simp: Send_def)
  have "r = Panic \<longleftrightarrow> r0 = Panic" "\<And>x. r = Ok x \<Longrightarrow> \<not> unsent r0"
    using r by (cases r0; simp)+
  with ex show ?thesis by (auto elim!: exchange_cases simp: frame_for_def)
qed

interpretation dbsend: session db_usable db_written db_send db_frame "\<lambda>q. dq_ors q = 0"
proof
  fix q c r c' e
  show "db_usable c = Some e \<Longrightarrow> db_send q c = (Err e, c)"
    by (simp add: db_send_def)
  obtain w k where k: "Send (db_encode q) (dc_conn c) = (w, k)" by fastforce
  note t = Send_transport [OF k]
  show "fst (db_send q c) \<noteq> Panic"
    using t k by (auto simp: db_send_def split: option.splits prod.splits res.splits)
  show "db_usable c = None \<Longrightarrow> db_send q c = (Ok r, c') \<Longrightarrow>
      db_usable c' = None \<and> db_written c' = db_written c @ [db_frame c' q]"
    using t k by (auto simp: db_send_def db_usable_def db_written_def db_frame_def
        split: option.splits prod.splits res.splits if_splits)
  show "dq_ors q = 0 \<Longrightarrow> db_usable c = None \<Longrightarrow> db_send q c = (Err e, c') \<Longrightarrow>
      db_usable c' \<noteq> None \<and> (db_written c' = db_written c \<or> db_written c' = db_written c @ [db_frame c' q])"
    using t k by (auto simp: db_send_def db_usable_def db_written_def db_frame_def
        split: option.splits prod.splits res.splits if_splits)
qed

section \<open>Which requests an operation sent\<close>

text \<open>The function of a frame is in the bytes 18 and 19 of its header.\<close>

definition frame_function :: "bytes \<Rightarrow> 16 word" where
  "frame_function b = u16 (b ! 18) (b ! 19)"

lemma frame_function_db_frame [simp]: "frame_function (db_frame c req) = dq_functionID req"
  by (simp add: frame_function_def db_frame_def frame_for_def encode_request_def db_encode_def
      nth_append be16_def be32_def)

definition sent :: "db_conn \<Rightarrow> db_conn \<Rightarrow> 16 word list \<Rightarrow> bool" where
  "sent c c' fns \<longleftrightarrow> (\<exists>fs. db_written c' = db_written c @ fs \<and> map frame_function fs = fns)"

lemma sent_refl [simp, intro]: "sent c c []"
  by (simp add: sent_def)

lemma sent_trans [trans]: "sent c c1 a \<Longrightarrow> sent c1 c2 b \<Longrightarrow> sent c c2 (a @ b)"
  unfolding sent_def by (metis append.assoc map_append)

lemma sent_update [simp]:
  "sent c (c'\<lparr>dc_inTx := x\<rparr>) fns \<longleftrightarrow> sent c c' fns"
  "sent c (c'\<lparr>dc_broken := x\<rparr>) fns \<longleftrightarrow> sent c c' fns"
  by (simp_all add: sent_def db_written_def)

text \<open>The four ways a request that the server may refuse can go.\<close>

lemma request_ok_cases:
  assumes "db_request_ok T ctx op req c = (r, c')"
  obtains (dead) e where "db_usable c = Some e" "r = Err e" "c' = c"
  | (accepted) rep where "db_usable c = None" "r = Ok rep" "\<not> failed rep" "db_usable c' = None"
      "sent c c' [dq_functionID req]" "dc_inTx c' = dc_inTx c"
  | (refused) rep where "db_usable c = None" "r = Err (DbServer (newError T op rep))" "failed rep"
      "db_usable c' = None" "sent c c' [dq_functionID req]" "dc_inTx c' = dc_inTx c"
  | (lost) e where "db_usable c = None" "r = Err e" "db_usable c' \<noteq> None" "dc_inTx c' = dc_inTx c"
      "sent c c' [] \<or> sent c c' [dq_functionID req]"
proof -
  obtain w c1 where call: "db_call T ctx req c = (w, c1)" by fastforce
  have same: "dc_inTx c1 = dc_inTx c" by (rule db_call_inTx [OF call])
  show thesis
    using TrueI call
  proof (cases rule: dbcall.run_cases)
    case (dead e)
    with assms call show thesis by (intro that(1)) (auto simp: db_request_ok_def bind_op.simps)
  next
    case (returned rep)
    then have s: "sent c c1 [dq_functionID req]" by (auto simp: sent_def)
    show thesis
    proof (cases "failed rep")
      case True
      with returned assms call same s show thesis
        by (intro that(3)) (auto simp: db_request_ok_def bind_op.simps ret_op_def)
    next
      case False
      with returned assms call same s show thesis
        by (intro that(2)) (auto simp: db_request_ok_def bind_op.simps ret_op_def)
    qed
  next
    case (lost e)
    then have "sent c c1 [] \<or> sent c c1 [dq_functionID req]" by (auto simp: sent_def)
    with lost assms call same show thesis
      by (intro that(4)) (auto simp: db_request_ok_def bind_op.simps)
  qed
qed

text \<open>What \<^verbatim>\<open>setAutoCommit\<close> and \<^verbatim>\<open>commitOrRollback\<close> do: one request, of which only the success matters.\<close>

definition one_request :: "(db_conn, db_error, unit) op \<Rightarrow> 16 word \<Rightarrow> bool" where
  "one_request m f \<longleftrightarrow> (\<forall>c. case m c of (r, c') \<Rightarrow>
     dc_inTx c' = dc_inTx c \<and> r \<noteq> Panic \<and>
     (if db_usable c \<noteq> None then (\<exists>e. r = Err e) \<and> c' = c
      else if db_usable c' = None then sent c c' [f]
      else (\<exists>e. r = Err e) \<and> (sent c c' [] \<or> sent c c' [f])))"

lemma one_request_ok:
  "one_request (bind_op (db_request_ok T ctx op req) (\<lambda>_. ret_op (Ok ()))) (dq_functionID req)"
  unfolding one_request_def
proof (intro allI, split prod.split, intro allI impI)
  fix c r c'
  assume m: "bind_op (db_request_ok T ctx op req) (\<lambda>_. ret_op (Ok ())) c = (r, c')"
  obtain w c1 where req: "db_request_ok T ctx op req c = (w, c1)" by fastforce
  show "dc_inTx c' = dc_inTx c \<and> r \<noteq> Panic \<and>
     (if db_usable c \<noteq> None then (\<exists>e. r = Err e) \<and> c' = c
      else if db_usable c' = None then sent c c' [dq_functionID req]
      else (\<exists>e. r = Err e) \<and> (sent c c' [] \<or> sent c c' [dq_functionID req]))"
    using m req by (cases rule: request_ok_cases [OF req]) (auto simp: bind_op.simps)
qed

lemma function_of_request [simp]:
  "dq_functionID (autocommit_request on level) = fnSetAttributes"
  "dq_functionID (end_request f) = f"
  by (simp_all add: autocommit_request_def end_request_def db_request_for_def add_defs Let_def)

lemma one_request_autocommit: "one_request (setAutoCommit T ctx on level) fnSetAttributes"
  unfolding setAutoCommit_def
  by (rule one_request_ok [of T ctx "''set autocommit''" "autocommit_request on level", simplified])

lemma one_request_end: "one_request (commitOrRollback T ctx f op) f"
  unfolding commitOrRollback_def
  by (rule one_request_ok [of T ctx op "end_request f", simplified])

lemma one_request_cases:
  assumes "one_request m f" "m c = (r, c')"
  obtains (dead) e where "db_usable c \<noteq> None" "r = Err e" "c' = c"
  | (accepted) "db_usable c = None" "r = Ok ()" "db_usable c' = None" "sent c c' [f]" "dc_inTx c' = dc_inTx c"
  | (refused) e where "db_usable c = None" "r = Err e" "db_usable c' = None" "sent c c' [f]" "dc_inTx c' = dc_inTx c"
  | (lost) e where "db_usable c = None" "r = Err e" "db_usable c' \<noteq> None" "dc_inTx c' = dc_inTx c"
      "sent c c' [] \<or> sent c c' [f]"
proof -
  have *: "dc_inTx c' = dc_inTx c \<and> r \<noteq> Panic \<and>
     (if db_usable c \<noteq> None then (\<exists>e. r = Err e) \<and> c' = c
      else if db_usable c' = None then sent c c' [f]
      else (\<exists>e. r = Err e) \<and> (sent c c' [] \<or> sent c c' [f]))"
    using assms(1)[unfolded one_request_def, THEN spec, of c] unfolding assms(2) prod.case .
  show thesis
  proof (cases "db_usable c = None")
    case False
    with * obtain e where "r = Err e" "c' = c" by auto
    with False show thesis by (rule that(1))
  next
    case u: True
    show thesis
    proof (cases "db_usable c' = None")
      case True
      with * u have s: "sent c c' [f]" "dc_inTx c' = dc_inTx c" "r \<noteq> Panic" by auto
      with u True show thesis by (cases r) (auto intro: that(2) that(3))
    next
      case False
      with * u obtain e where "r = Err e" "sent c c' [] \<or> sent c c' [f]" "dc_inTx c' = dc_inTx c" by auto
      with u False show thesis by (intro that(4))
    qed
  qed
qed

section \<open>The protocol of commitment control\<close>

datatype tx_state = AutoCommit | InTransaction | Unusable

definition tx_of :: "db_conn \<Rightarrow> tx_state" where
  "tx_of c = (if db_usable c \<noteq> None then Unusable else if dc_inTx c then InTransaction else AutoCommit)"

datatype tx_op = TxBegin go_context int | TxCommit go_context | TxRollback go_context

fun tx_exec :: "ccsid_table \<Rightarrow> tx_op \<Rightarrow> (db_conn, db_error, unit) op" where
  "tx_exec T (TxBegin ctx level) = Begin T ctx level"
| "tx_exec T (TxCommit ctx) = Commit T ctx"
| "tx_exec T (TxRollback ctx) = Rollback T ctx"

datatype tx_kind = KBegin | KCommit | KRollback

fun tx_kind_of :: "tx_op \<Rightarrow> tx_kind" where
  "tx_kind_of (TxBegin _ _) = KBegin"
| "tx_kind_of (TxCommit _) = KCommit"
| "tx_kind_of (TxRollback _) = KRollback"

text \<open>
  The specification: the state before, the operation, the functions requested of the server
  in order, whether the operation succeeded, and the state after.
\<close>

inductive tx_step :: "tx_state \<Rightarrow> tx_kind \<Rightarrow> 16 word list \<Rightarrow> bool \<Rightarrow> tx_state \<Rightarrow> bool" where
  unusable: "tx_step Unusable k [] False Unusable"
| begin_ok: "tx_step AutoCommit KBegin [fnSetAttributes] True InTransaction"
| begin_refused: "tx_step AutoCommit KBegin [fnSetAttributes] False AutoCommit"
| begin_guard: "s \<noteq> Unusable \<Longrightarrow> tx_step s KBegin [] False s"
| begin_lost: "fns \<in> {[], [fnSetAttributes]} \<Longrightarrow> tx_step AutoCommit KBegin fns False Unusable"
| no_transaction: "k \<in> {KCommit, KRollback} \<Longrightarrow> tx_step AutoCommit k [] False AutoCommit"
| commit_ok: "tx_step InTransaction KCommit [fnCommit, fnSetAttributes] True AutoCommit"
| commit_rolled_back: "tx_step InTransaction KCommit [fnCommit, fnRollback, fnSetAttributes] False AutoCommit"
| commit_lost:
    "fns \<in> {[], [fnCommit], [fnCommit, fnSetAttributes], [fnCommit, fnRollback],
        [fnCommit, fnRollback, fnSetAttributes]} \<Longrightarrow>
     tx_step InTransaction KCommit fns False Unusable"
| rollback_ended: "tx_step InTransaction KRollback [fnRollback, fnSetAttributes] ok AutoCommit"
| rollback_lost:
    "fns \<in> {[], [fnRollback], [fnRollback, fnSetAttributes]} \<Longrightarrow>
     tx_step InTransaction KRollback fns False Unusable"

lemma tx_of_iff:
  "tx_of c = Unusable \<longleftrightarrow> db_usable c \<noteq> None"
  "tx_of c = InTransaction \<longleftrightarrow> db_usable c = None \<and> dc_inTx c"
  "tx_of c = AutoCommit \<longleftrightarrow> db_usable c = None \<and> \<not> dc_inTx c"
  by (simp_all add: tx_of_def)

lemma db_usable_update [simp]:
  "db_usable (c\<lparr>dc_inTx := x\<rparr>) = db_usable c"
  "db_usable (c\<lparr>dc_conn := k\<rparr>) = db_usable c"
  "db_usable (c\<lparr>dc_broken := True\<rparr>) = Some e \<longleftrightarrow> e = (if dc_closed c then ErrClosed else ErrConnBroken)"
  by (auto simp: db_usable_def)

definition refines :: "tx_kind \<Rightarrow> (db_conn, db_error, unit) op \<Rightarrow> db_conn \<Rightarrow> bool" where
  "refines k m c \<longleftrightarrow> (\<exists>fns. fst (m c) \<noteq> Panic \<and> sent c (snd (m c)) fns
     \<and> tx_step (tx_of c) k fns (fst (m c) = Ok ()) (tx_of (snd (m c))))"

lemma refinesI:
  "m c = (r, c') \<Longrightarrow> r \<noteq> Panic \<Longrightarrow> sent c c' fns \<Longrightarrow> tx_step (tx_of c) k fns (r = Ok ()) (tx_of c') \<Longrightarrow>
   refines k m c"
  by (auto simp: refines_def)

lemma Begin_refines: "refines KBegin (Begin T ctx level) c"
proof (cases "dc_inTx c \<or> level < IsolationReadUncommitted \<or> level > IsolationSerializable")
  case True
  then have "Begin T ctx level c = (Err (if dc_inTx c then DbInTransaction else DbIsolation level), c)"
    by (auto simp: Begin_def)
  then show ?thesis
    by (rule refinesI [where fns = "[]"]) (auto intro: tx_step.intros simp: tx_of_def)
next
  case False
  obtain r c' where m: "setAutoCommit T ctx False level c = (r, c')" by fastforce
  from one_request_autocommit m show ?thesis
  proof (cases rule: one_request_cases)
    case (dead e)
    with False m show ?thesis
      by (intro refinesI [where fns = "[]"]) (auto simp: Begin_def tx_of_def intro: tx_step.intros)
  next
    case accepted
    with False m show ?thesis
      by (intro refinesI [where fns = "[fnSetAttributes]" and r = "Ok ()" and c' = "c'\<lparr>dc_inTx := True\<rparr>"])
        (auto simp: Begin_def tx_of_def intro: tx_step.intros)
  next
    case (refused e)
    with False m show ?thesis
      by (intro refinesI [where fns = "[fnSetAttributes]"]) (auto simp: Begin_def tx_of_def intro: tx_step.intros)
  next
    case (lost e)
    then obtain fns where "sent c c' fns" "fns \<in> {[], [fnSetAttributes]}" by auto
    with lost False m show ?thesis
      by (intro refinesI [where fns = fns]) (auto simp: Begin_def tx_of_def intro: tx_step.intros)
  qed
qed

text \<open>Restoring autocommit after a commit or rollback that went well or not.\<close>

lemma restore_cases:
  assumes "restore_autocommit T ctx endErr c = (r, c')" "dc_inTx c"
  obtains (restored) "db_usable c = None" "tx_of c' = AutoCommit" "sent c c' [fnSetAttributes]"
      "r \<noteq> Panic" "r = Ok () \<longleftrightarrow> endErr = None"
  | (broken) fns e where "tx_of c' = Unusable" "sent c c' fns" "fns \<in> {[], [fnSetAttributes]}" "r = Err e"
proof -
  obtain r1 c1 where m: "setAutoCommit T ctx True IsolationNone c = (r1, c1)" by fastforce
  from one_request_autocommit m show thesis
  proof (cases rule: one_request_cases)
    case (dead e)
    with m assms show thesis by (intro that(2) [where fns = "[]"]) (auto simp: restore_autocommit_def tx_of_def)
  next
    case accepted
    with m assms show thesis by (intro that(1)) (auto simp: restore_autocommit_def tx_of_def split: option.splits)
  next
    case (refused e)
    with m assms show thesis
      by (intro that(2) [where fns = "[fnSetAttributes]"]) (auto simp: restore_autocommit_def tx_of_def)
  next
    case (lost e)
    then obtain fns where "sent c c1 fns" "fns \<in> {[], [fnSetAttributes]}" by auto
    with lost m assms show thesis
      by (intro that(2) [where fns = fns]) (auto simp: restore_autocommit_def tx_of_def)
  qed
qed

lemma restore_dead:
  assumes "db_usable c \<noteq> None"
  obtains e where "restore_autocommit T ctx endErr c = (Err e, c\<lparr>dc_broken := True\<rparr>)"
proof -
  obtain r1 c1 where m: "setAutoCommit T ctx True IsolationNone c = (r1, c1)" by fastforce
  from one_request_autocommit m show thesis
    by (cases rule: one_request_cases) (use assms m that in \<open>auto simp: restore_autocommit_def\<close>)
qed

text \<open>A sequence of frames, then restoring.\<close>

lemma restore_refines:
  assumes "m c = restore_autocommit T ctx endErr c1" "dc_inTx c1" "sent c c1 fns" "tx_of c = InTransaction"
    and "tx_step InTransaction k (fns @ [fnSetAttributes]) (endErr = None) AutoCommit"
    and "tx_step InTransaction k fns False Unusable" "tx_step InTransaction k (fns @ [fnSetAttributes]) False Unusable"
  shows "refines k m c"
proof -
  obtain r c' where r: "restore_autocommit T ctx endErr c1 = (r, c')" by fastforce
  then show ?thesis
    using assms(2)
  proof (cases rule: restore_cases)
    case restored
    with assms r show ?thesis
      by (intro refinesI [of _ _ r c' "fns @ [fnSetAttributes]"]) (auto intro: sent_trans)
  next
    case (broken fns' e)
    then have "tx_step InTransaction k (fns @ fns') False Unusable" using assms(6,7) by auto
    with broken assms r show ?thesis
      by (intro refinesI [of _ _ r c' "fns @ fns'"]) (auto intro: sent_trans)
  qed
qed

lemma Rollback_refines: "refines KRollback (Rollback T ctx) c"
proof (cases "dc_inTx c")
  case False
  then show ?thesis
    by (intro refinesI [where fns = "[]" and r = "Err DbNoTransaction" and c' = c])
      (auto simp: Rollback_def endTransaction_def tx_of_def intro: tx_step.intros)
next
  case True
  obtain r c1 where m: "commitOrRollback T ctx fnRollback ''rollback'' c = (r, c1)" by fastforce
  have f: "fnRollback \<noteq> fnCommit" by (simp add: fn_defs)
  note e = Rollback_def endTransaction_def
  from one_request_end m show ?thesis
  proof (cases rule: one_request_cases)
    case (dead e')
    then obtain e'' where "restore_autocommit T ctx (Some e') c = (Err e'', c\<lparr>dc_broken := True\<rparr>)"
      using restore_dead by blast
    with dead True m f show ?thesis
      by (intro refinesI [where fns = "[]" and r = "Err e''" and c' = "c\<lparr>dc_broken := True\<rparr>"])
        (auto simp: e tx_of_def intro: tx_step.intros)
  next
    case accepted
    with True m f show ?thesis
      by (intro restore_refines [where fns = "[fnRollback]" and ?c1.0 = c1 and endErr = None and T = T and ctx = ctx])
        (auto simp: e tx_of_def intro: tx_step.intros)
  next
    case (refused e')
    with True m f show ?thesis
      by (intro restore_refines [where fns = "[fnRollback]" and ?c1.0 = c1 and endErr = "Some e'" and T = T and ctx = ctx])
        (auto simp: e tx_of_def intro: tx_step.intros)
  next
    case (lost e')
    then obtain fns where fns: "sent c c1 fns" "fns \<in> {[], [fnRollback]}" by auto
    obtain e'' where "restore_autocommit T ctx (Some e') c1 = (Err e'', c1\<lparr>dc_broken := True\<rparr>)"
      using restore_dead lost(3) by blast
    with lost fns True m f show ?thesis
      by (intro refinesI [where fns = fns and r = "Err e''" and c' = "c1\<lparr>dc_broken := True\<rparr>"])
        (auto simp: e tx_of_def intro: tx_step.intros)
  qed
qed

text \<open>The rollback of a commit that failed.\<close>

definition after_failed_commit :: "ccsid_table \<Rightarrow> go_context \<Rightarrow> db_error \<Rightarrow> (db_conn, db_error, unit) op" where
  "after_failed_commit T ctx endErr c1 =
     (case commitOrRollback T ctx fnRollback ''rollback'' c1 of
        (Ok _, c2) \<Rightarrow> restore_autocommit T ctx (Some endErr) c2
      | (Err rbErr, c2) \<Rightarrow> (Err (the (join_errors [Some endErr, Some rbErr])), c2\<lparr>dc_broken := True\<rparr>)
      | (Panic, c2) \<Rightarrow> (Panic, c2))"

lemma Commit_cases_eq:
  "dc_inTx c \<Longrightarrow> commitOrRollback T ctx fnCommit ''commit'' c = (r, c1) \<Longrightarrow>
   Commit T ctx c = (case r of Ok _ \<Rightarrow> restore_autocommit T ctx None c1
     | Err e \<Rightarrow> after_failed_commit T ctx e c1 | Panic \<Rightarrow> (Panic, c1))"
  by (simp add: Commit_def endTransaction_def after_failed_commit_def split: res.splits)

lemma after_failed_commit_dead:
  assumes "db_usable c1 \<noteq> None"
  obtains e where "after_failed_commit T ctx e1 c1 = (Err e, c1\<lparr>dc_broken := True\<rparr>)"
proof -
  obtain r1 c2 where m: "commitOrRollback T ctx fnRollback ''rollback'' c1 = (r1, c2)" by fastforce
  from one_request_end m show thesis
    by (cases rule: one_request_cases) (use assms m that in \<open>auto simp: after_failed_commit_def\<close>)
qed

text \<open>A commit whose request ended the connection, or found it ended.\<close>

lemma Commit_dead_refines:
  assumes "Commit T ctx c = after_failed_commit T ctx e c1" "db_usable c1 \<noteq> None" "sent c c1 fns"
    and "tx_step (tx_of c) KCommit fns False Unusable"
  shows "refines KCommit (Commit T ctx) c"
proof -
  obtain e' where "after_failed_commit T ctx e c1 = (Err e', c1\<lparr>dc_broken := True\<rparr>)"
    using after_failed_commit_dead assms(2) by blast
  with assms show ?thesis
    by (intro refinesI [where fns = fns and r = "Err e'" and c' = "c1\<lparr>dc_broken := True\<rparr>"])
      (auto simp: tx_of_def)
qed

lemma Commit_refused_refines:
  assumes "Commit T ctx c = after_failed_commit T ctx e c1" "tx_of c = InTransaction" "dc_inTx c1"
    and "db_usable c1 = None" "sent c c1 [fnCommit]"
  shows "refines KCommit (Commit T ctx) c"
proof -
  obtain r c2 where m: "commitOrRollback T ctx fnRollback ''rollback'' c1 = (r, c2)" by fastforce
  from one_request_end m show ?thesis
  proof (cases rule: one_request_cases)
    case (dead e')
    with assms(4) show ?thesis by simp
  next
    case accepted
    with m assms sent_trans [OF assms(5) accepted(4)] show ?thesis
      by (intro restore_refines [where fns = "[fnCommit, fnRollback]" and ?c1.0 = c2 and endErr = "Some e"
            and T = T and ctx = ctx]) (auto simp: after_failed_commit_def intro: tx_step.intros)
  next
    case (refused e')
    with m assms sent_trans [OF assms(5) refused(4)] show ?thesis
      by (intro refinesI [where fns = "[fnCommit, fnRollback]" and r = "Err (the (join_errors [Some e, Some e']))"
            and c' = "c2\<lparr>dc_broken := True\<rparr>"])
        (auto simp: after_failed_commit_def tx_of_def intro: tx_step.intros split: if_splits)
  next
    case (lost e')
    then obtain fns where fns: "sent c1 c2 fns" "fns \<in> {[], [fnRollback]}" by auto
    with m assms lost sent_trans [OF assms(5) fns(1)] show ?thesis
      by (intro refinesI [where fns = "[fnCommit] @ fns" and r = "Err (the (join_errors [Some e, Some e']))"
            and c' = "c2\<lparr>dc_broken := True\<rparr>"])
        (auto simp: after_failed_commit_def tx_of_def intro: tx_step.intros split: if_splits)
  qed
qed

lemma Commit_refines: "refines KCommit (Commit T ctx) c"
proof (cases "dc_inTx c")
  case False
  then show ?thesis
    by (intro refinesI [where fns = "[]" and r = "Err DbNoTransaction" and c' = c])
      (auto simp: Commit_def endTransaction_def tx_of_def intro: tx_step.intros)
next
  case True
  obtain r c1 where m: "commitOrRollback T ctx fnCommit ''commit'' c = (r, c1)" by fastforce
  note eq = Commit_cases_eq [OF True m]
  from one_request_end m show ?thesis
  proof (cases rule: one_request_cases)
    case (dead e)
    with eq show ?thesis
      by (intro Commit_dead_refines [where fns = "[]" and e = e and ?c1.0 = c])
        (auto simp: tx_of_def intro: tx_step.intros)
  next
    case accepted
    with True eq show ?thesis
      by (intro restore_refines [where fns = "[fnCommit]" and ?c1.0 = c1 and endErr = None and T = T and ctx = ctx])
        (auto simp: tx_of_def intro: tx_step.intros)
  next
    case (refused e)
    with True eq show ?thesis
      by (intro Commit_refused_refines [where e = e and ?c1.0 = c1]) (auto simp: tx_of_def)
  next
    case (lost e)
    then obtain fns where "sent c c1 fns" "fns \<in> {[], [fnCommit]}" by auto
    with lost True eq show ?thesis
      by (intro Commit_dead_refines [where fns = fns and e = e and ?c1.0 = c1])
        (auto simp: tx_of_def intro: tx_step.intros)
  qed
qed

lemma tx_exec_refines: "refines (tx_kind_of op) (tx_exec T op) c"
  using Begin_refines Commit_refines Rollback_refines by (cases op) simp_all

section \<open>Runs\<close>

text \<open>A sequence of operations, and how many of them were a \<^verbatim>\<open>Begin\<close> that succeeded.\<close>

fun tx_run :: "ccsid_table \<Rightarrow> tx_op list \<Rightarrow> db_conn \<Rightarrow> nat \<times> db_conn" where
  "tx_run T [] c = (0, c)"
| "tx_run T (op # ops) c =
     (case tx_exec T op c of (r, c1) \<Rightarrow>
       (case tx_run T ops c1 of (n, c2) \<Rightarrow>
         (if tx_kind_of op = KBegin \<and> r = Ok () then Suc n else n, c2)))"

definition open_transactions :: "db_conn \<Rightarrow> nat" where
  "open_transactions c = (if tx_of c = InTransaction then 1 else 0)"

lemma tx_step_commits:
  "tx_step s k fns ok s' \<Longrightarrow>
   count_list fns fnCommit + (if s' = InTransaction then 1 else 0)
     \<le> (if k = KBegin \<and> ok then 1 else 0) + (if s = InTransaction then 1 else 0) \<and> length fns \<le> 3"
  by (induction rule: tx_step.induct) (auto simp: fn_defs)

lemma tx_run_commits:
  "tx_run T ops c = (n, c') \<Longrightarrow>
   \<exists>fns. sent c c' fns \<and> count_list fns fnCommit + open_transactions c' \<le> n + open_transactions c
     \<and> length fns \<le> 3 * length ops"
proof (induction ops arbitrary: c n)
  case Nil
  then show ?case by (intro exI [of _ "[]"]) simp
next
  case (Cons op ops)
  obtain r c1 n1 where step: "tx_exec T op c = (r, c1)" and run: "tx_run T ops c1 = (n1, c')"
    and n: "n = (if tx_kind_of op = KBegin \<and> r = Ok () then Suc n1 else n1)"
    using Cons.prems by (auto split: prod.splits)
  obtain f1 where f1: "sent c c1 f1" "tx_step (tx_of c) (tx_kind_of op) f1 (r = Ok ()) (tx_of c1)"
    using tx_exec_refines [of op T c] step by (auto simp: refines_def)
  obtain f2 where f2: "sent c1 c' f2" "count_list f2 fnCommit + open_transactions c' \<le> n1 + open_transactions c1"
      "length f2 \<le> 3 * length ops"
    using Cons.IH [OF run] by blast
  show ?case
    using sent_trans [OF f1(1) f2(1)] f2(2,3) tx_step_commits [OF f1(2)] n
    by (intro exI [of _ "f1 @ f2"]) (auto simp: open_transactions_def split: if_splits)
qed

section \<open>A server that accepts\<close>

definition accepts :: "ccsid_table \<Rightarrow> request \<Rightarrow> bool" where
  "accepts T a \<longleftrightarrow> frameable a \<and>
     (case parseReply T (reply_of a) of Ok rep \<Rightarrow> \<not> failed rep | _ \<Rightarrow> False)"

text \<open>A healthy connection, and the replies the server will give.\<close>

definition serving :: "db_conn \<Rightarrow> request list \<Rightarrow> bool" where
  "serving c as \<longleftrightarrow> db_usable c = None \<and> idle (dc_conn c) \<and> script (dc_conn c) = map answering as"

lemma serving_update [simp]: "serving (c\<lparr>dc_inTx := x\<rparr>) as = serving c as"
  by (simp add: serving_def db_usable_def)

lemma db_call_served:
  assumes "serving c (a # as)" "frameable a" "parseReply T (reply_of a) = Ok rep"
  shows "\<exists>c'. db_call T background q c = (Ok rep, c') \<and> serving c' as \<and> dc_inTx c' = dc_inTx c
    \<and> db_written c' = db_written c @ [db_frame c' q]"
proof -
  obtain k where "Call (db_encode q) (dc_conn c) = (Ok (reply_of a), k)" "idle k" "script k = map answering as"
      "written k = written (dc_conn c) @ [frame_for k (db_encode q)]"
    using Call_answered [of "dc_conn c" a "map answering as" "db_encode q"] assms(1,2)
    by (auto simp: serving_def)
  then show ?thesis
    using assms(1,3) by (simp add: db_call_def Call_def serving_def db_written_def db_frame_def)
qed

lemma request_served:
  assumes "serving c (a # as)" "accepts T a"
  shows "\<exists>c'. bind_op (db_request_ok T background op q) (\<lambda>_. ret_op (Ok ())) c = (Ok (), c')
    \<and> serving c' as \<and> dc_inTx c' = dc_inTx c \<and> sent c c' [dq_functionID q]"
proof -
  obtain rep where rep: "frameable a" "parseReply T (reply_of a) = Ok rep" "\<not> failed rep"
    using assms(2) by (auto simp: accepts_def split: res.splits)
  obtain c' where "db_call T background q c = (Ok rep, c')" "serving c' as" "dc_inTx c' = dc_inTx c"
      "db_written c' = db_written c @ [db_frame c' q]"
    using db_call_served [OF assms(1) rep(1,2)] by blast
  with rep(3) show ?thesis
    by (auto simp: db_request_ok_def bind_op.simps ret_op_def sent_def)
qed

lemma autocommit_served:
  "serving c (a # as) \<Longrightarrow> accepts T a \<Longrightarrow>
   \<exists>c'. setAutoCommit T background on level c = (Ok (), c') \<and> serving c' as \<and> dc_inTx c' = dc_inTx c
     \<and> sent c c' [fnSetAttributes]"
  using request_served [of c a as T "''set autocommit''" "autocommit_request on level"]
  by (simp add: setAutoCommit_def)

lemma end_served:
  "serving c (a # as) \<Longrightarrow> accepts T a \<Longrightarrow>
   \<exists>c'. commitOrRollback T background f op c = (Ok (), c') \<and> serving c' as \<and> dc_inTx c' = dc_inTx c
     \<and> sent c c' [f]"
  using request_served [of c a as T op "end_request f"] by (simp add: commitOrRollback_def)

lemma Begin_served:
  assumes "serving c (a # as)" "accepts T a" "\<not> dc_inTx c" "1 \<le> level" "level \<le> 4"
  shows "\<exists>c'. Begin T background level c = (Ok (), c') \<and> serving c' as \<and> dc_inTx c'
    \<and> sent c c' [fnSetAttributes]"
proof -
  obtain c' where "setAutoCommit T background False level c = (Ok (), c')" "serving c' as"
      "sent c c' [fnSetAttributes]"
    using autocommit_served [OF assms(1,2)] by blast
  with assms show ?thesis
    by (auto simp: Begin_def IsolationReadUncommitted_def IsolationSerializable_def)
qed

lemma Commit_served:
  assumes "serving c (a # b # as)" "accepts T a" "accepts T b" "dc_inTx c"
  shows "\<exists>c'. Commit T background c = (Ok (), c') \<and> serving c' as \<and> \<not> dc_inTx c'
    \<and> sent c c' [fnCommit, fnSetAttributes]"
proof -
  obtain c1 where c1: "commitOrRollback T background fnCommit ''commit'' c = (Ok (), c1)" "serving c1 (b # as)"
      "sent c c1 [fnCommit]"
    using end_served [OF assms(1,2)] by blast
  obtain c' where "setAutoCommit T background True IsolationNone c1 = (Ok (), c')" "serving c' as"
      "sent c1 c' [fnSetAttributes]"
    using autocommit_served [OF c1(2) assms(3)] by blast
  with c1 assms(4) sent_trans [OF c1(3), of c' "[fnSetAttributes]"] show ?thesis
    by (auto simp: Commit_cases_eq restore_autocommit_def)
qed

section \<open>Connecting\<close>

lemma attributes_request_no_panic: "attributes_request T opts \<noteq> Panic"
  by (simp add: attributes_request_def bind_res_Panic_iff Let_def)

lemma parseServerAttributes_same:
  "parseServerAttributes T a c = (r, c') \<Longrightarrow>
   r \<noteq> Panic \<and> dc_conn c' = dc_conn c \<and> dc_opts c' = dc_opts c \<and> dc_ids c' = dc_ids c
   \<and> dc_inTx c' = dc_inTx c \<and> dc_broken c' = dc_broken c \<and> dc_closed c' = dc_closed c"
  by (auto simp: parseServerAttributes_def Let_def split: if_splits)

text \<open>\<^verbatim>\<open>setServerAttributes\<close>: at most one frame, and a session that is fresh stays so.\<close>

definition fresh :: "db_conn \<Rightarrow> bool" where
  "fresh c \<longleftrightarrow> db_usable c = None \<and> \<not> dc_inTx c \<and> dc_ids c = (\<lambda>_. False)"

lemma fresh_new_conn [simp]: "fresh (new_conn opts k)" "db_written (new_conn opts k) = written k"
  "dc_opts (new_conn opts k) = opts" "dc_conn (new_conn opts k) = k"
  by (simp_all add: fresh_def new_conn_def db_usable_def db_written_def)

lemma setServerAttributes_outcome:
  assumes "setServerAttributes T c = (r, c')" "fresh c"
  shows "r \<noteq> Panic \<and> (\<exists>new. db_written c' = db_written c @ new \<and> length new \<le> 1)
    \<and> (r = Ok () \<longrightarrow> fresh c' \<and> dc_opts c' = dc_opts c)"
  using assms(1) unfolding setServerAttributes_def
proof (cases rule: bind_op_cases)
  case panics
  then show ?thesis using attributes_request_no_panic by auto
next
  case (continues req c0)
  then have c0: "c0 = c" by simp
  obtain w c1 where call: "db_call T background req c = (w, c1)" by fastforce
  have new: "\<exists>new. db_written c1 = db_written c @ new \<and> length new \<le> 1"
    using dbcall.run_adds [of T background req] call unfolding adds_at_most_def by (metis snd_conv)
  have fields: "dc_opts c1 = dc_opts c" "dc_ids c1 = dc_ids c" "dc_inTx c1 = dc_inTx c"
    using call by (auto simp: db_call_def split: option.splits prod.splits res.splits)
  from TrueI call show ?thesis
  proof (cases rule: dbcall.run_cases)
    case (dead e)
    then show ?thesis using assms(2) by (simp add: fresh_def)
  next
    case (lost e)
    then show ?thesis using continues(2) call new c0 by (auto simp: bind_op.simps wrap_op_def)
  next
    case (returned rep)
    show ?thesis
    proof (cases "failed rep")
      case True
      then show ?thesis using continues(2) call new c0 returned by (auto simp: bind_op.simps wrap_op_def ret_op_def)
    next
      case False
      then have "parseServerAttributes T (dr_serverAttributes rep) c1 = (r, c')"
        using continues(2) call c0 returned by (simp add: bind_op.simps wrap_op_def)
      from parseServerAttributes_same [OF this] show ?thesis
        using new returned fields assms(2)
        by (auto simp: fresh_def db_usable_def db_written_def split: if_splits)
    qed
  qed
qed auto

lemma db_handshake_outcome:
  assumes "crypto_sizes C"
  shows "never_panics (db_handshake C T millis u p opts)"
    and "adds_at_most written 3 (db_handshake C T millis u p opts)"
    and "db_handshake C T millis u p opts k = (Ok c, k') \<Longrightarrow> fresh c \<and> dc_opts c = opts \<and> dc_conn c = k'"
proof -
  let ?rest = "\<lambda>k. case setServerAttributes T (new_conn opts k) of
      (Ok _, c) \<Rightarrow> (Ok c, dc_conn c) | (Err e, c) \<Rightarrow> (Err e, dc_conn c) | (Panic, c) \<Rightarrow> (Panic, dc_conn c)"
  have rest: "fst (?rest k) \<noteq> Panic \<and> (\<exists>new. written (snd (?rest k)) = written k @ new \<and> length new \<le> 1)
      \<and> (\<forall>c k'. ?rest k = (Ok c, k') \<longrightarrow> fresh c \<and> dc_opts c = opts \<and> dc_conn c = k')" for k
  proof -
    obtain r c where m: "setServerAttributes T (new_conn opts k) = (r, c)" by fastforce
    from setServerAttributes_outcome [OF m] show ?thesis
      by (cases r) (auto simp: m db_written_def)
  qed
  show "never_panics (db_handshake C T millis u p opts)"
    unfolding db_handshake_def
    by (intro op_rules Logon_never_panics assms) (use rest in \<open>simp add: never_panics_def\<close>)
  have "adds_at_most written (2 + 1) (db_handshake C T millis u p opts)"
    unfolding db_handshake_def
    by (intro adds_at_most_bind adds_at_most_wrap Logon_adds assms)
      (use rest in \<open>simp add: adds_at_most_def\<close>)
  then show "adds_at_most written 3 (db_handshake C T millis u p opts)" by simp
  show "db_handshake C T millis u p opts k = (Ok c, k') \<Longrightarrow> fresh c \<and> dc_opts c = opts \<and> dc_conn c = k'"
    unfolding db_handshake_def bind_op_Ok_iff using rest by blast
qed

lemma db_Connect_fresh:
  assumes "crypto_sizes C" and "db_Connect C T net millis dial u p opts = (Ok c, k)"
  shows "fresh c \<and> dc_opts c = with_defaults opts \<and> k = Some (dc_conn c) \<and> length (db_written c) \<le> 3"
proof -
  from connect_with_outcome [OF assms(2)[unfolded db_Connect_def] db_handshake_outcome(1,2) [OF assms(1)]]
  obtain conn evs where k: "k = Some conn" "length (written conn) \<le> 3"
    and "db_handshake C T millis u p (with_defaults opts)
      (dialed (do_IOTimeout (default_port PortDatabasePlain PortDatabaseSecure dial)) evs) = (Ok c, conn)" by blast
  with db_handshake_outcome(3) [OF assms(1)] show ?thesis by (auto simp: db_written_def)
qed

section \<open>Properties\<close>


text \<open>C9. At most one commit per \<^verbatim>\<open>Begin\<close>: over any sequence of operations, the commit requests
  written, with the transaction still open at the end, are at most the \<^verbatim>\<open>Begin\<close>s that succeeded
  with the one open at the start; and an operation costs at most three requests.\<close>

theorem commits_bounded_by_begins:
  "\<exists>fs. db_written (snd (tx_run T ops c)) = db_written c @ fs \<and> length fs \<le> 3 * length ops \<and>
     length (filter (\<lambda>f. frame_function f = fnCommit) fs) + open_transactions (snd (tx_run T ops c))
       \<le> fst (tx_run T ops c) + open_transactions c"
proof -
  obtain n c' fns where run: "tx_run T ops c = (n, c')" and fns: "sent c c' fns"
      "count_list fns fnCommit + open_transactions c' \<le> n + open_transactions c" "length fns \<le> 3 * length ops"
    using tx_run_commits by (metis surj_pair)
  then obtain fs where "db_written c' = db_written c @ fs" "map frame_function fs = fns"
    by (auto simp: sent_def)
  moreover from this have "length (filter (\<lambda>f. frame_function f = fnCommit) fs) = count_list fns fnCommit"
    "length fs = length fns"
    by (auto simp: count_list_eq_length_filter filter_map comp_def eq_commute)
  ultimately show ?thesis using run fns by (intro exI [of _ fs]) simp
qed


text \<open>The plainest reply that accepts, and a session on a server that gives it three times.\<close>

definition accepting_reply :: request where
  "accepting_reply = peer_reply ServerDatabase 0 (server_reply (replicate 14 0) 0 0 [])"

lemma plain_head_zeros: "plain_head (replicate 14 0)"
  by (simp add: plain_head_def u16_def numeral_eq_Suc)

lemma accepts_accepting_reply: "accepts T accepting_reply"
proof -
  have "parseReply T (reply_of accepting_reply) = Ok (fold (take_item T) [] (blank_reply 0 (sint (0 :: 32 word))))"
    by (rule parseReply_server [OF plain_head_zeros]) (simp_all add: accepting_reply_def)
  moreover have "frameable accepting_reply"
    unfolding accepting_reply_def
    by (rule frameable_peer_reply) (simp_all add: ServerDatabase_def server_reply_def EncodeParams_def)
  ultimately show ?thesis by (simp add: accepts_def failed_def blank_reply_def)
qed

definition plain_options :: db_options where
  "plain_options = \<lparr>op_SystemNaming = False, op_DefaultSchema = [], op_Location = Some UTC, op_BlockSize = 100\<rparr>"

definition served_session :: "request list \<Rightarrow> db_conn" where
  "served_session as = new_conn plain_options (dialed 0 (map answering as))"

lemma serving_served_session: "serving (served_session as) as" "tx_of (served_session as) = AutoCommit"
  by (simp_all add: serving_def served_session_def new_conn_def db_usable_def tx_of_def)



definition local_dial :: dial_options where
  "local_dial = \<lparr>do_Host = ''h'', do_Port = 0, do_TLS = False, do_Timeout = 0, do_IOTimeout = 0\<rparr>"


end
