(* ===== verification/DbStmt.thy ===== *)
theory DbStmt
  imports DbTx
begin

text \<open>
  \<^verbatim>\<open>database/stmt.go\<close>: prepared statements and the rows of their cursors. Statements and rows
  are shared by reference in the code; here they live in two heaps of a session, addressed by
  the order in which they were made.
\<close>

section \<open>The first keyword\<close>

text \<open>Leading space, parentheses and comments; \<open>None\<close> where the comment does not end.\<close>

function skip_comments :: "string \<Rightarrow> string option" where
  "skip_comments s0 =
     (let s = TrimLeftFunc (\<lambda>r. is_space r \<or> r = of_char CHR ''('') s0 in
      if HasPrefix s ''--'' then
        (case after_first [CHR 0x0A] s of Some t \<Rightarrow> skip_comments t | None \<Rightarrow> None)
      else if HasPrefix s ''/*'' then
        (case after_first ''*/'' s of Some t \<Rightarrow> skip_comments t | None \<Rightarrow> None)
      else Some s)"
  by auto
termination
proof (relation "measure length", goal_cases)
  case (2 s0 s t)
  from after_first_length [OF 2(3)] length_TrimLeftFunc [of _ s0] 2(1) show ?case
    by (simp, metis le_trans not_less)
next
  case (3 s0 s t)
  from after_first_length [OF 3(4)] length_TrimLeftFunc [of _ s0] 3(1) show ?case
    by (simp, metis le_trans not_less)
qed simp

declare skip_comments.simps [simp del]

definition firstKeyword :: "'a golib_scheme \<Rightarrow> string \<Rightarrow> string" where
  "firstKeyword G query =
     (case skip_comments query of
        None \<Rightarrow> []
      | Some s \<Rightarrow> ToUpper G (before_func (\<lambda>r. \<not> is_letter G r) s))"

definition stmtTypeUndetermined :: "16 word" where "stmtTypeUndetermined = 0"
definition stmtTypeOther :: "16 word" where "stmtTypeOther = 1"
definition stmtTypeSelect :: "16 word" where "stmtTypeSelect = 2"
definition stmtTypeCall :: "16 word" where "stmtTypeCall = 3"

definition reuseNo :: byte where "reuseNo = 0xF0"
definition reuseYes :: byte where "reuseYes = 0xF1"

definition statementType :: "'a golib_scheme \<Rightarrow> string \<Rightarrow> 16 word" where
  "statementType G query =
     (let k = firstKeyword G query in
      if k \<in> {''SELECT'', ''WITH'', ''VALUES''} then stmtTypeSelect
      else if k = ''CALL'' then stmtTypeCall
      else if k = ''SET'' then stmtTypeUndetermined
      else stmtTypeOther)"

section \<open>State\<close>

text \<open>A pointer to a statement or to rows is an address; \<open>st_columns\<close> is \<open>None\<close> for \<^verbatim>\<open>nil\<close>.\<close>

record stmt =
  st_id :: nat
  st_query :: string
  st_stmtType :: "16 word"
  st_columns :: "field list option"
  st_params :: "field list"
  st_descriptorSent :: bool
  st_rows :: "nat option"
  st_closed :: bool

record rows =
  rw_st :: nat
  rw_block :: "resultData option"
  rw_next :: nat
  rw_eof :: bool
  rw_cursorOpen :: bool
  rw_closed :: bool
  rw_closeStmt :: bool

record db_session =
  ss_conn :: db_conn
  ss_stmts :: "nat \<Rightarrow> stmt"
  ss_nstmts :: nat
  ss_rows :: "nat \<Rightarrow> rows"
  ss_nrows :: nat

type_synonym 'a session_op = "(db_session, db_error, 'a) op"

definition on_conn :: "(db_conn, db_error, 'a) op \<Rightarrow> 'a session_op" where
  "on_conn m s = (case m (ss_conn s) of (r, c) \<Rightarrow> (r, s\<lparr>ss_conn := c\<rparr>))"

definition upd_stmt :: "nat \<Rightarrow> (stmt \<Rightarrow> stmt) \<Rightarrow> db_session \<Rightarrow> db_session" where
  "upd_stmt i f s = s\<lparr>ss_stmts := (ss_stmts s)(i := f (ss_stmts s i))\<rparr>"

definition upd_rows :: "nat \<Rightarrow> (rows \<Rightarrow> rows) \<Rightarrow> db_session \<Rightarrow> db_session" where
  "upd_rows r f s = s\<lparr>ss_rows := (ss_rows s)(r := f (ss_rows s r))\<rparr>"

definition stmt_usable :: "nat \<Rightarrow> db_session \<Rightarrow> db_error option" where
  "stmt_usable i s = (if st_closed (ss_stmts s i) then Some ErrClosed else db_usable (ss_conn s))"

text \<open>A request on the server job's request parameter block of a statement.\<close>

definition stmt_request :: "16 word \<Rightarrow> stmt \<Rightarrow> 32 word \<Rightarrow> db_request" where
  "stmt_request fn st ors = db_request_for fn (of_nat (st_id st)) ors"

definition columns_of :: "stmt \<Rightarrow> field list" where
  "columns_of st = (case st_columns st of None \<Rightarrow> [] | Some cs \<Rightarrow> cs)"

definition NumInput :: "stmt \<Rightarrow> nat" where
  "NumInput st = length (st_params st)"

definition ReturnsRows :: "stmt \<Rightarrow> bool" where
  "ReturnsRows st \<longleftrightarrow> st_columns st \<noteq> None"

section \<open>Closing\<close>

definition rows_close :: "nat \<Rightarrow> byte \<Rightarrow> unit session_op" where
  "rows_close r reuse s =
     (let i = rw_st (ss_rows s r);
          s1 = upd_rows r (\<lambda>x. x\<lparr>rw_closed := True\<rparr>) s;
          s2 = (if st_rows (ss_stmts s1 i) = Some r then upd_stmt i (\<lambda>x. x\<lparr>st_rows := None\<rparr>) s1 else s1)
      in if \<not> rw_cursorOpen (ss_rows s2 r) \<or> db_usable (ss_conn s2) \<noteq> None then (Ok (), s2)
         else on_conn (db_send (addByte 0x3810 reuse (stmt_request fnClose (ss_stmts s2 i) 0)))
           (upd_rows r (\<lambda>x. x\<lparr>rw_cursorOpen := False\<rparr>) s2))"

definition closeRows :: "nat \<Rightarrow> byte \<Rightarrow> unit session_op" where
  "closeRows i reuse s =
     (case st_rows (ss_stmts s i) of None \<Rightarrow> (Ok (), s) | Some r \<Rightarrow> rows_close r reuse s)"

text \<open>\<^verbatim>\<open>errors.Join\<close> of the errors of several results.\<close>

fun error_of :: "(db_error, 'a) res \<Rightarrow> db_error option" where
  "error_of (Err e) = Some e"
| "error_of _ = None"

definition joined :: "db_error option list \<Rightarrow> (db_error, unit) res" where
  "joined es = (case join_errors es of None \<Rightarrow> Ok () | Some e \<Rightarrow> Err e)"

definition descriptor_request :: "16 word \<Rightarrow> stmt \<Rightarrow> db_request" where
  "descriptor_request fn st = (stmt_request fn st 0)\<lparr>dq_pmHandle := of_nat (st_id st)\<rparr>"

definition delete_descriptor :: "nat \<Rightarrow> unit session_op" where
  "delete_descriptor i s =
     (if st_descriptorSent (ss_stmts s i)
      then on_conn (db_send (descriptor_request fnDeleteDescriptor (ss_stmts s i))) s
      else (Ok (), s))"

definition delete_rpb :: "ccsid_table \<Rightarrow> go_context \<Rightarrow> nat \<Rightarrow> db_reply session_op" where
  "delete_rpb T ctx i s =
     on_conn (db_request_ok T ctx ''close statement'' (stmt_request fnDeleteRPB (ss_stmts s i) orsReply)) s"

text \<open>The part of \<^verbatim>\<open>release\<close> that tells the server.\<close>

definition release_server :: "ccsid_table \<Rightarrow> go_context \<Rightarrow> nat \<Rightarrow> unit session_op" where
  "release_server T ctx i s =
     (case closeRows i reuseNo s of (r1, s1) \<Rightarrow>
       (case delete_descriptor i s1 of
          (Err e, s2) \<Rightarrow> (joined [error_of r1, Some e], s2)
        | (Panic, s2) \<Rightarrow> (Panic, s2)
        | (Ok _, s2) \<Rightarrow>
            (case delete_rpb T ctx i s2 of
               (Panic, s3) \<Rightarrow> (Panic, s3)
             | (r3, s3) \<Rightarrow> (joined [error_of r1, error_of r3], s3))))"

definition release :: "ccsid_table \<Rightarrow> go_context \<Rightarrow> nat \<Rightarrow> unit session_op" where
  "release T ctx i s =
     (let s0 = upd_stmt i (\<lambda>x. x\<lparr>st_closed := True\<rparr>) s in
      case (if db_usable (ss_conn s0) \<noteq> None then (Ok (), s0) else release_server T ctx i s0) of
        (r, s1) \<Rightarrow> (r, s1\<lparr>ss_conn := freeID (st_id (ss_stmts s1 i)) (ss_conn s1)\<rparr>))"

definition stmt_Close :: "ccsid_table \<Rightarrow> nat \<Rightarrow> unit session_op" where
  "stmt_Close T i s = (if st_closed (ss_stmts s i) then (Ok (), s) else release T background i s)"

definition rows_Close :: "ccsid_table \<Rightarrow> nat \<Rightarrow> unit session_op" where
  "rows_Close T r s =
     (if rw_closed (ss_rows s r) then (Ok (), s)
      else
        (case rows_close r reuseYes s of
           (Panic, s1) \<Rightarrow> (Panic, s1)
         | (r1, s1) \<Rightarrow>
             if rw_closeStmt (ss_rows s1 r) then
               (case stmt_Close T (rw_st (ss_rows s1 r)) s1 of
                  (Panic, s2) \<Rightarrow> (Panic, s2)
                | (r2, s2) \<Rightarrow> (joined [error_of r1, error_of r2], s2))
             else (r1, s1)))"

section \<open>Preparing\<close>

text \<open>\<^verbatim>\<open>fmt.Sprintf("%04d", id)\<close>.\<close>

definition pad4 :: "nat \<Rightarrow> string" where
  "pad4 n = replicate (4 - length (dec_digits n)) CHR ''0'' @ dec_digits n"

definition rpb_request :: "nat \<Rightarrow> (ebcdic_error, db_request) res" where
  "rpb_request i =
     bind_res (addName 0x3806 (''STMT'' @ pad4 i) (db_request_for fnCreateRPB (of_nat i) 0))
       (addName 0x380B (''CRSR'' @ pad4 i))"

definition prepare_request :: "nat \<Rightarrow> stmt \<Rightarrow> bytes \<Rightarrow> (db_error, db_request) res" where
  "prepare_request vrm st text =
     (let prep = stmt_request fnPrepareDescribe st
            (orsReply OR orsDataFormat OR orsSQLCA OR orsParameterMarkerFormat) in
      bind_res
        (if vrm \<ge> vrmV5R4 then Ok (addLongText 0x3831 clientCCSID text prep)
         else if length text > 0xFFFF then Err (DbStatementTooLong (length text))
         else Ok (addText 0x3807 clientCCSID text prep))
        (\<lambda>p. Ok (addByte 0x3808 0 (addShort 0x3812 (st_stmtType st) p))))"

text \<open>The columns and parameters a reply describes; an empty data format is no result set.\<close>

definition described :: "db_reply \<Rightarrow> stmt \<Rightarrow> stmt" where
  "described rep st =
     (let st1 = (case dr_dataFormat rep of
                   None \<Rightarrow> st
                 | Some df \<Rightarrow> if df_fields df \<noteq> [] then st\<lparr>st_columns := Some (df_fields df)\<rparr> else st)
      in case dr_paramFormat rep of None \<Rightarrow> st1 | Some pf \<Rightarrow> st1\<lparr>st_params := df_fields pf\<rparr>)"

text \<open>The part of \<^verbatim>\<open>Prepare\<close> after the RPB was created; its failures release the statement.\<close>

definition describe_stmt :: "ccsid_table \<Rightarrow> go_context \<Rightarrow> nat \<Rightarrow> unit session_op" where
  "describe_stmt T ctx i s =
     bind_op (ret_op (bind_res (wrap_err DbText (encodeString T clientCCSID (st_query (ss_stmts s i))))
         (prepare_request (dc_vrm (ss_conn s)) (ss_stmts s i)))) (\<lambda>prep.
     bind_op (on_conn (db_request_ok T ctx ''prepare'' prep)) (\<lambda>rep s1.
     (Ok (), upd_stmt i (described rep) s1))) s"

definition or_release :: "ccsid_table \<Rightarrow> go_context \<Rightarrow> nat \<Rightarrow> 'a session_op \<Rightarrow> 'a session_op" where
  "or_release T ctx i m s =
     (case m s of (Err e, s1) \<Rightarrow> (Err e, snd (release T ctx i s1)) | r \<Rightarrow> r)"

definition new_stmt :: "'a golib_scheme \<Rightarrow> nat \<Rightarrow> string \<Rightarrow> stmt" where
  "new_stmt G k query =
     \<lparr>st_id = k, st_query = query, st_stmtType = statementType G query, st_columns = None, st_params = [],
      st_descriptorSent = False, st_rows = None, st_closed = False\<rparr>"

text \<open>
  The statement enters the heap once its RPB is requested: where \<^verbatim>\<open>Prepare\<close> fails before, the
  code drops the only reference to it.
\<close>

definition Prepare :: "'a golib_scheme \<Rightarrow> ccsid_table \<Rightarrow> go_context \<Rightarrow> string \<Rightarrow> nat session_op" where
  "Prepare G T ctx query s =
     (case db_usable (ss_conn s) of
        Some e \<Rightarrow> (Err e, s)
      | None \<Rightarrow>
          bind_op (on_conn allocID) (\<lambda>k s1.
            (case bind_op (ret_op (wrap_err DbName (rpb_request k))) (\<lambda>rpb. on_conn (db_send rpb)) s1 of
               (Ok _, s2) \<Rightarrow>
                 let i = ss_nstmts s2;
                     s3 = s2\<lparr>ss_stmts := (ss_stmts s2)(i := new_stmt G k query), ss_nstmts := Suc i\<rparr>
                 in bind_op (or_release T ctx i (describe_stmt T ctx i)) (\<lambda>_. ret_op (Ok i)) s3
             | (Err e, s2) \<Rightarrow> (Err e, s2\<lparr>ss_conn := freeID k (ss_conn s2)\<rparr>)
             | (Panic, s2) \<Rightarrow> (Panic, s2))) s)"

section \<open>Running\<close>

text \<open>An argument is \<open>None\<close> for \<^verbatim>\<open>nil\<close>. \<^verbatim>\<open>Connect\<close> has set the time zone.\<close>

type_synonym argument = "go_value option"

definition conn_location :: "db_conn \<Rightarrow> location" where
  "conn_location c = (case op_Location (dc_opts c) of Some loc \<Rightarrow> loc | None \<Rightarrow> UTC)"

text \<open>Encoding the arguments, each with its field, from parameter \<open>n\<close> on.\<close>

fun encode_args :: "value_env \<Rightarrow> location \<Rightarrow> nat \<Rightarrow> (field \<times> argument) list \<Rightarrow> (db_error, bytes option list) res"
where
  "encode_args E loc n [] = Ok []"
| "encode_args E loc n ((f, None) # as) = fmap_res ((#) None) (encode_args E loc (Suc n) as)"
| "encode_args E loc n ((f, Some v) # as) =
     bind_res (wrap_err (DbParameter n) (encodeValue E f v loc)) (\<lambda>b.
     fmap_res ((#) (Some b)) (encode_args E loc (Suc n) as))"

definition bind_args :: "value_env \<Rightarrow> nat \<Rightarrow> argument list \<Rightarrow> bytes session_op" where
  "bind_args E i args s =
     (let st = ss_stmts s i in
      if length args \<noteq> length (st_params st)
      then (Err (DbArgumentCount (length (st_params st)) (length args)), s)
      else if st_params st = [] then (Ok [], s)
      else
        bind_op (ret_op (encode_args E (conn_location (ss_conn s)) 1 (zip (st_params st) args))) (\<lambda>values.
        bind_op (\<lambda>s1.
          if st_descriptorSent st then (Ok (), s1)
          else bind_op (on_conn (db_send (add_param 0x381E (encodeParameterFormat (st_params st))
                 (descriptor_request fnChangeDescriptor st))))
               (\<lambda>_ s2. (Ok (), upd_stmt i (\<lambda>x. x\<lparr>st_descriptorSent := True\<rparr>) s2)) s1) (\<lambda>_.
        ret_op (Ok (encodeParameterData (st_params st) values)))) s)"

definition addExecuteParams :: "stmt \<Rightarrow> bytes \<Rightarrow> db_request \<Rightarrow> db_request" where
  "addExecuteParams st data req =
     (let r = addShort 0x3812 (st_stmtType st) req in
      if st_params st \<noteq> [] then add_param 0x381F data (r\<lparr>dq_pmHandle := of_nat (st_id st)\<rparr>) else r)"

definition execute_request :: "stmt \<Rightarrow> bytes \<Rightarrow> db_request" where
  "execute_request st data = addExecuteParams st data (stmt_request fnExecute st (orsReply OR orsSQLCA))"

definition stmt_exec :: "value_env \<Rightarrow> go_context \<Rightarrow> nat \<Rightarrow> argument list \<Rightarrow> int session_op" where
  "stmt_exec E ctx i args s =
     (case stmt_usable i s of
        Some e \<Rightarrow> (Err e, s)
      | None \<Rightarrow>
          if st_columns (ss_stmts s i) \<noteq> None then (Err DbReturnsRows, s)
          else
            bind_op (closeRows i reuseYes) (\<lambda>_.
            bind_op (bind_args E i args) (\<lambda>data.
            bind_op (\<lambda>s1. on_conn (db_request_ok (ve_ccsids E) ctx ''execute''
              (execute_request (ss_stmts s1 i) data)) s1) (\<lambda>rep.
            ret_op (Ok (db_rowCount rep))))) s)"

text \<open>Rows per block: what fits the block size, between 1 and 32767.\<close>

definition blockingFactor :: "stmt \<Rightarrow> db_conn \<Rightarrow> 32 word" where
  "blockingFactor st c =
     (let rowLen = int (recordSize (columns_of st)) in
      if rowLen \<le> 0 then 1 else of_int (max 1 (min 32767 (op_BlockSize (dc_opts c) div rowLen))))"

definition open_request :: "stmt \<Rightarrow> db_conn \<Rightarrow> bytes \<Rightarrow> db_request" where
  "open_request st c data =
     addExecuteParams st data (addShort 0x380D 0 (addInt 0x380C (blockingFactor st c) (addByte 0x3809 0x80
       (stmt_request fnOpenDescribeFetch st (orsReply OR orsSQLCA OR orsResultData)))))"

definition absorbEnd :: "db_reply \<Rightarrow> rows \<Rightarrow> rows" where
  "absorbEnd rep r =
     (let r1 = (if endOfData rep then r\<lparr>rw_eof := True\<rparr> else r) in
      if cursorClosedByServer rep then r1\<lparr>rw_cursorOpen := False\<rparr> else r1)"

definition new_rows :: "nat \<Rightarrow> db_reply \<Rightarrow> rows" where
  "new_rows i rep = absorbEnd rep
     \<lparr>rw_st = i, rw_block = dr_resultData rep, rw_next = 0, rw_eof = False, rw_cursorOpen = True,
      rw_closed = False, rw_closeStmt = False\<rparr>"

definition add_rows :: "nat \<Rightarrow> rows \<Rightarrow> nat session_op" where
  "add_rows i x s =
     (let r = ss_nrows s in
      (Ok r, upd_stmt i (\<lambda>st. st\<lparr>st_rows := Some r\<rparr>) (s\<lparr>ss_rows := (ss_rows s)(r := x), ss_nrows := Suc r\<rparr>)))"

definition queryValues :: "value_env \<Rightarrow> go_context \<Rightarrow> nat \<Rightarrow> argument list \<Rightarrow> nat session_op" where
  "queryValues E ctx i args s =
     (case stmt_usable i s of
        Some e \<Rightarrow> (Err e, s)
      | None \<Rightarrow>
          if st_columns (ss_stmts s i) = None then (Err DbReturnsNoRows, s)
          else
            bind_op (closeRows i reuseYes) (\<lambda>_.
            bind_op (bind_args E i args) (\<lambda>data.
            bind_op (\<lambda>s1. on_conn (db_request_ok (ve_ccsids E) ctx ''open cursor''
              (open_request (ss_stmts s1 i) (ss_conn s1) data)) s1) (\<lambda>rep.
            add_rows i (new_rows i rep)))) s)"

section \<open>Rows\<close>

definition Columns :: "nat \<Rightarrow> db_session \<Rightarrow> string list" where
  "Columns r s = map f_name (columns_of (ss_stmts s (rw_st (ss_rows s r))))"

record column_type =
  ct_Name :: string
  ct_TypeName :: string
  ct_Nullable :: bool
  ct_Length :: nat
  ct_Precision :: nat
  ct_Scale :: nat
  ct_CCSID :: nat

definition ColumnTypes :: "nat \<Rightarrow> db_session \<Rightarrow> column_type list" where
  "ColumnTypes r s = map (\<lambda>f.
     \<lparr>ct_Name = f_name f, ct_TypeName = typeName (baseType f), ct_Nullable = nullable f, ct_Length = f_length f,
      ct_Precision = f_precision f, ct_Scale = f_scale f, ct_CCSID = f_ccsid f\<rparr>)
     (columns_of (ss_stmts s (rw_st (ss_rows s r))))"

definition fetch_request :: "stmt \<Rightarrow> db_conn \<Rightarrow> db_request" where
  "fetch_request st c = addInt 0x380C (blockingFactor st c) (addShort 0x380E 0
     (stmt_request fnFetch st (orsReply OR orsResultData)))"

definition no_rows :: "resultData option \<Rightarrow> bool" where
  "no_rows b = (case b of None \<Rightarrow> True | Some rd \<Rightarrow> rd_rowCount rd = 0)"

definition absorb_block :: "db_reply \<Rightarrow> rows \<Rightarrow> rows" where
  "absorb_block rep r =
     (let r1 = absorbEnd rep (r\<lparr>rw_block := dr_resultData rep, rw_next := 0\<rparr>) in
      if \<not> rw_eof r1 \<and> no_rows (rw_block r1) then r1\<lparr>rw_eof := True\<rparr> else r1)"

definition fetch :: "ccsid_table \<Rightarrow> nat \<Rightarrow> unit session_op" where
  "fetch T r s =
     bind_op (on_conn (db_request_ok T background ''fetch''
       (fetch_request (ss_stmts s (rw_st (ss_rows s r))) (ss_conn s))))
     (\<lambda>rep s1. (Ok (), upd_rows r (absorb_block rep) s1)) s"

definition has_row :: "rows \<Rightarrow> bool" where
  "has_row x = (case rw_block x of None \<Rightarrow> False | Some rd \<Rightarrow> rw_next x < rd_rowCount rd)"

lemma absorb_block_ready: "has_row (absorb_block rep x) \<or> rw_eof (absorb_block rep x)"
  by (auto simp: absorb_block_def absorbEnd_def has_row_def no_rows_def Let_def split: option.splits)

lemma fetch_ready:
  assumes "fetch T r s = (Ok u, s1)"
  shows "has_row (ss_rows s1 r) \<or> rw_eof (ss_rows s1 r)"
proof -
  obtain rep s0 where "s1 = upd_rows r (absorb_block rep) s0"
    using assms by (auto simp: fetch_def bind_op_Ok_iff)
  then show ?thesis using absorb_block_ready by (simp add: upd_rows_def)
qed

text \<open>The loop of \<^verbatim>\<open>Next\<close>: after a fetch there is a row or the end, so it runs at most twice.\<close>

function next_row :: "ccsid_table \<Rightarrow> nat \<Rightarrow> unit session_op" where
  "next_row T r s =
     (if has_row (ss_rows s r) then (Ok (), s)
      else if rw_eof (ss_rows s r) then (Err DbEOF, s)
      else
        (case fetch T r s of
           (Ok u, s1) \<Rightarrow> next_row T r s1
         | (Err e, s1) \<Rightarrow> (Err e, s1)
         | (Panic, s1) \<Rightarrow> (Panic, s1)))"
  by pat_completeness auto
termination
proof (relation "measure (\<lambda>(T, r, s). if has_row (ss_rows s r) \<or> rw_eof (ss_rows s r) then 0 else 1)", goal_cases)
  case (2 T r s res s1 u)
  then show ?case using fetch_ready [of T r s u s1] by auto
qed simp

declare next_row.simps [simp del]

text \<open>Decoding the columns into the destination, which keeps what was decoded before an error.\<close>

fun decode_columns ::
  "value_env \<Rightarrow> location \<Rightarrow> resultData \<Rightarrow> nat \<Rightarrow> bytes \<Rightarrow> nat \<Rightarrow> nat \<Rightarrow> field list
   \<Rightarrow> (argument list, db_error, unit) op"
where
  "decode_columns E loc rd k row i off [] dest = (Ok (), dest)"
| "decode_columns E loc rd k row i off (f # fs) dest =
     (if off + f_length f > length row then (Err (DbRowTooShort (length row) (i + 1)), dest)
      else
        (case indicator rd k i of
           Panic \<Rightarrow> (Panic, dest)
         | Err e \<Rightarrow> (Err e, dest)
         | Ok ind \<Rightarrow>
             if ind = -1 then decode_columns E loc rd k row (i + 1) (off + f_length f) fs (dest[i := None])
             else if ind < 0 then (Err (DbMapping (i + 1) (f_name f) ind), dest)
             else
               (case wrap_err (DbColumn (i + 1) (f_name f)) (decodeValue E f (take (f_length f) (drop off row)) loc) of
                  Panic \<Rightarrow> (Panic, dest)
                | Err e \<Rightarrow> (Err e, dest)
                | Ok v \<Rightarrow> decode_columns E loc rd k row (i + 1) (off + f_length f) fs (dest[i := Some v]))))"

definition decode_row ::
  "value_env \<Rightarrow> location \<Rightarrow> field list \<Rightarrow> resultData \<Rightarrow> nat \<Rightarrow> (argument list, db_error, unit) op"
where
  "decode_row E loc cols rd k dest =
     (if length dest \<noteq> length cols then (Err (DbDestination (length cols) (length dest)), dest)
      else if rd_columnCount rd \<noteq> length cols then (Err (DbColumnCount (rd_columnCount rd) (length cols)), dest)
      else
        (case row_of rd k of
           Panic \<Rightarrow> (Panic, dest)
         | Err e \<Rightarrow> (Err e, dest)
         | Ok row \<Rightarrow> decode_columns E loc rd k row 0 0 cols dest))"

text \<open>\<^verbatim>\<open>Next\<close> on the session and the caller's destination slice.\<close>

definition Next :: "value_env \<Rightarrow> nat \<Rightarrow> (db_session \<times> argument list, db_error, unit) op" where
  "Next E r = (\<lambda>(s, dest).
     if rw_closed (ss_rows s r) then (Err ErrClosed, (s, dest))
     else
       (case next_row (ve_ccsids E) r s of
          (Panic, s1) \<Rightarrow> (Panic, (s1, dest))
        | (Err e, s1) \<Rightarrow> (Err e, (s1, dest))
        | (Ok _, s1) \<Rightarrow>
            let x = ss_rows s1 r in
            (case decode_row E (conn_location (ss_conn s1)) (columns_of (ss_stmts s1 (rw_st x)))
                    (the (rw_block x)) (rw_next x) dest of
               (Ok _, d) \<Rightarrow> (Ok (), (upd_rows r (\<lambda>x. x\<lparr>rw_next := rw_next x + 1\<rparr>) s1, d))
             | (Err e, d) \<Rightarrow> (Err e, (s1, d))
             | (Panic, d) \<Rightarrow> (Panic, (s1, d)))))"

section \<open>Arguments of any type, and one-off statements\<close>

text \<open>\<^verbatim>\<open>driver.DefaultParameterConverter.ConvertValue\<close> is a parameter: it fails or gives a value.\<close>

fun convert_from :: "('x \<Rightarrow> argument option) \<Rightarrow> nat \<Rightarrow> 'x list \<Rightarrow> (db_error, argument list) res" where
  "convert_from conv n [] = Ok []"
| "convert_from conv n (a # as) =
     (case conv a of None \<Rightarrow> Err (DbArgument n) | Some v \<Rightarrow> fmap_res ((#) v) (convert_from conv (Suc n) as))"

definition convertArgs :: "('x \<Rightarrow> argument option) \<Rightarrow> 'x list \<Rightarrow> (db_error, argument list) res" where
  "convertArgs conv as = convert_from conv 1 as"

definition stmt_Exec :: "('x \<Rightarrow> argument option) \<Rightarrow> value_env \<Rightarrow> go_context \<Rightarrow> nat \<Rightarrow> 'x list \<Rightarrow> int session_op" where
  "stmt_Exec conv E ctx i as = bind_op (ret_op (convertArgs conv as)) (stmt_exec E ctx i)"

definition stmt_Query :: "('x \<Rightarrow> argument option) \<Rightarrow> value_env \<Rightarrow> go_context \<Rightarrow> nat \<Rightarrow> 'x list \<Rightarrow> nat session_op" where
  "stmt_Query conv E ctx i as = bind_op (ret_op (convertArgs conv as)) (queryValues E ctx i)"

definition conn_Exec ::
  "'a golib_scheme \<Rightarrow> ('x \<Rightarrow> argument option) \<Rightarrow> value_env \<Rightarrow> go_context \<Rightarrow> string \<Rightarrow> 'x list \<Rightarrow> int session_op"
where
  "conn_Exec G conv E ctx query as =
     bind_op (Prepare G (ve_ccsids E) ctx query) (\<lambda>i s.
       (case stmt_Exec conv E ctx i as s of
          (Panic, s1) \<Rightarrow> (Panic, s1)
        | (r1, s1) \<Rightarrow>
            (case stmt_Close (ve_ccsids E) i s1 of
               (Panic, s2) \<Rightarrow> (Panic, s2)
             | (r2, s2) \<Rightarrow> (bind_res (joined [error_of r1, error_of r2]) (\<lambda>_. r1), s2))))"

definition conn_Query ::
  "'a golib_scheme \<Rightarrow> ('x \<Rightarrow> argument option) \<Rightarrow> value_env \<Rightarrow> go_context \<Rightarrow> string \<Rightarrow> 'x list \<Rightarrow> nat session_op"
where
  "conn_Query G conv E ctx query as =
     bind_op (Prepare G (ve_ccsids E) ctx query) (\<lambda>i s.
       (case stmt_Query conv E ctx i as s of
          (Panic, s1) \<Rightarrow> (Panic, s1)
        | (Ok r, s1) \<Rightarrow> (Ok r, upd_rows r (\<lambda>x. x\<lparr>rw_closeStmt := True\<rparr>) s1)
        | (Err e, s1) \<Rightarrow>
            (case stmt_Close (ve_ccsids E) i s1 of
               (Panic, s2) \<Rightarrow> (Panic, s2)
             | (r2, s2) \<Rightarrow> (bind_res (joined [Some e, error_of r2]) (\<lambda>_. Panic), s2))))"

text \<open>
  The end of a comment is looked for from its first character on, so the star of \<^verbatim>\<open>/*/\<close> ends the
  comment it opens, and a query after such a comment is taken for something else.
\<close>

lemma comment_closed_by_its_own_star:
  "statementType G ''/*/x*/SELECT'' = stmtTypeOther" "statementType G ''/**/SELECT'' = stmtTypeSelect"
proof -
  note eval = TrimLeftFunc_def rune_chunks_ascii HasPrefix_def is_space_def unchunk_def
  have "skip_comments ''x*/SELECT'' = Some ''x*/SELECT''" "skip_comments ''SELECT'' = Some ''SELECT''"
    by (simp_all add: skip_comments.simps eval)
  then have "skip_comments ''/*/x*/SELECT'' = Some ''x*/SELECT''" "skip_comments ''/**/SELECT'' = Some ''SELECT''"
    by (simp_all add: skip_comments.simps [of "CHR ''/'' # _"] eval)
  moreover have "before_func (\<lambda>r. \<not> is_letter G r) ''x*/SELECT'' = ''x''" 
    "before_func (\<lambda>r. \<not> is_letter G r) ''SELECT'' = ''SELECT''"
    by (simp_all add: before_func_def rune_chunks_ascii is_letter_def unchunk_def)
  moreover have "map (\<lambda>c. char_of (ascii_upper (of_char c))) ''SELECT'' = ''SELECT''"
    "map (\<lambda>c. char_of (ascii_upper (of_char c))) ''x'' = ''X''" by code_simp+
  then have "ToUpper G ''SELECT'' = ''SELECT''" "ToUpper G ''x'' = ''X''" by (simp_all only: ToUpper_def) simp_all
  ultimately show "statementType G ''/*/x*/SELECT'' = stmtTypeOther" "statementType G ''/**/SELECT'' = stmtTypeSelect"
    by (simp_all add: statementType_def firstKeyword_def)
qed

end
