(* ===== verification/DbSession.thy ===== *)
theory DbSession
  imports DbStmt
begin

text \<open>
  What holds of a session over its life: the statement handles in use are those of the open
  statements, and every cursor belongs to the one \<^verbatim>\<open>Rows\<close> its statement knows.
\<close>

section \<open>The invariant\<close>

definition open_stmts :: "db_session \<Rightarrow> nat set" where
  "open_stmts s = {i. i < ss_nstmts s \<and> \<not> st_closed (ss_stmts s i)}"

definition id_of :: "db_session \<Rightarrow> nat \<Rightarrow> nat" where
  "id_of s i = st_id (ss_stmts s i)"

definition handles_ok :: "db_session \<Rightarrow> bool" where
  "handles_ok s \<longleftrightarrow> {k. dc_ids (ss_conn s) k} = id_of s ` open_stmts s
     \<and> inj_on (id_of s) (open_stmts s) \<and> id_of s ` open_stmts s \<subseteq> {1..maxStatements}"

definition session_usable :: "db_session \<Rightarrow> bool" where
  "session_usable s \<longleftrightarrow> db_usable (ss_conn s) = None"

definition cursors_ok :: "db_session \<Rightarrow> bool" where
  "cursors_ok s \<longleftrightarrow>
     (\<forall>i < ss_nstmts s. \<forall>r. st_rows (ss_stmts s i) = Some r \<longrightarrow>
        r < ss_nrows s \<and> rw_st (ss_rows s r) = i \<and> \<not> rw_closed (ss_rows s r)) \<and>
     (\<forall>r < ss_nrows s. rw_st (ss_rows s r) < ss_nstmts s \<and>
        (\<not> rw_closed (ss_rows s r) \<longrightarrow> st_rows (ss_stmts s (rw_st (ss_rows s r))) = Some r) \<and>
        (session_usable s \<and> rw_cursorOpen (ss_rows s r) \<longrightarrow> \<not> rw_closed (ss_rows s r)))"

definition closed_ok :: "db_session \<Rightarrow> bool" where
  "closed_ok s \<longleftrightarrow> (session_usable s \<longrightarrow>
     (\<forall>i < ss_nstmts s. st_closed (ss_stmts s i) \<longrightarrow> st_rows (ss_stmts s i) = None))"

definition session_ok :: "db_session \<Rightarrow> bool" where
  "session_ok s \<longleftrightarrow> handles_ok s \<and> cursors_ok s \<and> closed_ok s"

section \<open>Operations that leave handles and cursors alone\<close>

definition same_handles :: "db_session \<Rightarrow> db_session \<Rightarrow> bool" where
  "same_handles s s' \<longleftrightarrow> ss_nstmts s' = ss_nstmts s \<and> dc_ids (ss_conn s') = dc_ids (ss_conn s)
     \<and> (\<forall>i. st_id (ss_stmts s' i) = st_id (ss_stmts s i) \<and> st_closed (ss_stmts s' i) = st_closed (ss_stmts s i))
     \<and> (session_usable s' \<longrightarrow> session_usable s)"

definition same_cursors :: "db_session \<Rightarrow> db_session \<Rightarrow> bool" where
  "same_cursors s s' \<longleftrightarrow> ss_nrows s' = ss_nrows s
     \<and> (\<forall>i. st_rows (ss_stmts s' i) = st_rows (ss_stmts s i))
     \<and> (\<forall>r. rw_st (ss_rows s' r) = rw_st (ss_rows s r) \<and> rw_closed (ss_rows s' r) = rw_closed (ss_rows s r)
          \<and> (rw_cursorOpen (ss_rows s' r) \<longrightarrow> rw_cursorOpen (ss_rows s r)))"

definition quiet :: "db_session \<Rightarrow> db_session \<Rightarrow> bool" where
  "quiet s s' \<longleftrightarrow> same_handles s s' \<and> same_cursors s s'"

definition quiet_op :: "'a session_op \<Rightarrow> bool" where
  "quiet_op m \<longleftrightarrow> (\<forall>s. quiet s (snd (m s)))"

named_theorems quiet_rules \<open>operations that leave handles and cursors alone\<close>

lemma same_handles_refl [simp]: "same_handles s s"
  by (simp add: same_handles_def)

lemma same_handles_trans: "same_handles s s1 \<Longrightarrow> same_handles s1 s2 \<Longrightarrow> same_handles s s2"
  by (simp add: same_handles_def)

lemma quiet_refl [simp]: "quiet s s"
  by (simp add: quiet_def same_cursors_def)

lemma quiet_trans: "quiet s s1 \<Longrightarrow> quiet s1 s2 \<Longrightarrow> quiet s s2"
  by (auto simp: quiet_def same_cursors_def intro: same_handles_trans)

lemma quiet_opD: "quiet_op m \<Longrightarrow> m s = (r, s') \<Longrightarrow> quiet s s'"
  unfolding quiet_op_def by (metis snd_conv)

lemma quiet_opI: "(\<And>s r s'. m s = (r, s') \<Longrightarrow> quiet s s') \<Longrightarrow> quiet_op m"
  unfolding quiet_op_def by (metis prod.collapse)

text \<open>The operations may read the state before they run, as the arguments of these rules do.\<close>

lemma quiet_read: "(\<And>x. quiet_op (m x)) \<Longrightarrow> quiet_op (\<lambda>s. m (g s) s)"
  by (simp add: quiet_op_def)

lemma quiet_bind [quiet_rules]:
  assumes "\<And>x. quiet_op (m x)" "\<And>x y. quiet_op (f x y)"
  shows "quiet_op (\<lambda>s. bind_op (m s) (f s) s)"
proof (rule quiet_opI)
  fix s r s'
  assume "bind_op (m s) (f s) s = (r, s')"
  then show "quiet s s'"
    by (cases rule: bind_op_cases) (auto dest: quiet_opD [OF assms(1)] quiet_opD [OF assms(2)] intro: quiet_trans)
qed

lemma quiet_ret [quiet_rules]: "quiet_op (ret_op r)"
  by (rule quiet_opI) simp

lemma quiet_pair [quiet_rules]: "quiet_op (\<lambda>s. (r s, s))"
  by (simp add: quiet_op_def)

lemma quiet_if [quiet_rules]: "quiet_op m \<Longrightarrow> quiet_op n \<Longrightarrow> quiet_op (\<lambda>s. if b s then m s else n s)"
  by (simp add: quiet_op_def)

lemma quiet_let [quiet_rules]: "(\<And>x. quiet_op (m x)) \<Longrightarrow> quiet_op (\<lambda>s. let x = g s in m x s)"
  by (simp add: quiet_op_def)

text \<open>What a request does to the connection.\<close>

definition conn_step :: "db_conn \<Rightarrow> db_conn \<Rightarrow> bool" where
  "conn_step c c' \<longleftrightarrow> dc_ids c' = dc_ids c \<and> dc_opts c' = dc_opts c
     \<and> (db_usable c' = None \<longrightarrow> db_usable c = None)"

definition conn_op :: "(db_conn, db_error, 'a) op \<Rightarrow> bool" where
  "conn_op m \<longleftrightarrow> (\<forall>c. conn_step c (snd (m c)))"

lemma conn_opD: "conn_op m \<Longrightarrow> m c = (r, c') \<Longrightarrow> conn_step c c'"
  unfolding conn_op_def by (metis snd_conv)

lemma conn_opI: "(\<And>c r c'. m c = (r, c') \<Longrightarrow> conn_step c c') \<Longrightarrow> conn_op m"
  unfolding conn_op_def by (metis prod.collapse)

lemma conn_step_trans: "conn_step a b \<Longrightarrow> conn_step b c \<Longrightarrow> conn_step a c"
  by (simp add: conn_step_def)

lemma conn_op_bind [quiet_rules]: "conn_op m \<Longrightarrow> (\<And>x. conn_op (f x)) \<Longrightarrow> conn_op (bind_op m f)"
proof (rule conn_opI)
  fix c r c'
  assume "conn_op m" "\<And>x. conn_op (f x)" "bind_op m f c = (r, c')"
  then show "conn_step c c'"
    by (elim bind_op_cases) (auto dest: conn_opD intro: conn_step_trans)
qed

lemma conn_op_ret [quiet_rules]: "conn_op (ret_op r)"
  by (simp add: conn_op_def conn_step_def ret_op_def)

lemma conn_op_db_call [quiet_rules]: "conn_op (db_call T ctx q)"
  unfolding conn_op_def conn_step_def
  by (auto simp: db_call_def db_usable_def split: option.splits prod.splits res.splits if_splits)

lemma conn_op_db_send [quiet_rules]: "conn_op (db_send q)"
  unfolding conn_op_def conn_step_def
  by (auto simp: db_send_def db_usable_def split: option.splits prod.splits res.splits if_splits)

lemma conn_op_request [quiet_rules]: "conn_op (db_request_ok T ctx op q)"
  unfolding db_request_ok_def by (intro quiet_rules)

lemma quiet_on_conn [quiet_rules]:
  assumes "\<And>x. conn_op (m x)"
  shows "quiet_op (\<lambda>s. on_conn (m s) s)"
proof (rule quiet_opI)
  fix s r s'
  assume "on_conn (m s) s = (r, s')"
  then obtain c where "m s (ss_conn s) = (r, c)" "s' = s\<lparr>ss_conn := c\<rparr>"
    by (auto simp: on_conn_def split: prod.splits)
  moreover from this have "conn_step (ss_conn s) c"
    using assms unfolding conn_op_def by (metis snd_conv)
  ultimately show "quiet s s'"
    by (simp add: quiet_def same_handles_def same_cursors_def session_usable_def conn_step_def)
qed

text \<open>Updates of fields that are neither handles nor cursors.\<close>

lemma quiet_upd_stmt [quiet_rules]:
  "(\<And>x. st_id (f x) = st_id x \<and> st_closed (f x) = st_closed x \<and> st_rows (f x) = st_rows x) \<Longrightarrow>
   quiet_op (\<lambda>s. (r, upd_stmt i f s))"
  by (auto simp: quiet_op_def quiet_def same_handles_def same_cursors_def upd_stmt_def session_usable_def)

lemma quiet_upd_rows [quiet_rules]:
  "(\<And>x. rw_st (f x) = rw_st x \<and> rw_closed (f x) = rw_closed x \<and> (rw_cursorOpen (f x) \<longrightarrow> rw_cursorOpen x)) \<Longrightarrow>
   quiet_op (\<lambda>s. (u, upd_rows r f s))"
  by (auto simp: quiet_op_def quiet_def same_handles_def same_cursors_def upd_rows_def session_usable_def)

lemma described_same [simp]:
  "st_id (described rep x) = st_id x" "st_closed (described rep x) = st_closed x"
  "st_rows (described rep x) = st_rows x" "st_descriptorSent (described rep x) = st_descriptorSent x"
  by (simp_all add: described_def Let_def split: option.splits)

lemma absorb_block_same [simp]:
  "rw_st (absorb_block rep x) = rw_st x" "rw_closed (absorb_block rep x) = rw_closed x"
  "rw_cursorOpen (absorb_block rep x) \<Longrightarrow> rw_cursorOpen x"
  by (auto simp: absorb_block_def absorbEnd_def Let_def split: if_splits)

lemma quiet_describe [quiet_rules]: "quiet_op (describe_stmt T ctx i)"
  unfolding describe_stmt_def [abs_def] by (intro quiet_rules) simp

lemma quiet_bind_args [quiet_rules]: "quiet_op (bind_args E i args)"
  unfolding bind_args_def [abs_def] by (intro quiet_rules) simp_all

lemma quiet_delete_descriptor [quiet_rules]: "quiet_op (delete_descriptor i)"
  unfolding delete_descriptor_def [abs_def] by (intro quiet_rules)

lemma quiet_delete_rpb [quiet_rules]: "quiet_op (delete_rpb T ctx i)"
  unfolding delete_rpb_def [abs_def] by (intro quiet_rules)

lemma quiet_fetch [quiet_rules]: "quiet_op (fetch T r)"
  unfolding fetch_def [abs_def] by (intro quiet_rules) simp

lemma quiet_next_row: "next_row T r s = (res, s') \<Longrightarrow> quiet s s'"
proof (induction T r s arbitrary: res s' rule: next_row.induct)
  case (1 T r s)
  obtain w s1 where f: "fetch T r s = (w, s1)" by fastforce
  have q: "quiet s s1" by (rule quiet_opD [OF quiet_fetch f])
  show ?case
  proof (cases "has_row (ss_rows s r) \<or> rw_eof (ss_rows s r)")
    case True
    then show ?thesis using "1.prems" by (subst (asm) next_row.simps) (auto split: if_splits)
  next
    case False
    show ?thesis
    proof (cases w)
      case (Ok u)
      have "next_row T r s1 = (res, s')"
        using "1.prems" False f Ok by (subst (asm) next_row.simps) simp
      with "1.IH" False f Ok have "quiet s1 s'" by auto
      with q show ?thesis by (rule quiet_trans)
    qed (use "1.prems" False f q in \<open>subst (asm) next_row.simps, simp\<close>)+
  qed
qed

lemma quiet_Next:
  assumes "Next E r (s, dest) = (res, (s', dest'))"
  shows "quiet s s'"
proof (cases "rw_closed (ss_rows s r)")
  case True
  with assms show ?thesis by (simp add: Next_def)
next
  case False
  obtain w s1 where n: "next_row (ve_ccsids E) r s = (w, s1)" by fastforce
  have upd: "quiet s1 (upd_rows r (\<lambda>x. x\<lparr>rw_next := rw_next x + 1\<rparr>) s1)"
    using quiet_upd_rows [of "\<lambda>x. x\<lparr>rw_next := rw_next x + 1\<rparr>" undefined r] by (simp add: quiet_op_def)
  from assms False n quiet_next_row [OF n] quiet_trans [OF quiet_next_row [OF n] upd] show ?thesis
    by (auto simp: Next_def Let_def split: res.splits prod.splits)
qed

section \<open>The invariant along quiet operations\<close>

lemma open_stmts_same: "same_handles s s' \<Longrightarrow> open_stmts s' = open_stmts s"
  by (simp add: open_stmts_def same_handles_def)

lemma id_of_same: "same_handles s s' \<Longrightarrow> id_of s' = id_of s"
  by (rule ext) (simp add: id_of_def same_handles_def)

lemma handles_ok_same: "handles_ok s \<Longrightarrow> same_handles s s' \<Longrightarrow> handles_ok s'"
  by (simp add: handles_ok_def open_stmts_same id_of_same) (simp add: same_handles_def)

lemma cursors_ok_quiet: "cursors_ok s \<Longrightarrow> quiet s s' \<Longrightarrow> cursors_ok s'"
  unfolding cursors_ok_def quiet_def same_handles_def same_cursors_def by auto

lemma closed_ok_quiet: "closed_ok s \<Longrightarrow> quiet s s' \<Longrightarrow> closed_ok s'"
  unfolding closed_ok_def quiet_def same_handles_def same_cursors_def by auto

lemma session_ok_quiet: "session_ok s \<Longrightarrow> quiet s s' \<Longrightarrow> session_ok s'"
  by (auto simp: session_ok_def quiet_def intro: handles_ok_same cursors_ok_quiet closed_ok_quiet)

section \<open>Closing rows\<close>

text \<open>What \<^verbatim>\<open>close\<close> does to the heaps, before the request it may send.\<close>

definition detach :: "nat \<Rightarrow> db_session \<Rightarrow> db_session" where
  "detach r s = s\<lparr>
     ss_stmts := (\<lambda>i. if i = rw_st (ss_rows s r) \<and> st_rows (ss_stmts s i) = Some r
        then (ss_stmts s i)\<lparr>st_rows := None\<rparr> else ss_stmts s i),
     ss_rows := (ss_rows s)(r := (ss_rows s r)\<lparr>rw_closed := True,
        rw_cursorOpen := rw_cursorOpen (ss_rows s r) \<and> \<not> session_usable s\<rparr>)\<rparr>"

lemma session_eqI:
  "ss_conn s = ss_conn t \<Longrightarrow> ss_stmts s = ss_stmts t \<Longrightarrow> ss_nstmts s = ss_nstmts t \<Longrightarrow>
   ss_rows s = ss_rows t \<Longrightarrow> ss_nrows s = ss_nrows t \<Longrightarrow> s = (t :: db_session)"
  by simp

lemma rows_close_eq:
  "rows_close r reuse s =
     (if rw_cursorOpen (ss_rows s r) \<and> session_usable s
      then on_conn (db_send (addByte 0x3810 reuse (stmt_request fnClose (ss_stmts s (rw_st (ss_rows s r))) 0))) (detach r s)
      else (Ok (), detach r s))"
proof -
  let ?i = "rw_st (ss_rows s r)"
  define s1 where "s1 = upd_rows r (\<lambda>x. x\<lparr>rw_closed := True\<rparr>) s"
  define s2 where "s2 = (if st_rows (ss_stmts s1 ?i) = Some r then upd_stmt ?i (\<lambda>x. x\<lparr>st_rows := None\<rparr>) s1 else s1)"
  have c: "rw_cursorOpen (ss_rows s2 r) = rw_cursorOpen (ss_rows s r)" "ss_conn s2 = ss_conn s"
    "st_id (ss_stmts s2 ?i) = st_id (ss_stmts s ?i)"
    by (simp_all add: s2_def s1_def upd_rows_def upd_stmt_def)
  have stmts: "ss_stmts s2 = ss_stmts (detach r s)"
  proof
    fix j show "ss_stmts s2 j = ss_stmts (detach r s) j"
      by (cases "j = ?i") (auto simp: s2_def s1_def detach_def upd_rows_def upd_stmt_def)
  qed
  have n: "ss_nstmts s2 = ss_nstmts s" "ss_nrows s2 = ss_nrows s"
    by (simp_all add: s2_def s1_def upd_rows_def upd_stmt_def)
  have rows: "ss_rows s2 = (ss_rows s)(r := (ss_rows s r)\<lparr>rw_closed := True\<rparr>)"
    by (simp add: s2_def s1_def upd_rows_def upd_stmt_def)
  show ?thesis
  proof (cases "rw_cursorOpen (ss_rows s r) \<and> session_usable s")
    case True
    have "upd_rows r (\<lambda>x. x\<lparr>rw_cursorOpen := False\<rparr>) s2 = detach r s"
      using stmts rows n c True by (intro session_eqI) (simp_all add: upd_rows_def detach_def)
    then show ?thesis
      using True c unfolding rows_close_def Let_def s1_def [symmetric] s2_def [symmetric]
      by (simp add: session_usable_def stmt_request_def)
  next
    case False
    have eq: "(ss_rows s r)\<lparr>rw_closed := True\<rparr>
        = (ss_rows s r)\<lparr>rw_closed := True, rw_cursorOpen := rw_cursorOpen (ss_rows s r) \<and> \<not> session_usable s\<rparr>"
      using False by (cases "ss_rows s r") auto
    have "s2 = detach r s"
      by (rule session_eqI) (simp_all only: stmts n c rows, simp_all add: detach_def eq [symmetric])
    then show ?thesis
      using False c unfolding rows_close_def Let_def s1_def [symmetric] s2_def [symmetric] session_usable_def
      by auto
  qed
qed

lemma rows_close_detach:
  assumes "rows_close r reuse s = (res, s')"
  shows "quiet (detach r s) s'"
proof -
  have "quiet_op (on_conn (db_send q))" for q by (intro quiet_rules)
  with assms show ?thesis
    unfolding rows_close_eq by (auto split: if_splits dest: quiet_opD)
qed

lemma detach_stmts:
  "st_id (ss_stmts (detach r s) i) = st_id (ss_stmts s i)"
  "st_closed (ss_stmts (detach r s) i) = st_closed (ss_stmts s i)"
  "st_rows (ss_stmts (detach r s) i) =
     (if i = rw_st (ss_rows s r) \<and> st_rows (ss_stmts s i) = Some r then None else st_rows (ss_stmts s i))"
  "ss_nstmts (detach r s) = ss_nstmts s" "ss_conn (detach r s) = ss_conn s" "ss_nrows (detach r s) = ss_nrows s"
  by (auto simp: detach_def)

lemma detach_row: "ss_rows (detach r s) q = (if q = r then (ss_rows s r)\<lparr>rw_closed := True,
    rw_cursorOpen := rw_cursorOpen (ss_rows s r) \<and> \<not> session_usable s\<rparr> else ss_rows s q)"
  by (simp add: detach_def)

lemma detach_rows:
  "rw_st (ss_rows (detach r s) q) = rw_st (ss_rows s q)"
  "rw_closed (ss_rows (detach r s) q) \<longleftrightarrow> q = r \<or> rw_closed (ss_rows s q)"
  "rw_cursorOpen (ss_rows (detach r s) q) \<longleftrightarrow> rw_cursorOpen (ss_rows s q) \<and> (q = r \<longrightarrow> \<not> session_usable s)"
  unfolding detach_row by (cases "q = r"; simp)+

lemma same_handles_detach: "same_handles s (detach r s)"
  by (simp add: same_handles_def detach_stmts session_usable_def)

lemma cursors_ok_detach: "cursors_ok s \<Longrightarrow> cursors_ok (detach r s)"
proof -
  assume ok: "cursors_ok s"
  show ?thesis
    unfolding cursors_ok_def
  proof (intro conjI allI impI)
    fix i q
    assume i: "i < ss_nstmts (detach r s)" and q: "st_rows (ss_stmts (detach r s) i) = Some q"
    then have old: "st_rows (ss_stmts s i) = Some q" "\<not> (i = rw_st (ss_rows s r) \<and> q = r)"
      by (auto simp: detach_stmts split: if_splits)
    with ok i show "q < ss_nrows (detach r s)" "rw_st (ss_rows (detach r s) q) = i" "\<not> rw_closed (ss_rows (detach r s) q)"
      unfolding cursors_ok_def by (auto simp: detach_stmts detach_rows)
  next
    fix q
    assume "q < ss_nrows (detach r s)"
    then have q: "q < ss_nrows s" by (simp add: detach_stmts)
    with ok have old: "rw_st (ss_rows s q) < ss_nstmts s"
      "\<not> rw_closed (ss_rows s q) \<Longrightarrow> st_rows (ss_stmts s (rw_st (ss_rows s q))) = Some q"
      "session_usable s \<Longrightarrow> rw_cursorOpen (ss_rows s q) \<Longrightarrow> \<not> rw_closed (ss_rows s q)"
      unfolding cursors_ok_def by blast+
    show "rw_st (ss_rows (detach r s) q) < ss_nstmts (detach r s)"
      using old(1) by (simp add: detach_stmts detach_rows)
    show "st_rows (ss_stmts (detach r s) (rw_st (ss_rows (detach r s) q))) = Some q"
      if "\<not> rw_closed (ss_rows (detach r s) q)"
      using that old(2) by (simp add: detach_stmts detach_rows)
    show "\<not> rw_closed (ss_rows (detach r s) q)"
      if "session_usable (detach r s) \<and> rw_cursorOpen (ss_rows (detach r s) q)"
      using that old(3) by (auto simp: detach_stmts detach_rows session_usable_def)
  qed
qed

lemma closed_ok_detach: "closed_ok s \<Longrightarrow> closed_ok (detach r s)"
  unfolding closed_ok_def by (auto simp: detach_stmts session_usable_def)

lemma session_ok_detach: "session_ok s \<Longrightarrow> session_ok (detach r s)"
  by (auto simp: session_ok_def intro: handles_ok_same same_handles_detach cursors_ok_detach closed_ok_detach)

lemma rows_close_ok: "session_ok s \<Longrightarrow> rows_close r reuse s = (res, s') \<Longrightarrow> session_ok s'"
  by (rule session_ok_quiet [OF session_ok_detach rows_close_detach])

text \<open>Closing the rows of a statement leaves it without.\<close>

lemma closeRows_effect:
  assumes "closeRows i reuse s = (res, s')" "cursors_ok s" "i < ss_nstmts s"
  shows "same_handles s s' \<and> cursors_ok s' \<and> ss_nrows s' = ss_nrows s \<and> st_rows (ss_stmts s' i) = None
    \<and> (\<forall>j. st_rows (ss_stmts s' j) = st_rows (ss_stmts s j) \<or> st_rows (ss_stmts s' j) = None)"
proof (cases "st_rows (ss_stmts s i)")
  case None
  with assms show ?thesis by (simp add: closeRows_def)
next
  case (Some r)
  then have "rows_close r reuse s = (res, s')" using assms(1) by (simp add: closeRows_def)
  then have q: "quiet (detach r s) s'" by (rule rows_close_detach)
  have "rw_st (ss_rows s r) = i" using Some assms(2,3) unfolding cursors_ok_def by blast
  with Some q have "st_rows (ss_stmts s' i) = None"
    by (simp add: quiet_def same_cursors_def detach_stmts)
  moreover have "same_handles s s'"
    using q same_handles_detach by (auto simp: quiet_def intro: same_handles_trans)
  moreover have "cursors_ok s'" using cursors_ok_detach [OF assms(2)] q by (rule cursors_ok_quiet)
  ultimately show ?thesis using q by (auto simp: quiet_def same_cursors_def detach_stmts)
qed

lemma closeRows_ok:
  assumes "closeRows i reuse s = (res, s')" "session_ok s" "i < ss_nstmts s"
  shows "session_ok s'"
  using closeRows_effect [OF assms(1) _ assms(3)] assms(2)
  unfolding session_ok_def by (auto intro: handles_ok_same) (auto simp: closed_ok_def same_handles_def, metis)

section \<open>Releasing a statement\<close>

definition rows_dropped :: "nat \<Rightarrow> db_session \<Rightarrow> db_session \<Rightarrow> bool" where
  "rows_dropped i s s' \<longleftrightarrow> same_handles s s' \<and> cursors_ok s' \<and> ss_nrows s' = ss_nrows s
     \<and> st_rows (ss_stmts s' i) = None
     \<and> (\<forall>j. st_rows (ss_stmts s' j) = st_rows (ss_stmts s j) \<or> st_rows (ss_stmts s' j) = None)"

lemma rows_dropped_quiet: "rows_dropped i s s1 \<Longrightarrow> quiet s1 s2 \<Longrightarrow> rows_dropped i s s2"
  unfolding rows_dropped_def
  by (auto simp: quiet_def same_cursors_def intro: same_handles_trans cursors_ok_quiet)

lemma closeRows_dropped:
  "closeRows i reuse s = (res, s') \<Longrightarrow> cursors_ok s \<Longrightarrow> i < ss_nstmts s \<Longrightarrow> rows_dropped i s s'"
  unfolding rows_dropped_def by (rule closeRows_effect)

lemma release_server_dropped:
  assumes "release_server T ctx i s = (res, s')" "cursors_ok s" "i < ss_nstmts s"
  shows "rows_dropped i s s'"
proof -
  obtain r1 s1 where s1: "closeRows i reuseNo s = (r1, s1)" by fastforce
  obtain r2 s2 where s2: "delete_descriptor i s1 = (r2, s2)" by fastforce
  have d2: "rows_dropped i s s2"
    by (rule rows_dropped_quiet [OF closeRows_dropped [OF s1 assms(2,3)] quiet_opD [OF quiet_delete_descriptor s2]])
  obtain r3 s3 where s3: "delete_rpb T ctx i s2 = (r3, s3)" by fastforce
  have d3: "rows_dropped i s s3" by (rule rows_dropped_quiet [OF d2 quiet_opD [OF quiet_delete_rpb s3]])
  from assms(1) have "s' = s2 \<or> s' = s3"
    unfolding release_server_def s1 prod.case s2 s3 by (auto split: res.splits)
  with d2 d3 show ?thesis by blast
qed

lemma freeID_simps [simp]:
  "dc_ids (freeID k c) = (dc_ids c)(k := False)" "db_usable (freeID k c) = db_usable c"
  "dc_conn (freeID k c) = dc_conn c" "dc_opts (freeID k c) = dc_opts c"
  "db_usable (c\<lparr>dc_ids := f\<rparr>) = db_usable c"
  by (simp_all add: freeID_def db_usable_def)

lemma release_ok:
  assumes run: "release T ctx i s = (res, s')" and ok: "session_ok s" and i: "i \<in> open_stmts s"
  shows "session_ok s' \<and> ss_nstmts s' = ss_nstmts s \<and> ss_nrows s' = ss_nrows s"
proof -
  from i have i': "i < ss_nstmts s" "\<not> st_closed (ss_stmts s i)" by (simp_all add: open_stmts_def)
  define s0 where "s0 = upd_stmt i (\<lambda>x. x\<lparr>st_closed := True\<rparr>) s"
  have s0: "ss_nstmts s0 = ss_nstmts s" "ss_nrows s0 = ss_nrows s" "ss_conn s0 = ss_conn s" "ss_rows s0 = ss_rows s"
    "\<And>j. st_id (ss_stmts s0 j) = st_id (ss_stmts s j)" "\<And>j. st_rows (ss_stmts s0 j) = st_rows (ss_stmts s j)"
    "\<And>j. st_closed (ss_stmts s0 j) \<longleftrightarrow> j = i \<or> st_closed (ss_stmts s j)"
    by (auto simp: s0_def upd_stmt_def)
  have c0: "cursors_ok s0" using ok by (simp add: session_ok_def cursors_ok_def session_usable_def s0)
  obtain s1 where s1: "s' = s1\<lparr>ss_conn := freeID (st_id (ss_stmts s1 i)) (ss_conn s1)\<rparr>"
    and case1: "\<not> session_usable s \<and> s1 = s0 \<or> rows_dropped i s0 s1"
  proof (cases "session_usable s")
    case False
    with run show thesis
      by (intro that [of s0]) (auto simp: release_def Let_def s0_def [symmetric] session_usable_def s0)
  next
    case True
    obtain r1 t where t: "release_server T ctx i s0 = (r1, t)" by fastforce
    with True run have "s' = t\<lparr>ss_conn := freeID (st_id (ss_stmts t i)) (ss_conn t)\<rparr>"
      by (simp add: release_def Let_def s0_def [symmetric] session_usable_def s0)
    moreover have "rows_dropped i s0 t" using release_server_dropped [OF t c0] i' s0 by simp
    ultimately show thesis using that by blast
  qed
  have h: "same_handles s0 s1" and c1: "cursors_ok s1" and n: "ss_nrows s1 = ss_nrows s0"
    using case1 c0 by (auto simp: rows_dropped_def)
  have h': "ss_nstmts s1 = ss_nstmts s" "dc_ids (ss_conn s1) = dc_ids (ss_conn s)"
    "\<And>j. st_id (ss_stmts s1 j) = st_id (ss_stmts s j)"
    "\<And>j. st_closed (ss_stmts s1 j) \<longleftrightarrow> j = i \<or> st_closed (ss_stmts s j)"
    "session_usable s1 \<Longrightarrow> session_usable s"
    using h unfolding same_handles_def session_usable_def s0 by blast+
  have parts: "ss_nstmts s' = ss_nstmts s" "ss_nrows s' = ss_nrows s" "ss_rows s' = ss_rows s1" "ss_stmts s' = ss_stmts s1"
    "session_usable s' = session_usable s1" "dc_ids (ss_conn s') = (dc_ids (ss_conn s))(id_of s i := False)"
    unfolding s1 by (simp_all add: h' n s0 id_of_def session_usable_def)
  have os: "open_stmts s' = open_stmts s - {i}" using i' by (auto simp: open_stmts_def parts h')
  have ids: "id_of s' = id_of s" by (rule ext) (simp add: id_of_def parts h')
  have old: "{k. dc_ids (ss_conn s) k} = id_of s ` open_stmts s" "inj_on (id_of s) (open_stmts s)"
      "id_of s ` open_stmts s \<subseteq> {1..maxStatements}"
    using ok by (simp_all add: session_ok_def handles_ok_def)
  have img: "id_of s ` (open_stmts s - {i}) = id_of s ` open_stmts s - {id_of s i}"
    using inj_on_image_set_diff [OF old(2), of "open_stmts s" "{i}"] i by auto
  have rest: "{k. ((dc_ids (ss_conn s))(id_of s i := False)) k} = id_of s ` open_stmts s - {id_of s i}"
    unfolding old(1) [symmetric] by auto
  have "handles_ok s'"
    unfolding handles_ok_def parts os ids img
    by (intro conjI rest inj_on_diff [OF old(2)]) (use old(3) in blast)
  moreover have "cursors_ok s'" using c1 unfolding cursors_ok_def parts by (simp add: h' n s0)
  moreover have "closed_ok s'"
    unfolding closed_ok_def parts
  proof (intro impI allI)
    fix j assume u: "session_usable s1" and j: "j < ss_nstmts s" "st_closed (ss_stmts s1 j)"
    have dr: "rows_dropped i s0 s1" using case1 h'(5) [OF u] by simp
    have d: "st_rows (ss_stmts s1 i) = None"
        "st_rows (ss_stmts s1 j) = st_rows (ss_stmts s j) \<or> st_rows (ss_stmts s1 j) = None"
      using dr unfolding rows_dropped_def s0(6) by simp_all
    show "st_rows (ss_stmts s1 j) = None"
    proof (cases "j = i")
      case False
      with j ok h'(5) [OF u] have "st_rows (ss_stmts s j) = None"
        unfolding session_ok_def closed_ok_def h' by blast
      with d(2) show ?thesis by auto
    qed (simp add: d)
  qed
  ultimately show ?thesis by (simp add: session_ok_def parts)
qed

section \<open>Every operation keeps the invariant\<close>

definition keeps :: "db_session \<Rightarrow> db_session \<Rightarrow> bool" where
  "keeps s s' \<longleftrightarrow> session_ok s' \<and> ss_nstmts s \<le> ss_nstmts s' \<and> ss_nrows s \<le> ss_nrows s'"

lemma keeps_refl: "session_ok s \<Longrightarrow> keeps s s"
  by (simp add: keeps_def)

lemma keeps_trans: "keeps s s1 \<Longrightarrow> keeps s1 s2 \<Longrightarrow> keeps s s2"
  by (auto simp: keeps_def)

lemma keeps_ok: "keeps s s' \<Longrightarrow> session_ok s'"
  by (simp add: keeps_def)

lemma keeps_quiet: "session_ok s \<Longrightarrow> quiet s s' \<Longrightarrow> keeps s s'"
  by (simp add: keeps_def session_ok_quiet) (simp add: quiet_def same_handles_def same_cursors_def)

lemma rows_close_keeps: "session_ok s \<Longrightarrow> rows_close r reuse s = (res, s') \<Longrightarrow> keeps s s'"
  using rows_close_ok [of s r reuse res s'] rows_close_detach [of r reuse s res s']
  by (simp add: keeps_def quiet_def same_handles_def same_cursors_def detach_stmts)

lemma rows_dropped_keeps:
  assumes "session_ok s" "rows_dropped i s s'"
  shows "keeps s s'"
proof -
  have d: "same_handles s s'" "cursors_ok s'" "ss_nrows s' = ss_nrows s"
    "\<And>j. st_rows (ss_stmts s' j) = st_rows (ss_stmts s j) \<or> st_rows (ss_stmts s' j) = None"
    using assms(2) by (simp_all add: rows_dropped_def)
  have "closed_ok s'"
    unfolding closed_ok_def
  proof (intro impI allI)
    fix j assume "session_usable s'" "j < ss_nstmts s'" "st_closed (ss_stmts s' j)"
    with d(1) have "session_usable s" "j < ss_nstmts s" "st_closed (ss_stmts s j)"
      by (simp_all add: same_handles_def)
    with assms(1) have "st_rows (ss_stmts s j) = None" by (simp add: session_ok_def closed_ok_def)
    with d(4) [of j] show "st_rows (ss_stmts s' j) = None" by auto
  qed
  moreover have "handles_ok s'" using assms(1) by (simp add: session_ok_def handles_ok_same [OF _ d(1)])
  moreover have "ss_nstmts s' = ss_nstmts s" using d(1) by (simp add: same_handles_def)
  ultimately show ?thesis using d(2,3) by (simp add: keeps_def session_ok_def)
qed

lemma release_keeps:
  "release T ctx i s = (res, s') \<Longrightarrow> session_ok s \<Longrightarrow> i \<in> open_stmts s \<Longrightarrow> keeps s s'"
  using release_ok by (simp add: keeps_def)

lemma stmt_Close_keeps:
  assumes "stmt_Close T i s = (res, s')" "session_ok s" "i < ss_nstmts s"
  shows "keeps s s'"
proof (cases "st_closed (ss_stmts s i)")
  case True
  with assms show ?thesis by (simp add: stmt_Close_def keeps_refl)
next
  case False
  with assms show ?thesis by (intro release_keeps [of T background i s res]) (simp_all add: stmt_Close_def open_stmts_def)
qed

lemma rows_Close_keeps:
  assumes "rows_Close T r s = (res, s')" "session_ok s" "r < ss_nrows s"
  shows "keeps s s'"
proof (cases "rw_closed (ss_rows s r)")
  case True
  with assms show ?thesis by (simp add: rows_Close_def keeps_refl)
next
  case False
  obtain r1 s1 where c: "rows_close r reuseYes s = (r1, s1)" by fastforce
  have k: "keeps s s1" by (rule rows_close_keeps [OF assms(2) c])
  obtain r2 s2 where c2: "stmt_Close T (rw_st (ss_rows s1 r)) s1 = (r2, s2)" by fastforce
  have "rw_st (ss_rows s1 r) < ss_nstmts s1"
    using k assms(3) by (auto simp: keeps_def session_ok_def cursors_ok_def)
  with c2 k have "keeps s s2" by (auto intro: keeps_trans stmt_Close_keeps keeps_ok)
  moreover have "s' = s1 \<or> s' = s2"
    using assms(1) False c c2 by (auto simp: rows_Close_def split: res.splits if_splits)
  ultimately show ?thesis using k by blast
qed

lemma closeRows_then:
  assumes "bind_op (closeRows i reuse) f s = (res, s')" "session_ok s" "i < ss_nstmts s" "\<And>x. quiet_op (f x)"
  shows "rows_dropped i s s'"
  using assms(1)
proof (cases rule: bind_op_cases)
  case (continues x s1)
  then show ?thesis
    using assms closeRows_dropped [OF continues(1)] quiet_opD [OF assms(4) continues(2)]
    by (auto simp: session_ok_def intro: rows_dropped_quiet)
qed (use assms closeRows_dropped in \<open>auto simp: session_ok_def\<close>)

lemma stmt_exec_keeps:
  assumes run: "stmt_exec E ctx i args s = (res, s')" and ok: "session_ok s" and i: "i < ss_nstmts s"
  shows "keeps s s'"
proof (cases "stmt_usable i s = None \<and> st_columns (ss_stmts s i) = None")
  case False
  with run have "s' = s" by (auto simp: stmt_exec_def split: option.splits)
  with ok show ?thesis by (simp add: keeps_refl)
next
  case True
  define f where "f = (\<lambda>_ :: unit. bind_op (bind_args E i args) (\<lambda>data.
      bind_op (\<lambda>s1. on_conn (db_request_ok (ve_ccsids E) ctx ''execute''
              (execute_request (ss_stmts s1 i) data)) s1) (\<lambda>rep. ret_op (Ok (db_rowCount rep) :: (db_error, int) res))))"
  have "quiet_op (f x)" for x unfolding f_def by (intro quiet_rules)
  moreover have "bind_op (closeRows i reuseYes) f s = (res, s')"
    using True run by (simp add: stmt_exec_def f_def)
  ultimately show ?thesis using rows_dropped_keeps [OF ok] closeRows_then [OF _ ok i] by blast
qed

text \<open>New rows enter the heap.\<close>

lemma add_rows_keeps:
  assumes run: "add_rows i x s = (res, s')" and ok: "session_ok s" and i: "i \<in> open_stmts s"
    and none: "st_rows (ss_stmts s i) = None" and x: "rw_st x = i" "\<not> rw_closed x"
  shows "keeps s s' \<and> res = Ok (ss_nrows s) \<and> ss_nrows s < ss_nrows s'"
proof -
  have i': "i < ss_nstmts s" "\<not> st_closed (ss_stmts s i)" using i by (simp_all add: open_stmts_def)
  have parts: "ss_conn s' = ss_conn s" "ss_nstmts s' = ss_nstmts s" "ss_nrows s' = Suc (ss_nrows s)"
    "\<And>j. st_id (ss_stmts s' j) = st_id (ss_stmts s j)" "\<And>j. st_closed (ss_stmts s' j) = st_closed (ss_stmts s j)"
    "\<And>j. st_rows (ss_stmts s' j) = (if j = i then Some (ss_nrows s) else st_rows (ss_stmts s j))"
    "\<And>r. ss_rows s' r = (if r = ss_nrows s then x else ss_rows s r)" "res = Ok (ss_nrows s)"
    using run by (auto simp: add_rows_def upd_stmt_def Let_def split: if_splits)
  have "same_handles s s'" by (simp add: same_handles_def parts session_usable_def)
  then have h: "handles_ok s'" using ok handles_ok_same by (auto simp: session_ok_def)
  have c: "cursors_ok s" "closed_ok s" using ok by (simp_all add: session_ok_def)
  have "closed_ok s'" using c(2) i' by (auto simp: closed_ok_def parts session_usable_def)
  moreover have "cursors_ok s'"
    unfolding cursors_ok_def parts session_usable_def
  proof (intro conjI allI impI)
    fix j r
    assume "j < ss_nstmts s" "(if j = i then Some (ss_nrows s) else st_rows (ss_stmts s j)) = Some r"
    then have "j = i \<and> r = ss_nrows s \<or> j \<noteq> i \<and> st_rows (ss_stmts s j) = Some r \<and> r < ss_nrows s
        \<and> rw_st (ss_rows s r) = j \<and> \<not> rw_closed (ss_rows s r)"
      using c(1) by (auto simp: cursors_ok_def split: if_splits)
    with x show "r < Suc (ss_nrows s)" "rw_st (if r = ss_nrows s then x else ss_rows s r) = j"
      "\<not> rw_closed (if r = ss_nrows s then x else ss_rows s r)" by auto
  next
    fix r assume "r < Suc (ss_nrows s)"
    then have "r = ss_nrows s \<or> r < ss_nrows s \<and> rw_st (ss_rows s r) < ss_nstmts s
        \<and> (\<not> rw_closed (ss_rows s r) \<longrightarrow> st_rows (ss_stmts s (rw_st (ss_rows s r))) = Some r)
        \<and> (db_usable (ss_conn s) = None \<and> rw_cursorOpen (ss_rows s r) \<longrightarrow> \<not> rw_closed (ss_rows s r))"
      using c(1) by (auto simp: cursors_ok_def session_usable_def)
    with x i' none show "rw_st (if r = ss_nrows s then x else ss_rows s r) < ss_nstmts s"
      "\<not> rw_closed (if r = ss_nrows s then x else ss_rows s r) \<Longrightarrow>
       (if rw_st (if r = ss_nrows s then x else ss_rows s r) = i then Some (ss_nrows s)
        else st_rows (ss_stmts s (rw_st (if r = ss_nrows s then x else ss_rows s r)))) = Some r"
      "db_usable (ss_conn s) = None \<and> rw_cursorOpen (if r = ss_nrows s then x else ss_rows s r) \<Longrightarrow>
       \<not> rw_closed (if r = ss_nrows s then x else ss_rows s r)" by (auto split: if_splits)
  qed
  ultimately show ?thesis using h by (simp add: keeps_def session_ok_def parts)
qed

lemma new_rows_simps [simp]: "rw_st (new_rows i rep) = i" "\<not> rw_closed (new_rows i rep)"
  by (simp_all add: new_rows_def absorbEnd_def Let_def)

lemma queryValues_keeps:
  assumes run: "queryValues E ctx i args s = (res, s')" and ok: "session_ok s" and i: "i < ss_nstmts s"
  shows "keeps s s' \<and> (\<forall>r. res = Ok r \<longrightarrow> r < ss_nrows s')"
proof (cases "stmt_usable i s = None \<and> st_columns (ss_stmts s i) \<noteq> None")
  case False
  with run have "s' = s \<and> (\<exists>e. res = Err e)" by (auto simp: queryValues_def split: option.splits)
  with ok show ?thesis by (auto simp: keeps_refl)
next
  case True
  define f where "f = (\<lambda>_ :: unit. bind_op (bind_args E i args) (\<lambda>data.
      (\<lambda>s1. on_conn (db_request_ok (ve_ccsids E) ctx ''open cursor''
              (open_request (ss_stmts s1 i) (ss_conn s1) data)) s1)))"
  have assoc: "bind_op (closeRows i reuseYes) (\<lambda>_. bind_op (bind_args E i args) (\<lambda>data.
      bind_op (\<lambda>s1. on_conn (db_request_ok (ve_ccsids E) ctx ''open cursor''
              (open_request (ss_stmts s1 i) (ss_conn s1) data)) s1) (\<lambda>rep. add_rows i (new_rows i rep)))) s
    = bind_op (bind_op (closeRows i reuseYes) f) (\<lambda>rep. add_rows i (new_rows i rep)) s"
    by (simp add: bind_op.simps f_def split: prod.splits res.splits)
  have q: "quiet_op (f x)" for x unfolding f_def by (intro quiet_rules)
  have "bind_op (bind_op (closeRows i reuseYes) f) (\<lambda>rep. add_rows i (new_rows i rep)) s = (res, s')"
    using True run unfolding assoc [symmetric] by (auto simp: queryValues_def)
  then show ?thesis
  proof (cases rule: bind_op_cases)
    case (fails e)
    then show ?thesis using rows_dropped_keeps [OF ok closeRows_then [OF fails(1) ok i q]] by simp
  next
    case panics
    then show ?thesis using rows_dropped_keeps [OF ok closeRows_then [OF panics(1) ok i q]] by simp
  next
    case (continues rep s1)
    note d = closeRows_then [OF continues(1) ok i q]
    have k: "keeps s s1" by (rule rows_dropped_keeps [OF ok d])
    have "i \<in> open_stmts s1" "st_rows (ss_stmts s1 i) = None"
      using d True i by (auto simp: rows_dropped_def open_stmts_same) (auto simp: open_stmts_def stmt_usable_def split: if_splits)
    from add_rows_keeps [OF continues(2) keeps_ok [OF k] this] show ?thesis
      using k by (auto intro: keeps_trans)
  qed
qed

section \<open>Preparing keeps the invariant\<close>

lemma find_SomeD: "List.find P xs = Some x \<Longrightarrow> x \<in> set xs \<and> P x"
  by (auto simp: find_Some_iff)

lemma allocID_Ok:
  "allocID c = (Ok k, c') \<Longrightarrow>
   k \<in> {1..maxStatements} \<and> \<not> dc_ids c k \<and> c' = c\<lparr>dc_ids := (dc_ids c)(k := True)\<rparr>"
  by (auto simp: allocID_def split: option.splits dest!: find_SomeD simp del: upt_Suc)

lemma allocID_fails: "allocID c = (r, c') \<Longrightarrow> (\<forall>k. r \<noteq> Ok k) \<Longrightarrow> r = Err DbTooManyStatements \<and> c' = c"
  by (auto simp: allocID_def split: option.splits)

text \<open>A statement with a handle that was free enters the heap.\<close>

lemma add_stmt_ok:
  assumes ok: "session_ok s" and k: "k \<in> {1..maxStatements}" "\<not> dc_ids (ss_conn s) k"
    and t: "t = s\<lparr>ss_conn := c, ss_stmts := (ss_stmts s)(ss_nstmts s := st), ss_nstmts := Suc (ss_nstmts s)\<rparr>"
    and c: "dc_ids c = (dc_ids (ss_conn s))(k := True)" "db_usable c = None \<longrightarrow> db_usable (ss_conn s) = None"
    and st: "st_id st = k" "\<not> st_closed st" "st_rows st = None"
  shows "keeps s t"
proof -
  let ?n = "ss_nstmts s"
  have parts: "ss_nstmts t = Suc ?n" "ss_nrows t = ss_nrows s" "ss_rows t = ss_rows s" "dc_ids (ss_conn t) = (dc_ids (ss_conn s))(k := True)"
    "\<And>j. ss_stmts t j = (if j = ?n then st else ss_stmts s j)" "session_usable t \<Longrightarrow> session_usable s"
    using c by (simp_all add: t session_usable_def)
  have os: "open_stmts t = insert ?n (open_stmts s)" using st by (auto simp: open_stmts_def parts)
  have ids: "id_of t ?n = k" "\<And>j. j \<in> open_stmts s \<Longrightarrow> id_of t j = id_of s j"
    using st by (auto simp: id_of_def parts open_stmts_def)
  have old: "{k. dc_ids (ss_conn s) k} = id_of s ` open_stmts s" "inj_on (id_of s) (open_stmts s)"
      "id_of s ` open_stmts s \<subseteq> {1..maxStatements}"
    using ok by (simp_all add: session_ok_def handles_ok_def)
  have img: "id_of t ` open_stmts s = id_of s ` open_stmts s" using ids by (intro image_cong) auto
  have k': "k \<notin> id_of s ` open_stmts s" using k(2) old(1) by blast
  have "{j. ((dc_ids (ss_conn s))(k := True)) j} = insert k {j. dc_ids (ss_conn s) j}" by auto
  moreover have "inj_on (id_of t) (insert ?n (open_stmts s))"
  proof (subst inj_on_insert, intro conjI)
    show "inj_on (id_of t) (open_stmts s)" using old(2) ids(2) by (simp cong: inj_on_cong)
    show "id_of t ?n \<notin> id_of t ` (open_stmts s - {?n})"
      using k' img ids(1) by auto
  qed
  ultimately have "handles_ok t"
    unfolding handles_ok_def parts os image_insert ids(1) img old(1) [symmetric]
    using old(1,3) k(1) by auto
  moreover have "cursors_ok t"
    unfolding cursors_ok_def parts(1-3)
  proof (intro conjI allI impI)
    fix i r assume "i < Suc ?n" "st_rows (ss_stmts t i) = Some r"
    then have "i < ?n" "st_rows (ss_stmts s i) = Some r" using st by (auto simp: parts split: if_splits)
    with ok show "r < ss_nrows s" "rw_st (ss_rows s r) = i" "\<not> rw_closed (ss_rows s r)"
      by (auto simp: session_ok_def cursors_ok_def)
  next
    fix r assume "r < ss_nrows s"
    with ok have "rw_st (ss_rows s r) < ?n"
      "\<not> rw_closed (ss_rows s r) \<longrightarrow> st_rows (ss_stmts s (rw_st (ss_rows s r))) = Some r"
      "session_usable s \<and> rw_cursorOpen (ss_rows s r) \<longrightarrow> \<not> rw_closed (ss_rows s r)"
      by (auto simp: session_ok_def cursors_ok_def)
    with parts(6) show "rw_st (ss_rows s r) < Suc ?n"
      "\<not> rw_closed (ss_rows s r) \<Longrightarrow> st_rows (ss_stmts t (rw_st (ss_rows s r))) = Some r"
      "session_usable t \<and> rw_cursorOpen (ss_rows s r) \<Longrightarrow> \<not> rw_closed (ss_rows s r)"
      by (auto simp: parts(5))
  qed
  moreover have "closed_ok t"
    unfolding closed_ok_def
  proof (intro impI allI)
    fix i assume "session_usable t" "i < ss_nstmts t" "st_closed (ss_stmts t i)"
    then have "session_usable s" "i < ?n" "st_closed (ss_stmts s i)" using st by (auto simp: parts(1,5,6) split: if_splits)
    with ok show "st_rows (ss_stmts t i) = None" by (auto simp: parts(5) session_ok_def closed_ok_def)
  qed
  ultimately show ?thesis by (simp add: keeps_def session_ok_def parts(1,2))
qed

lemma on_conn_shape:
  assumes "on_conn m s = (r, s')" "conn_op m"
  obtains c where "s' = s\<lparr>ss_conn := c\<rparr>" "m (ss_conn s) = (r, c)" "conn_step (ss_conn s) c"
  using assms by (auto simp: on_conn_def split: prod.splits dest: conn_opD)

text \<open>Asking for the RPB.\<close>

lemma rpb_shape:
  assumes "bind_op (ret_op (wrap_err DbName (rpb_request k))) (\<lambda>rpb. on_conn (db_send rpb)) s = (r, s')"
  obtains c where "s' = s\<lparr>ss_conn := c\<rparr>" "conn_step (ss_conn s) c"
  using assms
proof (cases rule: bind_op_cases)
  case (continues rpb s1)
  then have "on_conn (db_send rpb) s = (r, s')" by simp
  then show thesis by (rule on_conn_shape [OF _ conn_op_db_send]) (rule that)
qed (auto intro!: that [of "ss_conn s"] simp: conn_step_def)

lemma or_release_keeps:
  assumes "or_release T ctx i m s = (res, s')" "session_ok s" "i \<in> open_stmts s" "quiet_op m"
  shows "keeps s s' \<and> ((\<forall>e. res \<noteq> Err e) \<longrightarrow> i \<in> open_stmts s')"
proof -
  obtain r s1 where m: "m s = (r, s1)" by fastforce
  have q: "quiet s s1" by (rule quiet_opD [OF assms(4) m])
  have k: "keeps s s1" by (rule keeps_quiet [OF assms(2) q])
  have "open_stmts s1 = open_stmts s" using q by (intro open_stmts_same) (simp add: quiet_def)
  with assms(3) have o: "i \<in> open_stmts s1" by simp
  show ?thesis
  proof (cases r)
    case (Err e)
    obtain r2 s2 where rel: "release T ctx i s1 = (r2, s2)" by fastforce
    have "keeps s1 s2" by (rule release_keeps [OF rel keeps_ok [OF k] o])
    with assms(1) m Err rel k show ?thesis by (auto simp: or_release_def intro: keeps_trans)
  qed (use assms(1) m k o in \<open>simp_all add: or_release_def\<close>)
qed

lemma freeID_back:
  assumes "\<not> dc_ids c k" "conn_step (c\<lparr>dc_ids := (dc_ids c)(k := True)\<rparr>) c'"
  shows "conn_step c (freeID k c')"
  using assms by (auto simp: conn_step_def fun_upd_idem_iff)

lemma rpb_request_no_panic [simp]: "rpb_request k \<noteq> Panic"
  unfolding rpb_request_def by (intro panic_free) (simp_all only: addName_def map_res_Panic_iff EncodeEBCDIC_no_panic simp_thms)

lemma quiet_conn: "conn_step (ss_conn s) c \<Longrightarrow> quiet s (s\<lparr>ss_conn := c\<rparr>)"
  by (simp add: quiet_def same_handles_def same_cursors_def session_usable_def conn_step_def)

lemma Prepare_keeps:
  assumes run: "Prepare G T ctx query s = (res, s')" and ok: "session_ok s"
  shows "keeps s s' \<and> (\<forall>i. res = Ok i \<longrightarrow> i \<in> open_stmts s')"
proof (cases "db_usable (ss_conn s)")
  case (Some e)
  with run ok show ?thesis by (auto simp: Prepare_def keeps_refl)
next
  case None
  obtain ra c1 where alloc: "allocID (ss_conn s) = (ra, c1)" by fastforce
  show ?thesis
  proof (cases "\<exists>k. ra = Ok k")
    case False
    then have "ra = Err DbTooManyStatements" "c1 = ss_conn s" using allocID_fails [OF alloc] by auto
    with run None alloc ok show ?thesis
      by (auto simp: Prepare_def bind_op.simps on_conn_def keeps_refl)
  next
    case True
    then obtain k where ra: "ra = Ok k" by blast
    from alloc ra have k: "k \<in> {1..maxStatements}" "\<not> dc_ids (ss_conn s) k"
      and c1: "c1 = (ss_conn s)\<lparr>dc_ids := (dc_ids (ss_conn s))(k := True)\<rparr>"
      using allocID_Ok by blast+
    obtain r2 s2 where rpb: "bind_op (ret_op (wrap_err DbName (rpb_request k))) (\<lambda>rpb. on_conn (db_send rpb))
        (s\<lparr>ss_conn := c1\<rparr>) = (r2, s2)" by fastforce
    obtain c2 where s2: "s2 = s\<lparr>ss_conn := c2\<rparr>" and c2: "conn_step c1 c2"
      using rpb_shape [OF rpb] by auto
    define t where "t = s\<lparr>ss_conn := c2, ss_stmts := (ss_stmts s)(ss_nstmts s := new_stmt G k query),
      ss_nstmts := Suc (ss_nstmts s)\<rparr>"
    have run': "(case (r2, s2) of
               (Ok _, s2) \<Rightarrow> bind_op (or_release T ctx (ss_nstmts s) (describe_stmt T ctx (ss_nstmts s)))
                   (\<lambda>_. ret_op (Ok (ss_nstmts s))) t
             | (Err e, s2) \<Rightarrow> (Err e, s2\<lparr>ss_conn := freeID k (ss_conn s2)\<rparr>)
             | (Panic, s2) \<Rightarrow> (Panic, s2)) = (res, s')"
      using run None alloc ra rpb by (simp add: Prepare_def bind_op.simps on_conn_def s2 t_def Let_def split: res.splits)
    show ?thesis
    proof (cases r2)
      case (Err e)
      with run' have "res = Err e" "s' = s\<lparr>ss_conn := freeID k c2\<rparr>" by (simp_all add: s2)
      moreover have "conn_step (ss_conn s) (freeID k c2)" using freeID_back [OF k(2)] c2 c1 by simp
      ultimately show ?thesis using keeps_quiet [OF ok quiet_conn] by simp
    next
      case Panic
      have "db_send q c \<noteq> (Panic, d)" for q c d
        using dbsend.run_no_panic [of q c] by auto
      with rpb Panic show ?thesis
        by (auto simp: bind_op.simps ret_op_def on_conn_def split: res.splits prod.splits)
    next
      case (Ok u)
      have t: "keeps s t"
        by (rule add_stmt_ok [where c = c2 and st = "new_stmt G k query", OF ok k])
          (use c1 c2 in \<open>simp_all add: t_def conn_step_def new_stmt_def\<close>)
      have o: "ss_nstmts s \<in> open_stmts t" by (simp add: open_stmts_def t_def new_stmt_def)
      obtain r3 s3 where rel: "or_release T ctx (ss_nstmts s) (describe_stmt T ctx (ss_nstmts s)) t = (r3, s3)"
        by fastforce
      from or_release_keeps [OF rel keeps_ok [OF t] o quiet_describe]
      have "keeps t s3" "(\<forall>e. r3 \<noteq> Err e) \<longrightarrow> ss_nstmts s \<in> open_stmts s3" by simp_all
      with run' Ok rel t show ?thesis
        by (auto simp: bind_op.simps ret_op_def intro: keeps_trans split: res.splits)
    qed
  qed
qed

section \<open>One-off statements and the whole interface\<close>

lemma conn_Exec_keeps:
  assumes run: "conn_Exec G conv E ctx query as s = (res, s')" and ok: "session_ok s"
  shows "keeps s s'"
  using run unfolding conn_Exec_def
proof (cases rule: bind_op_cases)
  case (fails e)
  then show ?thesis using Prepare_keeps [OF _ ok] by blast
next
  case panics
  then show ?thesis using Prepare_keeps [OF _ ok] by blast
next
  case (continues i s1)
  have k1: "keeps s s1" and i: "i < ss_nstmts s1"
    using Prepare_keeps [OF continues(1) ok] by (auto simp: open_stmts_def)
  obtain r2 s2 where e: "stmt_Exec conv E ctx i as s1 = (r2, s2)" by fastforce
  have k2: "keeps s1 s2"
    using e stmt_exec_keeps [OF _ keeps_ok [OF k1] i] keeps_refl [OF keeps_ok [OF k1]]
    unfolding stmt_Exec_def by (elim bind_op_cases) auto
  obtain r3 s3 where c: "stmt_Close (ve_ccsids E) i s2 = (r3, s3)" by fastforce
  have k3: "keeps s2 s3"
    using stmt_Close_keeps [OF c keeps_ok [OF k2]] i k2 by (simp add: keeps_def)
  have "s' = s2 \<or> s' = s3" using continues(2) e c by (auto split: res.splits)
  then show ?thesis using k1 k2 k3 by (metis keeps_trans)
qed

lemma set_closeStmt_quiet: "quiet s (upd_rows r (\<lambda>x. x\<lparr>rw_closeStmt := True\<rparr>) s)"
  using quiet_upd_rows [of "\<lambda>x. x\<lparr>rw_closeStmt := True\<rparr>" undefined r] by (simp add: quiet_op_def)

lemma conn_Query_keeps:
  assumes run: "conn_Query G conv E ctx query as s = (res, s')" and ok: "session_ok s"
  shows "keeps s s'"
  using run unfolding conn_Query_def
proof (cases rule: bind_op_cases)
  case (fails e)
  then show ?thesis using Prepare_keeps [OF _ ok] by blast
next
  case panics
  then show ?thesis using Prepare_keeps [OF _ ok] by blast
next
  case (continues i s1)
  have k1: "keeps s s1" and i: "i < ss_nstmts s1"
    using Prepare_keeps [OF continues(1) ok] by (auto simp: open_stmts_def)
  obtain r2 s2 where e: "stmt_Query conv E ctx i as s1 = (r2, s2)" by fastforce
  have k2: "keeps s1 s2"
    using e queryValues_keeps [OF _ keeps_ok [OF k1] i] keeps_refl [OF keeps_ok [OF k1]]
    unfolding stmt_Query_def by (elim bind_op_cases) auto
  obtain r3 s3 where c: "stmt_Close (ve_ccsids E) i s2 = (r3, s3)" by fastforce
  have k3: "keeps s2 s3"
    using stmt_Close_keeps [OF c keeps_ok [OF k2]] i k2 by (simp add: keeps_def)
  have "s' = s2 \<or> s' = s3 \<or> (\<exists>r. s' = upd_rows r (\<lambda>x. x\<lparr>rw_closeStmt := True\<rparr>) s2)"
    using continues(2) e c by (auto split: res.splits)
  then show ?thesis
    using k1 k2 k3 keeps_quiet [OF keeps_ok [OF k2] set_closeStmt_quiet] by (metis keeps_trans)
qed

text \<open>What a program can do with a session; an address not given out yet is no pointer.\<close>

datatype 'x session_call =
    CallPrepare go_context string
  | CallExec go_context nat "'x list"
  | CallQuery go_context nat "'x list"
  | CallNext nat "argument list"
  | CallCloseRows nat
  | CallCloseStmt nat
  | CallConnExec go_context string "'x list"
  | CallConnQuery go_context string "'x list"
  | CallTx tx_op
  | CallPing go_context
  | CallClose

fun session_exec ::
  "'a golib_scheme \<Rightarrow> ('x \<Rightarrow> argument option) \<Rightarrow> value_env \<Rightarrow> 'x session_call \<Rightarrow> db_session \<Rightarrow> db_session"
where
  "session_exec G conv E (CallPrepare ctx query) s = snd (Prepare G (ve_ccsids E) ctx query s)"
| "session_exec G conv E (CallExec ctx i as) s =
     (if i < ss_nstmts s then snd (stmt_Exec conv E ctx i as s) else s)"
| "session_exec G conv E (CallQuery ctx i as) s =
     (if i < ss_nstmts s then snd (stmt_Query conv E ctx i as s) else s)"
| "session_exec G conv E (CallNext r dest) s =
     (if r < ss_nrows s then fst (snd (Next E r (s, dest))) else s)"
| "session_exec G conv E (CallCloseRows r) s =
     (if r < ss_nrows s then snd (rows_Close (ve_ccsids E) r s) else s)"
| "session_exec G conv E (CallCloseStmt i) s =
     (if i < ss_nstmts s then snd (stmt_Close (ve_ccsids E) i s) else s)"
| "session_exec G conv E (CallConnExec ctx query as) s = snd (conn_Exec G conv E ctx query as s)"
| "session_exec G conv E (CallConnQuery ctx query as) s = snd (conn_Query G conv E ctx query as s)"
| "session_exec G conv E (CallTx op) s = snd (on_conn (tx_exec (ve_ccsids E) op) s)"
| "session_exec G conv E (CallPing ctx) s = snd (on_conn (Ping (ve_ccsids E) ctx) s)"
| "session_exec G conv E CallClose s = s\<lparr>ss_conn := db_Close (ss_conn s)\<rparr>"

lemma conn_op_Ping: "conn_op (Ping T ctx)"
  unfolding Ping_def by (intro quiet_rules)

lemma conn_op_autocommit: "conn_op (setAutoCommit T ctx on level)"
  unfolding setAutoCommit_def by (intro quiet_rules)

lemma conn_op_end: "conn_op (commitOrRollback T ctx f op)"
  unfolding commitOrRollback_def by (intro quiet_rules)

lemma conn_step_update [simp]:
  "conn_step c (c'\<lparr>dc_inTx := x\<rparr>) = conn_step c c'"
  "conn_step c c' \<Longrightarrow> conn_step c (c'\<lparr>dc_broken := True\<rparr>)"
  "conn_step c c"
  by (simp_all add: conn_step_def) (simp add: db_usable_def)

lemma conn_op_restore: "conn_op (restore_autocommit T ctx endErr)"
  unfolding conn_op_def restore_autocommit_def
  by (auto split: prod.splits res.splits dest!: conn_opD [OF conn_op_autocommit])

lemma conn_op_tx: "conn_op (tx_exec T op)"
proof (rule conn_opI)
  fix c r c'
  assume run: "tx_exec T op c = (r, c')"
  have e: "conn_step c c'" if "endTransaction T ctx f n c = (r, c')" for ctx f n
    using that unfolding endTransaction_def
    by (auto split: if_splits prod.splits res.splits
        dest!: conn_opD [OF conn_op_end] conn_opD [OF conn_op_restore] intro: conn_step_trans)
  show "conn_step c c'"
  proof (cases op)
    case (TxBegin ctx level)
    with run show ?thesis
      by (auto simp: Begin_def split: if_splits prod.splits res.splits dest!: conn_opD [OF conn_op_autocommit])
  qed (use run e in \<open>auto simp: Commit_def Rollback_def\<close>)
qed

lemma session_exec_keeps:
  assumes "session_ok s"
  shows "keeps s (session_exec G conv E call s)"
proof (cases call)
  case (CallPrepare ctx query)
  then show ?thesis by (simp add: Prepare_keeps [OF surjective_pairing assms, THEN conjunct1])
next
  case (CallExec ctx i as)
  then show ?thesis
    using stmt_exec_keeps [OF _ assms, of E ctx i] keeps_refl [OF assms]
    by (cases "stmt_Exec conv E ctx i as s") (auto simp: stmt_Exec_def elim!: bind_op_cases)
next
  case (CallQuery ctx i as)
  then show ?thesis
    using queryValues_keeps [OF _ assms, of E ctx i] keeps_refl [OF assms]
    by (cases "stmt_Query conv E ctx i as s") (auto simp: stmt_Query_def elim!: bind_op_cases)
next
  case (CallNext r dest)
  obtain res s1 d where n: "Next E r (s, dest) = (res, (s1, d))" by (metis surj_pair)
  from keeps_quiet [OF assms quiet_Next [OF n]] CallNext show ?thesis
    by (simp add: n keeps_refl [OF assms])
next
  case (CallCloseRows r)
  then show ?thesis using rows_Close_keeps [OF surjective_pairing assms] keeps_refl [OF assms] by simp
next
  case (CallCloseStmt i)
  then show ?thesis using stmt_Close_keeps [OF surjective_pairing assms] keeps_refl [OF assms] by simp
next
  case (CallConnExec ctx query as)
  then show ?thesis by (simp add: conn_Exec_keeps [OF surjective_pairing assms])
next
  case (CallConnQuery ctx query as)
  then show ?thesis by (simp add: conn_Query_keeps [OF surjective_pairing assms])
next
  case (CallTx op)
  have "quiet_op (on_conn (tx_exec (ve_ccsids E) op))" by (intro quiet_rules conn_op_tx)
  with CallTx show ?thesis using keeps_quiet [OF assms] by (simp add: quiet_op_def)
next
  case (CallPing ctx)
  have "quiet_op (on_conn (Ping (ve_ccsids E) ctx))" by (intro quiet_rules conn_op_Ping)
  with CallPing show ?thesis using keeps_quiet [OF assms] by (simp add: quiet_op_def)
next
  case CallClose
  have "conn_step (ss_conn s) (db_Close (ss_conn s))" by (simp add: conn_step_def db_Close_def db_usable_def)
  with CallClose show ?thesis using keeps_quiet [OF assms quiet_conn] by simp
qed

interpretation sessions: invariant_machine "session_exec G conv E" session_ok for G conv E
  by unfold_locales (rule keeps_ok [OF session_exec_keeps])

section \<open>Properties\<close>

text \<open>A session as \<^verbatim>\<open>Connect\<close> returns it, with empty heaps.\<close>

definition blank_stmt :: stmt where
  "blank_stmt = \<lparr>st_id = 0, st_query = [], st_stmtType = 0, st_columns = None, st_params = [],
     st_descriptorSent = False, st_rows = None, st_closed = True\<rparr>"

definition blank_rows :: rows where
  "blank_rows = \<lparr>rw_st = 0, rw_block = None, rw_next = 0, rw_eof = True, rw_cursorOpen = False,
     rw_closed = True, rw_closeStmt = False\<rparr>"

definition new_session :: "db_conn \<Rightarrow> db_session" where
  "new_session c = \<lparr>ss_conn = c, ss_stmts = (\<lambda>_. blank_stmt), ss_nstmts = 0,
     ss_rows = (\<lambda>_. blank_rows), ss_nrows = 0\<rparr>"

lemma session_ok_new: "fresh c \<Longrightarrow> session_ok (new_session c)"
  by (simp add: fresh_def session_ok_def handles_ok_def cursors_ok_def closed_ok_def open_stmts_def new_session_def)

text \<open>C1. Handles and cursors over the life of a session. Whatever calls a program makes, in any
  order and with any arguments, and whatever the server and the network do: the statement
  handles in use are exactly those of the statements not closed, each in one statement, all
  between 1 and 9999. Every \<^verbatim>\<open>Rows\<close> not closed is the one its statement knows, so a statement has
  at most one. And as long as the session is usable, a cursor that is still open at the
  server belongs to a \<^verbatim>\<open>Rows\<close> not closed of a statement not closed: none is forgotten.\<close>

theorem handles_and_cursors:
  assumes "fresh c" and s: "s = fold (session_exec G conv E) calls (new_session c)"
  shows "{k. dc_ids (ss_conn s) k} = id_of s ` open_stmts s \<and> inj_on (id_of s) (open_stmts s)
    \<and> id_of s ` open_stmts s \<subseteq> {1..9999}
    \<and> (\<forall>r < ss_nrows s. rw_closed (ss_rows s r) \<or> st_rows (ss_stmts s (rw_st (ss_rows s r))) = Some r)
    \<and> (\<forall>r < ss_nrows s. session_usable s \<and> rw_cursorOpen (ss_rows s r) \<longrightarrow>
         \<not> rw_closed (ss_rows s r) \<and> rw_st (ss_rows s r) \<in> open_stmts s)"
proof -
  have ok: "handles_ok s" "cursors_ok s" "closed_ok s"
    using sessions.run_inv [OF session_ok_new [OF assms(1)], of G conv E calls] by (simp_all add: s session_ok_def)
  have "rw_st (ss_rows s r) \<in> open_stmts s"
    if "r < ss_nrows s" "session_usable s" "\<not> rw_closed (ss_rows s r)" for r
  proof -
    have "rw_st (ss_rows s r) < ss_nstmts s" "st_rows (ss_stmts s (rw_st (ss_rows s r))) = Some r"
      using that(1,3) ok(2) by (simp_all add: cursors_ok_def)
    moreover from this have "\<not> st_closed (ss_stmts s (rw_st (ss_rows s r)))"
      using that(2) ok(3) by (auto simp: closed_ok_def)
    ultimately show ?thesis by (simp add: open_stmts_def)
  qed
  moreover have "rw_closed (ss_rows s r) \<or> st_rows (ss_stmts s (rw_st (ss_rows s r))) = Some r"
    "session_usable s \<Longrightarrow> rw_cursorOpen (ss_rows s r) \<Longrightarrow> \<not> rw_closed (ss_rows s r)" if "r < ss_nrows s" for r
    using that ok(2) by (auto simp: cursors_ok_def)
  moreover have "{k. dc_ids (ss_conn s) k} = id_of s ` open_stmts s" "inj_on (id_of s) (open_stmts s)"
    "id_of s ` open_stmts s \<subseteq> {1..9999}"
    using ok(1) by (simp_all add: handles_ok_def maxStatements_def)
  ultimately show ?thesis by blast
qed

text \<open>A run on a server that accepts a statement: prepare, run, close.\<close>

definition toy_env :: value_env where
  "toy_env = text_env\<lparr>ve_ccsids := [37 \<mapsto> byte_encoding, 13488 \<mapsto> byte_encoding]\<rparr>"

definition toy_calls :: "argument session_call list" where
  "toy_calls = [CallPrepare background ''COMMENT'', CallExec background 0 [], CallConnExec background ''SET X'' [],
     CallCloseStmt 0]"

lemma fresh_served_session: "fresh (served_session as)"
  by (simp add: served_session_def)

theorem handles_and_cursors_witness:
  "inj_on (id_of (fold (session_exec toy_crypto Some toy_env) toy_calls
       (new_session (served_session [accepting_reply, accepting_reply, accepting_reply]))))
     (open_stmts (fold (session_exec toy_crypto Some toy_env) toy_calls
       (new_session (served_session [accepting_reply, accepting_reply, accepting_reply]))))"
  using handles_and_cursors [OF fresh_served_session refl] by blast

end
