(* ===== verification/DbRows.thy ===== *)
theory DbRows
  imports DbSession
begin

text \<open>
  Reading rows: how often \<^verbatim>\<open>Next\<close> asks the server, and that the rows of a block are delivered,
  decoded, each once and in order.
\<close>

section \<open>Asking for more rows\<close>

lemma next_row_eq:
  "next_row T r s =
     (if has_row (ss_rows s r) then (Ok (), s)
      else if rw_eof (ss_rows s r) then (Err DbEOF, s)
      else (case fetch T r s of
              (Ok u, s1) \<Rightarrow> (if has_row (ss_rows s1 r) then Ok () else Err DbEOF, s1)
            | (Err e, s1) \<Rightarrow> (Err e, s1)
            | (Panic, s1) \<Rightarrow> (Panic, s1)))"
proof -
  have "next_row T r s1 = (if has_row (ss_rows s1 r) then Ok () else Err DbEOF, s1)"
    if "fetch T r s = (Ok u, s1)" for u s1
    using fetch_ready [OF that] by (subst next_row.simps) auto
  then show ?thesis
    by (subst next_row.simps) (auto split: prod.splits res.splits)
qed

lemma request_sent:
  assumes "db_request_ok T ctx op req c = (r, c')"
  shows "sent c c' [] \<or> sent c c' [dq_functionID req]"
  using assms by (cases rule: request_ok_cases) auto

lemma function_of_fetch [simp]: "dq_functionID (fetch_request st c) = fnFetch"
  by (simp add: fetch_request_def stmt_request_def db_request_for_def add_defs)

lemma fetch_sent:
  assumes "fetch T r s = (res, s')"
  shows "sent (ss_conn s) (ss_conn s') [] \<or> sent (ss_conn s) (ss_conn s') [fnFetch]"
proof -
  obtain w c where call: "db_request_ok T background ''fetch''
      (fetch_request (ss_stmts s (rw_st (ss_rows s r))) (ss_conn s)) (ss_conn s) = (w, c)" by fastforce
  then have "ss_conn s' = c"
    using assms by (auto simp: fetch_def bind_op.simps on_conn_def upd_rows_def split: res.splits)
  with request_sent [OF call] show ?thesis by simp
qed

lemma next_row_sent:
  assumes "next_row T r s = (res, s')"
  shows "sent (ss_conn s) (ss_conn s') [] \<or>
    \<not> has_row (ss_rows s r) \<and> \<not> rw_eof (ss_rows s r) \<and> sent (ss_conn s) (ss_conn s') [fnFetch]"
proof (cases "has_row (ss_rows s r) \<or> rw_eof (ss_rows s r)")
  case True
  then show ?thesis using assms by (auto simp: next_row_eq split: if_splits)
next
  case False
  obtain w s1 where f: "fetch T r s = (w, s1)" by fastforce
  then have "s' = s1" using assms False by (auto simp: next_row_eq split: res.splits)
  with fetch_sent [OF f] False show ?thesis by blast
qed

lemma Next_conn:
  assumes "Next E r (s, dest) = (res, (s', dest'))" "\<not> rw_closed (ss_rows s r)"
  shows "ss_conn s' = ss_conn (snd (next_row (ve_ccsids E) r s))"
  using assms
  by (cases "next_row (ve_ccsids E) r s") (auto simp: Next_def Let_def upd_rows_def split: res.splits prod.splits)

section \<open>A block of rows\<close>

text \<open>Result data that holds the given rows; \<open>None\<close> is SQL NULL.\<close>

definition block_holds :: "resultData \<Rightarrow> field list \<Rightarrow> bytes option list list \<Rightarrow> bool" where
  "block_holds rd cols vss \<longleftrightarrow> rd_rowCount rd = length vss \<and> rd_columnCount rd = length cols \<and>
     (\<forall>k < length vss. row_of rd k = (Ok (concat (map2 param_value cols (vss ! k))) :: (db_error, bytes) res)
        \<and> (\<forall>j < length cols. indicator rd k j = (Ok (if vss ! k ! j = None then - 1 else 0) :: (db_error, int) res)))"

text \<open>What a column's data is read as, and what a whole row is.\<close>

definition column_reads :: "value_env \<Rightarrow> location \<Rightarrow> field \<Rightarrow> bytes option \<Rightarrow> argument \<Rightarrow> bool" where
  "column_reads E loc f vb v \<longleftrightarrow>
     (case vb of None \<Rightarrow> v = None
      | Some b \<Rightarrow> length b = f_length f \<and> (\<exists>x. decodeValue E f b loc = Ok x \<and> v = Some x))"

definition row_reads :: "value_env \<Rightarrow> location \<Rightarrow> field list \<Rightarrow> bytes option list \<Rightarrow> argument list \<Rightarrow> bool" where
  "row_reads E loc cols vs vals \<longleftrightarrow> length vs = length cols \<and> length vals = length cols \<and>
     (\<forall>j < length cols. column_reads E loc (cols ! j) (vs ! j) (vals ! j))"

lemma length_param_value [simp]: "length (param_value f v) = f_length f"
  by (auto simp: param_value_def split: option.split)

lemma decode_columns_reads:
  assumes "length vs = length fs" "length vals = length fs"
    and "\<And>j. j < length fs \<Longrightarrow> indicator rd k (i + j) = (Ok (if vs ! j = None then - 1 else 0) :: (db_error, int) res)"
    and "\<And>j. j < length fs \<Longrightarrow> column_reads E loc (fs ! j) (vs ! j) (vals ! j)"
    and "drop off row = concat (map2 param_value fs vs)" "off \<le> length row" "i + length fs = length dest"
  shows "decode_columns E loc rd k row i off fs dest = (Ok (), take i dest @ vals)"
  using assms
proof (induction fs arbitrary: vs vals i off dest)
  case Nil
  then show ?case by simp
next
  case (Cons f fs)
  obtain v vs' where vs: "vs = v # vs'" "length vs' = length fs" using Cons.prems(1) by (cases vs) auto
  obtain x vals' where vals: "vals = x # vals'" "length vals' = length fs" using Cons.prems(2) by (cases vals) auto
  have d: "drop off row = param_value f v @ concat (map2 param_value fs vs')"
    using Cons.prems(5) by (simp add: vs)
  then have len: "off + f_length f \<le> length row"
    using Cons.prems(6) by (metis append_take_drop_id le_add1 length_append length_param_value length_drop le_diff_conv2 add.commute)
  have t: "take (f_length f) (drop off row) = param_value f v" by (simp add: d)
  have d': "drop (off + f_length f) row = concat (map2 param_value fs vs')"
    using d by (metis (no_types, lifting) add.commute append_eq_conv_conj drop_drop length_param_value)
  have ind: "indicator rd k i = (Ok (if v = None then - 1 else 0) :: (db_error, int) res)"
    using Cons.prems(3) [of 0] by (simp add: vs)
  have col: "column_reads E loc f v x" using Cons.prems(4) [of 0] by (simp add: vs vals)
  have IH: "decode_columns E loc rd k row (i + 1) (off + f_length f) fs (dest[i := x])
      = (Ok (), take (i + 1) (dest[i := x]) @ vals')"
  proof (rule Cons.IH [OF vs(2) vals(2)])
    show "indicator rd k (i + 1 + j) = (Ok (if vs' ! j = None then - 1 else 0) :: (db_error, int) res)"
      "column_reads E loc (fs ! j) (vs' ! j) (vals' ! j)" if "j < length fs" for j
      using Cons.prems(3,4) [of "Suc j"] that by (simp_all add: vs vals)
  qed (use d' len Cons.prems(7) in simp_all)
  have "take (i + 1) (dest[i := x]) = take i dest @ [x]"
    using Cons.prems(7) by (simp add: take_Suc_conv_app_nth)
  with IH have IH': "decode_columns E loc rd k row (Suc i) (off + f_length f) fs (dest[i := x])
      = (Ok (), take i dest @ vals)" by (simp add: vals)
  show ?case
  proof (cases v)
    case None
    with col have "x = None" by (simp add: column_reads_def)
    with IH' None ind len show ?thesis by simp
  next
    case (Some b)
    with col obtain y where y: "length b = f_length f" "decodeValue E f b loc = Ok y" "x = Some y"
      by (auto simp: column_reads_def)
    have "param_value f v = b" using Some y(1) by (simp add: param_value_def)
    with IH' Some ind len t y show ?thesis by simp
  qed
qed

lemma decode_row_reads:
  assumes "block_holds rd cols vss" "k < length vss" "row_reads E loc cols (vss ! k) vals" "length dest = length cols"
  shows "decode_row E loc cols rd k dest = (Ok (), vals)"
proof -
  have row: "row_of rd k = (Ok (concat (map2 param_value cols (vss ! k))) :: (db_error, bytes) res)"
    "rd_columnCount rd = length cols"
    using assms(1,2) by (simp_all add: block_holds_def)
  have "decode_columns E loc rd k (concat (map2 param_value cols (vss ! k))) 0 0 cols dest = (Ok (), take 0 dest @ vals)"
    by (rule decode_columns_reads [where vs = "vss ! k"])
      (use assms in \<open>simp_all add: row_reads_def block_holds_def\<close>)
  with row assms(4) show ?thesis by (simp add: decode_row_def)
qed

section \<open>Reading a whole block\<close>

text \<open>Calling \<^verbatim>\<open>Next\<close> so many times, and what each call delivered.\<close>

fun read_rows :: "value_env \<Rightarrow> nat \<Rightarrow> nat \<Rightarrow> db_session \<times> argument list \<Rightarrow> argument list list \<times> (db_session \<times> argument list)"
where
  "read_rows E r 0 sd = ([], sd)"
| "read_rows E r (Suc n) sd =
     (case Next E r sd of
        (Ok _, sd1) \<Rightarrow> apfst ((#) (snd sd1)) (read_rows E r n sd1)
      | (_, sd1) \<Rightarrow> ([], sd1))"

text \<open>Rows whose block holds \<open>vss\<close>, of which the first \<open>k\<close> have been read.\<close>

definition reading :: "db_session \<Rightarrow> nat \<Rightarrow> resultData \<Rightarrow> nat \<Rightarrow> bool" where
  "reading s r rd k \<longleftrightarrow> \<not> rw_closed (ss_rows s r) \<and> rw_block (ss_rows s r) = Some rd \<and> rw_next (ss_rows s r) = k"

definition rows_columns :: "db_session \<Rightarrow> nat \<Rightarrow> field list" where
  "rows_columns s r = columns_of (ss_stmts s (rw_st (ss_rows s r)))"

lemma Next_reads:
  assumes "reading s r rd k" "block_holds rd (rows_columns s r) vss" "k < length vss"
    and "row_reads E (conn_location (ss_conn s)) (rows_columns s r) (vss ! k) vals"
    and "length dest = length (rows_columns s r)"
  shows "Next E r (s, dest) = (Ok (), (upd_rows r (\<lambda>x. x\<lparr>rw_next := Suc (rw_next x)\<rparr>) s, vals))"
proof -
  have h: "has_row (ss_rows s r)" using assms(1-3) by (simp add: has_row_def reading_def block_holds_def)
  note d = decode_row_reads [OF assms(2-5)]
  from h assms(1) d show ?thesis
    by (simp add: Next_def next_row_eq reading_def rows_columns_def Let_def)
qed

lemma reading_step:
  "reading s r rd k \<Longrightarrow> reading (upd_rows r (\<lambda>x. x\<lparr>rw_next := j\<rparr>) s) r rd j"
  "rows_columns (upd_rows r (\<lambda>x. x\<lparr>rw_next := j\<rparr>) s) r = rows_columns s r"
  "ss_conn (upd_rows r f s) = ss_conn s"
  "rw_eof (ss_rows (upd_rows r (\<lambda>x. x\<lparr>rw_next := j\<rparr>) s) r) = rw_eof (ss_rows s r)"
  by (simp_all add: reading_def rows_columns_def upd_rows_def)

lemma reading_here: "reading s r rd k \<Longrightarrow> upd_rows r (\<lambda>x. x\<lparr>rw_next := k\<rparr>) s = s"
  by (auto simp: reading_def upd_rows_def)

lemma read_rows_from:
  assumes "reading s r rd k" "block_holds rd (rows_columns s r) vss"
    and "list_all2 (row_reads E (conn_location (ss_conn s)) (rows_columns s r)) (drop k vss) valss"
    and "length dest = length (rows_columns s r)" "k \<le> length vss"
  shows "\<exists>dest'. length dest' = length dest \<and> read_rows E r (length valss) (s, dest)
    = (valss, (upd_rows r (\<lambda>x. x\<lparr>rw_next := length vss\<rparr>) s, dest'))"
  using assms
proof (induction valss arbitrary: s k dest)
  case Nil
  then have "k = length vss" by simp
  with reading_here [OF Nil.prems(1)] show ?case by simp
next
  case (Cons vals valss)
  then have k: "k < length vss" by (metis drop_all list_all2_Nil list.distinct(1) not_less)
  then have "drop k vss = vss ! k # drop (Suc k) vss" by (simp add: Cons_nth_drop_Suc)
  with Cons.prems(3) have vals: "row_reads E (conn_location (ss_conn s)) (rows_columns s r) (vss ! k) vals"
    and rest: "list_all2 (row_reads E (conn_location (ss_conn s)) (rows_columns s r)) (drop (Suc k) vss) valss"
    by simp_all
  let ?s1 = "upd_rows r (\<lambda>x. x\<lparr>rw_next := Suc k\<rparr>) s"
  have "upd_rows r (\<lambda>x. x\<lparr>rw_next := Suc (rw_next x)\<rparr>) s = ?s1" using Cons.prems(1) by (simp add: reading_def upd_rows_def)
  with Next_reads [OF Cons.prems(1,2) k vals Cons.prems(4)]
  have nx: "Next E r (s, dest) = (Ok (), (?s1, vals))" by simp
  have "length vals = length (rows_columns s r)" using vals by (simp add: row_reads_def)
  with Cons.IH [OF reading_step(1) [OF Cons.prems(1)], of "Suc k" vals] Cons.prems(2) rest k
  obtain dest' where "length dest' = length vals" "read_rows E r (length valss) (?s1, vals)
      = (valss, (upd_rows r (\<lambda>x. x\<lparr>rw_next := length vss\<rparr>) ?s1, dest'))"
    by (auto simp: reading_step(2,3))
  moreover have "upd_rows r (\<lambda>x. x\<lparr>rw_next := length vss\<rparr>) ?s1 = upd_rows r (\<lambda>x. x\<lparr>rw_next := length vss\<rparr>) s"
    by (simp add: upd_rows_def)
  moreover have "length vals = length dest" using vals Cons.prems(4) by (simp add: row_reads_def)
  ultimately show ?case using nx by (intro exI [of _ dest']) simp
qed

section \<open>The result data a server sends\<close>

definition data_of_rows :: "field list \<Rightarrow> bytes option list list \<Rightarrow> bytes" where
  "data_of_rows fs vss =
     be32 1 @ be32 (of_nat (length vss)) @ be16 (of_nat (length fs)) @ be16 2 @ [0, 0, 0, 0]
     @ be32 (of_nat (recordSize fs))
     @ concat (map param_indicator (concat vss)) @ concat (map (\<lambda>vs. concat (map2 param_value fs vs)) vss)"

definition rows_block :: "field list \<Rightarrow> bytes option list list \<Rightarrow> resultData" where
  "rows_block fs vss = \<lparr>rd_raw = data_of_rows fs vss, rd_rowCount = length vss, rd_columnCount = length fs,
     rd_indicatorSize = 2, rd_rowSize = recordSize fs\<rparr>"

text \<open>A table that the counters of the header can describe.\<close>

definition table_fits :: "field list \<Rightarrow> bytes option list list \<Rightarrow> bool" where
  "table_fits fs vss \<longleftrightarrow> (\<forall>vs \<in> set vss. length vs = length fs) \<and> length fs < 2 ^ 16 \<and> length vss < 2 ^ 32
     \<and> recordSize fs < 2 ^ 32 \<and> 20 + length vss * (2 * length fs + recordSize fs) < 2 ^ 63"

lemma take_drop_concat:
  "(\<And>x. x \<in> set xs \<Longrightarrow> length x = n) \<Longrightarrow> k < length xs \<Longrightarrow> take n (drop (k * n) (concat xs)) = xs ! k"
proof (induction xs arbitrary: k)
  case (Cons x xs)
  then show ?case by (cases k) (simp_all add: add.commute)
qed simp

lemma length_concat_same: "(\<And>x. x \<in> set xs \<Longrightarrow> length x = n) \<Longrightarrow> length (concat xs) = length xs * n"
  by (induction xs) simp_all

lemma nth_concat_same:
  assumes "\<And>x. x \<in> set xs \<Longrightarrow> length x = n" "k < length xs" "j < n"
  shows "concat xs ! (k * n + j) = xs ! k ! j \<and> k * n + j < length (concat xs)"
proof -
  have "(k + 1) * n \<le> length xs * n" using assms(2) by (intro mult_right_mono) simp_all
  then have less: "k * n + j < length xs * n" using assms(3) by simp
  have l: "length (concat xs) = length xs * n" by (rule length_concat_same) (rule assms(1))
  have "k * n \<le> length (concat xs)" using less unfolding l by linarith
  from nth_drop [OF this, of j] assms(3) have "take n (drop (k * n) (concat xs)) ! j = concat xs ! (k * n + j)"
    by simp
  with take_drop_concat [OF assms(1,2)] less l show ?thesis by simp
qed

lemma rows_length:
  assumes "table_fits fs vss" "x \<in> set (map (\<lambda>vs. concat (map2 param_value fs vs)) vss)"
  shows "length x = recordSize fs"
  using assms by (auto simp: table_fits_def length_concat_map2)

lemma data_of_rows_split:
  assumes "table_fits fs vss"
  shows "length (data_of_rows fs vss) = 20 + length vss * (2 * length fs + recordSize fs)"
    and "drop (20 + k) (data_of_rows fs vss) = drop k (concat (map param_indicator (concat vss))
      @ concat (map (\<lambda>vs. concat (map2 param_value fs vs)) vss))"
    and "drop (20 + length vss * length fs * 2 + k) (data_of_rows fs vss)
      = drop k (concat (map (\<lambda>vs. concat (map2 param_value fs vs)) vss))"
proof -
  let ?i = "concat (map param_indicator (concat vss))"
  let ?r = "concat (map (\<lambda>vs. concat (map2 param_value fs vs)) vss)"
  obtain h where h: "length h = 20" "data_of_rows fs vss = h @ ?i @ ?r"
    by (rule that [of "be32 1 @ be32 (of_nat (length vss)) @ be16 (of_nat (length fs)) @ be16 2 @ [0, 0, 0, 0]
      @ be32 (of_nat (recordSize fs))"]) (simp_all add: data_of_rows_def)
  have "length (concat vss) = length vss * length fs"
    by (rule length_concat_same) (use assms in \<open>simp add: table_fits_def\<close>)
  then have li: "length ?i = length vss * length fs * 2"
    by (subst length_concat_same [where n = 2]) auto
  have lr: "length ?r = length vss * recordSize fs"
    using length_concat_same [of "map (\<lambda>vs. concat (map2 param_value fs vs)) vss" "recordSize fs"]
      rows_length [OF assms] by simp
  show "length (data_of_rows fs vss) = 20 + length vss * (2 * length fs + recordSize fs)"
    unfolding h(2) using h(1) li lr by (simp add: algebra_simps)
  show "drop (20 + k) (data_of_rows fs vss) = drop k (?i @ ?r)"
    unfolding h(2) using h(1) by (simp del: drop_append add: drop_append [of _ h])
  show "drop (20 + length vss * length fs * 2 + k) (data_of_rows fs vss) = drop k ?r"
    unfolding h(2) using h(1) li by simp
qed

lemma data_size_rows_block: "data_size (rows_block fs vss) = 20 + length vss * (2 * length fs + recordSize fs)"
  by (simp add: data_size_def rows_block_def dataHeaderLength_def)

lemma parse_data_of_rows:
  assumes "table_fits fs vss"
  shows "parseResultData (data_of_rows fs vss) = Ok (rows_block fs vss)"
proof -
  let ?d = "data_of_rows fs vss"
  have g: "get32 ?d 4 = (Ok (of_nat (length vss)) :: (format_error, _) res)"
    "get16 ?d 8 = (Ok (of_nat (length fs)) :: (format_error, _) res)"
    "get16 ?d 10 = (Ok 2 :: (format_error, _) res)"
    "get32 ?d 16 = (Ok (of_nat (recordSize fs)) :: (format_error, _) res)"
    unfolding data_of_rows_def by (simp_all add: wire_simps)
  have w: "unat (of_nat (length fs) :: 16 word) = length fs" "unat (of_nat (length vss) :: 32 word) = length vss"
    "unat (of_nat (recordSize fs) :: 32 word) = recordSize fs"
    using assms by (simp_all add: unat_of_nat16 unat_of_nat32 table_fits_def)
  have need: "sint (data_need (rows_block fs vss)) = int (length ?d)"
    using assms by (simp add: data_need_size sint_of_nat64 data_size_rows_block data_of_rows_split(1) table_fits_def
        del: of_nat_add of_nat_mult)
  have "\<not> length ?d < dataHeaderLength"
    by (simp add: data_of_rows_split(1) [OF assms] dataHeaderLength_def)
  then show ?thesis
    using need unfolding parseResultData_def rows_block_def by (simp add: g w Let_def)
qed

lemma block_holds_rows_block:
  assumes "table_fits fs vss"
  shows "block_holds (rows_block fs vss) fs vss"
proof -
  let ?rd = "rows_block fs vss"
  have sz: "data_size ?rd \<le> length (rd_raw ?rd)" "data_size ?rd < 2 ^ 63"
    using assms unfolding data_size_rows_block
    by (simp_all add: rows_block_def data_of_rows_split(1)) (simp add: table_fits_def)
  have row: "row_of ?rd k = (Ok (concat (map2 param_value fs (vss ! k))) :: (db_error, _) res)" if k: "k < length vss" for k
  proof -
    have "k < rd_rowCount ?rd" using k by (simp add: rows_block_def)
    note eq = conjunct1 [OF row_of_eq [OF sz this]]
    have "take (recordSize fs) (drop (20 + length vss * length fs * 2 + k * recordSize fs) (data_of_rows fs vss))
        = map (\<lambda>vs. concat (map2 param_value fs vs)) vss ! k"
      unfolding data_of_rows_split(3) [OF assms]
      by (rule take_drop_concat) (use rows_length [OF assms] k in simp_all)
    then show ?thesis unfolding eq using k by (simp add: rows_block_def dataHeaderLength_def)
  qed
  have ind: "indicator ?rd k j = (Ok (if vss ! k ! j = None then - 1 else 0) :: (db_error, _) res)" if k: "k < length vss" and j: "j < length fs" for k j
  proof -
    have "k < rd_rowCount ?rd" "j < rd_columnCount ?rd" "2 \<le> rd_indicatorSize ?rd" using k j by (simp_all add: rows_block_def)
    note eq = conjunct1 [OF indicator_eq [OF sz this]]
    have n: "concat vss ! (k * length fs + j) = vss ! k ! j" "k * length fs + j < length (concat vss)"
      using nth_concat_same [of vss "length fs" k j] k j assms by (simp_all add: table_fits_def)
    have t: "take 2 (drop (20 + 2 * (k * length fs + j)) (data_of_rows fs vss)) = param_indicator (vss ! k ! j)"
      unfolding data_of_rows_split(2) [OF assms] using indicators_nth [OF n(2)] by (simp add: n(1))
    have "indicator ?rd k j = bind_res (get16 (param_indicator (vss ! k ! j)) 0) (\<lambda>w. (Ok (sint w) :: (db_error, _) res))"
      unfolding eq using t by (simp add: rows_block_def dataHeaderLength_def)
    also have "\<dots> = Ok (if vss ! k ! j = None then - 1 else 0)"
      by (cases "vss ! k ! j") (simp_all add: param_indicator_def wire_simps)
    finally show ?thesis .
  qed
  show ?thesis
    unfolding block_holds_def using row ind by (simp add: rows_block_def)
qed

section \<open>Properties\<close>

text \<open>C8. \<^verbatim>\<open>Next\<close> always returns, and asks the server at most once: whatever the block holds and
  whatever the server answers, at most one frame is written, a fetch, and none when the rows
  are closed, have a row left in the block, or are known to have ended.\<close>

theorem Next_fetches_at_most_once:
  "\<exists>fns. sent (ss_conn s) (ss_conn (fst (snd (Next E r (s, dest))))) fns \<and> set fns \<subseteq> {fnFetch}
     \<and> length fns \<le> (if rw_closed (ss_rows s r) \<or> has_row (ss_rows s r) \<or> rw_eof (ss_rows s r) then 0 else 1)"
proof -
  obtain res s' d where nx: "Next E r (s, dest) = (res, (s', d))" by (metis surj_pair)
  show ?thesis
  proof (cases "rw_closed (ss_rows s r)")
    case True
    then have "s' = s" using nx by (simp add: Next_def)
    then show ?thesis by (intro exI [of _ "[]"]) (simp add: nx)
  next
    case False
    obtain w s1 where n: "next_row (ve_ccsids E) r s = (w, s1)" by fastforce
    have c: "ss_conn s' = ss_conn s1" using Next_conn [OF nx False] by (simp add: n)
    from next_row_sent [OF n] show ?thesis
    proof
      assume "sent (ss_conn s) (ss_conn s1) []"
      then show ?thesis by (intro exI [of _ "[]"]) (simp add: nx c)
    next
      assume "\<not> has_row (ss_rows s r) \<and> \<not> rw_eof (ss_rows s r) \<and> sent (ss_conn s) (ss_conn s1) [fnFetch]"
      with False show ?thesis by (intro exI [of _ "[fnFetch]"]) (simp add: nx c)
    qed
  qed
qed

text \<open>For the examples: rows of an INTEGER column, the second NULL, of which none has been read.\<close>

definition int_column :: field where
  "int_column = \<lparr>f_sqlType = 497, f_length = 4, f_scale = 0, f_precision = 9, f_ccsid = 0, f_name = []\<rparr>"

definition reading_session :: db_session where
  "reading_session = (new_session (new_conn plain_options (dialed 0 [])))\<lparr>
     ss_stmts := (\<lambda>_. blank_stmt\<lparr>st_columns := Some [int_column]\<rparr>), ss_nstmts := 1,
     ss_rows := (\<lambda>_. blank_rows\<lparr>rw_closed := False, rw_block := Some (rows_block [int_column] [[Some (be32 258)], [None]])\<rparr>),
     ss_nrows := 1\<rparr>"

end
