(* ===== verification/DbTypes.thy ===== *)
theory DbTypes
  imports DbRows
begin

text \<open>
  The types of the values a row delivers: every column that is not NULL gets a Go value of the one
  type its SQL type stands for, integers within the width of the field, decimals as text that
  denotes a number with the scale of the column and with as many digits as it has.
\<close>

section \<open>Typing\<close>

definition int_width :: "nat \<Rightarrow> int \<Rightarrow> bool" where
  "int_width n v \<longleftrightarrow> - (2 ^ (8 * n - 1)) \<le> v \<and> v < 2 ^ (8 * n - 1)"

definition decimal_with :: "nat \<Rightarrow> nat \<Rightarrow> string \<Rightarrow> bool" where
  "decimal_with digits scale s \<longleftrightarrow> (\<exists>n. decimal_of s = Some (n, scale) \<and> \<bar>n\<bar> < 10 ^ digits)"

fun is_text :: "go_value \<Rightarrow> bool" where "is_text (VString s) = True" | "is_text v = False"
fun is_bytes :: "go_value \<Rightarrow> bool" where "is_bytes (VBytes b) = True" | "is_bytes v = False"
fun is_time :: "go_value \<Rightarrow> bool" where "is_time (VTime t) = True" | "is_time v = False"
fun is_float :: "go_value \<Rightarrow> bool" where "is_float (VFloat x) = True" | "is_float v = False"

fun text_that :: "(string \<Rightarrow> bool) \<Rightarrow> go_value \<Rightarrow> bool" where
  "text_that P (VString s) = P s"
| "text_that P v = False"

fun int_that :: "(int \<Rightarrow> bool) \<Rightarrow> go_value \<Rightarrow> bool" where
  "int_that P (VInt n) = P n"
| "int_that P v = False"

text \<open>An odd number of digits is stored in packed form, so there may be one more than the precision.\<close>

definition has_type :: "field \<Rightarrow> go_value \<Rightarrow> bool" where
  "has_type f v =
     (let t = baseType f; binary = (f_ccsid f = ccsidBinary) in
      if t \<in> {typeChar, typeGraphic, typeVarchar, typeLongVarchar, typeDatalink, typeVargraphic, typeLongVargraph,
              typeCLOB, typeDBCLOB}
      then (if binary then is_bytes v else is_text v)
      else if t \<in> {typeRowID, typeVarbinary, typeBinary, typeBLOB} then is_bytes v
      else if t \<in> {typeSmallint, typeInteger, typeBigint} then
        (if f_scale f = 0 then int_that (int_width (f_length f)) v
         else text_that (\<lambda>s. \<exists>n. decimal_of s = Some (n, f_scale f) \<and> int_width (f_length f) n) v)
      else if t = typeFloat then is_float v
      else if t = typePacked then text_that (decimal_with (2 * (f_precision f div 2) + 1) (f_scale f)) v
      else if t = typeZoned then text_that (decimal_with (f_precision f) (f_scale f)) v
      else if t = typeTime then is_text v
      else if t = typeDate \<or> t = typeTimestamp then is_time v
      else False)"

section \<open>Lemmas\<close>

lemma sint_width:
  fixes w :: "'a :: len word"
  shows "- (2 ^ (LENGTH('a) - 1)) \<le> sint w \<and> sint w < 2 ^ (LENGTH('a) - 1)"
  using sint_ge [of w] sint_lt [of w] by simp

lemma decode_integer_width: "decode_integer f b = Ok v \<Longrightarrow> int_width (f_length f) v"
proof -
  assume d: "decode_integer f b = Ok v"
  then have "length b = f_length f" "length b \<in> {2, 4, 8}" by (auto simp: decode_integer_def split: if_splits)
  then show ?thesis
    using d sint_width [where 'a = 16] sint_width [where 'a = 32] sint_width [where 'a = 64]
    by (auto simp: decode_integer_def int_width_def bind_res_Ok_iff split: if_splits)
qed

lemma decimal_of_FormatInt_scaled:
  "decimal_of (scaleDigits (FormatInt v) k) = Some (v, k)"
proof -
  have neg: "scaleDigits (CHR ''-'' # dec_digits n) k = CHR ''-'' # scaleDigits (dec_digits n) k" for n
    by (rule scaleDigits_parts [OF dec_digits_digits, of n k])
  show ?thesis
    using decimal_of_scaleDigits [OF dec_digits_digits, of "nat v" k] decimal_of_scaleDigits [OF dec_digits_digits, of "nat (- v)" k]
    by (cases "v < 0") (simp_all add: FormatInt_def neg)
qed

lemma packed_digits_digits: "packed_digits b = Ok ds \<Longrightarrow> list_all is_digit ds \<and> length ds = 2 * length b - 1"
proof (induction b arbitrary: ds rule: packed_digits.induct)
  case (2 c cs)
  show ?case
  proof (cases "cs = []")
    case True
    then show ?thesis using 2(2) by (auto simp: Let_def split: if_splits)
  next
    case False
    then obtain rest where "packed_digits cs = Ok rest" "unat (drop_bit 4 c) \<le> 9" "unat (c AND 0x0F) \<le> 9"
      "ds = digit_char (unat (drop_bit 4 c)) # digit_char (unat (c AND 0x0F)) # rest"
      using 2(2) by (cases "packed_digits cs") (auto simp: Let_def split: if_splits)
    with 2(1) False show ?thesis by (cases cs) (auto simp: Let_def)
  qed
qed simp

lemma zoned_digits_digits: "zoned_digits b = Ok ds \<Longrightarrow> list_all is_digit ds \<and> length ds = length b"
proof (induction b arbitrary: ds rule: zoned_digits.induct)
  case (2 c cs)
  then show ?case by (cases "zoned_digits cs") (auto simp: Let_def split: if_splits)
qed simp

lemma formatDecimal_with:
  assumes "list_all is_digit ds"
  shows "decimal_with (length ds) scale (formatDecimal ds scale neg)"
proof -
  have "int (digits_val ds) < 10 ^ length ds" using digits_val_less [OF assms]
    by (metis of_nat_less_iff of_nat_numeral of_nat_power)
  then show ?thesis by (simp add: decimal_with_def decimal_of_formatDecimal [OF assms])
qed

lemma decodePacked_with:
  assumes "decodePacked b p sc = Ok s"
  shows "decimal_with (2 * (p div 2) + 1) sc s"
proof -
  obtain ds neg where ds: "packed_digits b = Ok ds" "s = formatDecimal ds sc neg" "length b = p div 2 + 1"
    using assms by (auto simp: decodePacked_def bind_res_Ok_iff Let_def split: if_splits)
  with packed_digits_digits [OF ds(1)] formatDecimal_with [of ds sc neg] show ?thesis by simp
qed

lemma decodeZoned_with:
  assumes "decodeZoned b p sc = Ok s"
  shows "decimal_with p sc s"
proof -
  obtain ds neg where ds: "zoned_digits b = Ok ds" "s = formatDecimal ds sc neg" "length b = p"
    using assms by (auto simp: decodeZoned_def bind_res_Ok_iff Let_def split: if_splits)
  with zoned_digits_digits [OF ds(1)] formatDecimal_with [of ds sc neg] show ?thesis by simp
qed

lemma fmap_res_Ok_iff: "fmap_res f m = Ok y \<longleftrightarrow> (\<exists>x. m = Ok x \<and> y = f x)"
  by (cases m) auto

lemma decode_time_typed:
  "decode_time E f b loc = Ok v \<Longrightarrow>
     if baseType f = typeDate \<or> baseType f = typeTimestamp then is_time v else is_text v"
  by (auto simp: decode_time_def bind_res_Ok_iff Let_def split: if_splits option.splits)

lemma decodeValue_typed: "decodeValue E f b loc = Ok v \<Longrightarrow> has_type f v"
proof -
  assume d: "decodeValue E f b loc = Ok v"
  note defs = decodeValue_def has_type_def type_defs fmap_res_Ok_iff bind_res_Ok_iff
  consider (chars) "baseType f \<in> {typeChar, typeGraphic, typeVarchar, typeLongVarchar, typeDatalink, typeVargraphic,
        typeLongVargraph, typeCLOB, typeDBCLOB}"
    | (bytes) "baseType f \<in> {typeRowID, typeVarbinary, typeBinary, typeBLOB}"
    | (ints) "baseType f \<in> {typeSmallint, typeInteger, typeBigint}"
    | (float) "baseType f = typeFloat" | (packed) "baseType f = typePacked" | (zoned) "baseType f = typeZoned"
    | (time) "baseType f \<in> {typeTime, typeDate, typeTimestamp}"
    using d by (auto simp: decodeValue_def Let_def split: if_splits)
  then show ?thesis
  proof cases
    case chars
    then show ?thesis using d by (elim insertE emptyE) (auto simp: defs split: if_splits)
  next
    case bytes
    then show ?thesis using d by (elim insertE emptyE) (auto simp: defs split: if_splits)
  next
    case ints
    then obtain n where n: "decode_integer f b = Ok n"
        "v = (if f_scale f > 0 then VString (scaleDigits (FormatInt n) (f_scale f)) else VInt n)"
      using d by (elim insertE emptyE) (auto simp: defs split: if_splits)
    with ints decode_integer_width [OF n(1)] show ?thesis
      by (elim insertE emptyE) (auto simp: has_type_def type_defs decimal_of_FormatInt_scaled)
  next
    case float
    then show ?thesis using d by (auto simp: defs)
  next
    case packed
    then show ?thesis using d decodePacked_with by (auto simp: defs)
  next
    case zoned
    then show ?thesis using d decodeZoned_with by (auto simp: defs)
  next
    case time
    then have "decode_time E f b loc = Ok v" using d by (elim insertE emptyE) (auto simp: defs)
    from decode_time_typed [OF this] time show ?thesis
      by (elim insertE emptyE) (auto simp: has_type_def type_defs)
  qed
qed

section \<open>Rows\<close>

text \<open>A destination is \<^verbatim>\<open>nil\<close> exactly when the indicator of the column says NULL.\<close>

definition cell_typed :: "resultData \<Rightarrow> nat \<Rightarrow> nat \<Rightarrow> field \<Rightarrow> argument \<Rightarrow> bool" where
  "cell_typed rd k j f a \<longleftrightarrow>
     (case a of
        None \<Rightarrow> indicator rd k j = (Ok (- 1) :: (db_error, int) res)
      | Some v \<Rightarrow> has_type f v \<and> (\<exists>n \<ge> 0. indicator rd k j = (Ok n :: (db_error, int) res)))"

lemma decode_columns_typed:
  assumes "decode_columns E loc rd k row i off fs dest = (Ok (), d)" "i + length fs = length dest"
  shows "length d = length dest \<and> take i d = take i dest
    \<and> (\<forall>j < length fs. cell_typed rd k (i + j) (fs ! j) (d ! (i + j)))"
  using assms
proof (induction fs arbitrary: i off dest)
  case (Cons f fs)
  obtain a where step: "decode_columns E loc rd k row (i + 1) (off + f_length f) fs (dest[i := a]) = (Ok (), d)"
    and a: "cell_typed rd k i f a"
    using Cons.prems(1)
    by (auto simp: cell_typed_def split: if_splits res.splits dest: decodeValue_typed)
  have d: "length d = length dest" "take (i + 1) d = take (i + 1) (dest[i := a])"
    "\<forall>j < length fs. cell_typed rd k (i + 1 + j) (fs ! j) (d ! (i + 1 + j))"
    using Cons.IH [OF step] Cons.prems(2) by simp_all
  have i: "i < length dest" using Cons.prems(2) by simp
  have "d ! i = a" "take i d = take i dest"
    using arg_cong [OF d(2), of "\<lambda>xs. xs ! i"] arg_cong [OF d(2), of "take i"] i d(1) by simp_all
  moreover have "cell_typed rd k (i + j) ((f # fs) ! j) (d ! (i + j))" if "j < length (f # fs)" for j
    using d(3) a \<open>d ! i = a\<close> that by (cases j) simp_all
  ultimately show ?case using d(1) by simp
qed simp

lemma next_row_block:
  assumes "next_row T r s = (Ok u, s1)"
  shows "has_row (ss_rows s1 r) \<and> rows_columns s1 r = rows_columns s r"
proof -
  have "rows_columns s1 r = rows_columns s r" if f: "fetch T r s = (Ok u, s1)" for u s1
  proof -
    define m where "m = db_request_ok T background ''fetch'' (fetch_request (ss_stmts s (rw_st (ss_rows s r))) (ss_conn s))"
    obtain rep s0 where "on_conn m s = (Ok rep, s0)" "s1 = upd_rows r (absorb_block rep) s0"
      using f by (auto simp: fetch_def bind_op_Ok_iff m_def)
    moreover from this(1) have "s0 = s\<lparr>ss_conn := snd (m (ss_conn s))\<rparr>" by (cases "m (ss_conn s)") (auto simp: on_conn_def)
    ultimately show ?thesis by (simp add: rows_columns_def upd_rows_def absorb_block_def absorbEnd_def Let_def)
  qed
  with assms show ?thesis by (auto simp: next_row_eq split: if_splits prod.splits res.splits)
qed

section \<open>Properties\<close>

text \<open>C7. The types of a row. When \<^verbatim>\<open>Next\<close> succeeds, the destination has one entry per column. It is
  \<^verbatim>\<open>nil\<close> exactly where the row's indicator says NULL, and otherwise a value of the one Go type the
  column's SQL type stands for: an integer within the width of the field, text that denotes a
  number with exactly the scale of the column for decimals and scaled integers, never a float,
  a time for dates and timestamps, bytes for binary columns, and text for the others.\<close>

theorem Next_delivers_typed_row:
  assumes "Next E r (s, dest) = (Ok (), (s', dest'))"
  shows "\<exists>rd k. rw_block (ss_rows s' r) = Some rd \<and> rw_next (ss_rows s' r) = Suc k \<and> k < rd_rowCount rd
    \<and> length dest' = length (rows_columns s r)
    \<and> (\<forall>j < length (rows_columns s r). cell_typed rd k j (rows_columns s r ! j) (dest' ! j))"
proof -
  obtain s1 where n: "next_row (ve_ccsids E) r s = (Ok (), s1)"
    and row: "decode_row E (conn_location (ss_conn s1)) (rows_columns s1 r) (the (rw_block (ss_rows s1 r)))
        (rw_next (ss_rows s1 r)) dest = (Ok (), dest')"
    and s': "s' = upd_rows r (\<lambda>x. x\<lparr>rw_next := rw_next x + 1\<rparr>) s1"
    using assms
    by (auto simp: Next_def Let_def rows_columns_def split: if_splits prod.splits res.splits)
  note b = next_row_block [OF n]
  then obtain rd where rd: "rw_block (ss_rows s1 r) = Some rd" "rw_next (ss_rows s1 r) < rd_rowCount rd"
    by (auto simp: has_row_def split: option.splits)
  have cols: "rows_columns s1 r = rows_columns s r" using b by simp
  obtain bytes where "length dest = length (rows_columns s r)"
      "decode_columns E (conn_location (ss_conn s1)) rd (rw_next (ss_rows s1 r)) bytes 0 0 (rows_columns s r) dest = (Ok (), dest')"
    using row by (auto simp: decode_row_def rd cols split: if_splits res.splits)
  from decode_columns_typed [OF this(2)] this(1) show ?thesis
    by (intro exI [of _ rd] exI [of _ "rw_next (ss_rows s1 r)"]) (use rd s' in \<open>simp add: upd_rows_def\<close>)
qed

theorem Next_delivers_typed_row_witness:
  "\<exists>s' dest'. Next toy_env 0 (reading_session, [None]) = (Ok (), (s', dest')) \<and> length dest' = length [int_column]"
proof -
  let ?vss = "[[Some (be32 258)], [None]]"
  have fits: "table_fits [int_column] ?vss" by (simp add: table_fits_def recordSize_def int_column_def)
  have dec: "decodeValue toy_env int_column (be32 258) UTC = Ok (VInt 258)"
    by (simp add: decodeValue_def int_column_def baseType_def type_defs decode_integer_def wire_simps)
  have start: "reading reading_session 0 (rows_block [int_column] ?vss) 0" "rows_columns reading_session 0 = [int_column]"
    "conn_location (ss_conn reading_session) = UTC"
    by (simp_all add: reading_def reading_session_def rows_columns_def columns_of_def blank_rows_def new_session_def
        new_conn_def conn_location_def plain_options_def)
  have "row_reads toy_env UTC [int_column] (?vss ! 0) [Some (VInt 258)]"
    using dec by (simp add: row_reads_def column_reads_def int_column_def)
  then obtain s' where n: "Next toy_env 0 (reading_session, [None]) = (Ok (), (s', [Some (VInt 258)]))"
    using Next_reads [OF start(1), of ?vss toy_env "[Some (VInt 258)]" "[None]"] block_holds_rows_block [OF fits] start
    by auto
  from Next_delivers_typed_row [OF n] have "length [Some (VInt 258)] = length [int_column]" using start(2) by metis
  with n show ?thesis by blast
qed

end
