(* ===== verification/DbTrace.thy ===== *)
theory DbTrace
  imports DbRows
begin

text \<open>
  Which errors a session reports, and which requests the operations of a statement make: an
  operation that starts on a usable session never answers that the connection was broken
  before, and a statement that is run once leaves the server as it was.
\<close>

section \<open>Errors that say the connection was broken before\<close>

text \<open>The errors that \<^verbatim>\<open>badConn\<close> lets \<^verbatim>\<open>database/sql\<close> retry.\<close>

definition retryable :: "db_error \<Rightarrow> bool" where
  "retryable e \<longleftrightarrow> is_conn_broken e \<or> e = ErrBadConn"

definition healthy :: "('s \<Rightarrow> bool) \<Rightarrow> ('s, db_error, 'a) op \<Rightarrow> bool" where
  "healthy usable m \<longleftrightarrow> (\<forall>s r s'. usable s \<longrightarrow> m s = (r, s') \<longrightarrow>
     (case r of Ok _ \<Rightarrow> usable s' | Err e \<Rightarrow> \<not> retryable e | Panic \<Rightarrow> True))"

named_theorems healthy_rules \<open>operations that never report an old failure of the connection\<close>

lemma healthyI:
  "(\<And>s x s'. usable s \<Longrightarrow> m s = (Ok x, s') \<Longrightarrow> usable s') \<Longrightarrow>
   (\<And>s e s'. usable s \<Longrightarrow> m s = (Err e, s') \<Longrightarrow> \<not> retryable e) \<Longrightarrow> healthy usable m"
  by (auto simp: healthy_def split: res.split)

lemma healthy_Ok: "healthy usable m \<Longrightarrow> usable s \<Longrightarrow> m s = (Ok x, s') \<Longrightarrow> usable s'"
  unfolding healthy_def by fastforce

lemma healthy_Err: "healthy usable m \<Longrightarrow> usable s \<Longrightarrow> m s = (Err e, s') \<Longrightarrow> \<not> retryable e"
  unfolding healthy_def by fastforce

lemma healthy_bind [healthy_rules]:
  assumes "\<And>x. healthy usable (m x)" "\<And>x y. healthy usable (f x y)"
  shows "healthy usable (\<lambda>s. bind_op (m s) (f s) s)"
proof (rule healthyI)
  fix s x s' assume "usable s" "bind_op (m s) (f s) s = (Ok x, s')"
  then show "usable s'"
    by (auto simp: bind_op_Ok_iff dest: healthy_Ok [OF assms(1)] intro: healthy_Ok [OF assms(2)])
next
  fix s e s' assume u: "usable s" and b: "bind_op (m s) (f s) s = (Err e, s')"
  from b show "\<not> retryable e"
    by (cases rule: bind_op_cases)
      (use u healthy_Err [OF assms(1)] healthy_Ok [OF assms(1)] healthy_Err [OF assms(2)] in \<open>blast+\<close>)
qed

lemma healthy_ret [healthy_rules]: "(\<And>e. r = Err e \<Longrightarrow> \<not> retryable e) \<Longrightarrow> healthy usable (ret_op r)"
  by (rule healthyI) auto

lemma healthy_fail [healthy_rules]: "(\<And>s. \<not> retryable (e s)) \<Longrightarrow> healthy usable (\<lambda>s. (Err (e s), s))"
  by (rule healthyI) auto

lemma healthy_Ok_pair [healthy_rules]: "(\<And>s. usable s \<Longrightarrow> usable (f s)) \<Longrightarrow> healthy usable (\<lambda>s. (Ok (r s), f s))"
  by (rule healthyI) auto

lemma healthy_if [healthy_rules]:
  "healthy usable m \<Longrightarrow> healthy usable n \<Longrightarrow> healthy usable (\<lambda>s. if b s then m s else n s)"
  unfolding healthy_def by simp

lemma healthy_let [healthy_rules]: "(\<And>x. healthy usable (m x)) \<Longrightarrow> healthy usable (\<lambda>s. let x = g s in m x s)"
  unfolding healthy_def by simp

abbreviation conn_usable :: "db_conn \<Rightarrow> bool" where
  "conn_usable c \<equiv> db_usable c = None"

lemma healthy_db_call [healthy_rules]: "healthy conn_usable (db_call T ctx q)"
  by (rule healthyI) (auto simp: db_call_def retryable_def db_usable_def split: prod.splits res.splits if_splits)

lemma healthy_db_send [healthy_rules]: "healthy conn_usable (db_send q)"
  by (rule healthyI) (auto simp: db_send_def retryable_def db_usable_def split: prod.splits res.splits if_splits)

lemma healthy_db_request [healthy_rules]: "healthy conn_usable (db_request_ok T ctx op q)"
  unfolding db_request_ok_def
  by (intro healthy_rules) (auto simp: retryable_def split: if_splits)

lemma healthy_on_conn [healthy_rules]:
  "(\<And>x. healthy conn_usable (m x)) \<Longrightarrow> healthy session_usable (\<lambda>s. on_conn (m s) s)"
  unfolding healthy_def on_conn_def session_usable_def
  by (auto split: prod.splits)

lemma usable_updates [simp]:
  "session_usable (upd_stmt i f s) = session_usable s" "session_usable (upd_rows r g s) = session_usable s"
  "session_usable (detach r s) = session_usable s"
  by (simp_all add: session_usable_def upd_stmt_def upd_rows_def detach_def)

lemma healthy_rows_close [healthy_rules]: "healthy session_usable (rows_close r reuse)"
proof (rule healthyI)
  have h: "healthy session_usable (on_conn (db_send q))" for q by (intro healthy_rules)
  { fix s x s' assume "session_usable s" "rows_close r reuse s = (Ok x, s')"
    then show "session_usable s'"
      by (auto simp: rows_close_eq split: if_splits dest!: healthy_Ok [OF h, rotated]) }
  { fix s e s' assume "session_usable s" "rows_close r reuse s = (Err e, s')"
    then show "\<not> retryable e"
      by (auto simp: rows_close_eq split: if_splits dest!: healthy_Err [OF h, rotated]) }
qed

lemma healthy_closeRows [healthy_rules]: "healthy session_usable (closeRows i reuse)"
proof (rule healthyI)
  { fix s x s' assume "session_usable s" "closeRows i reuse s = (Ok x, s')"
    then show "session_usable s'"
      by (auto simp: closeRows_def split: option.splits intro: healthy_Ok [OF healthy_rows_close]) }
  { fix s e s' assume "session_usable s" "closeRows i reuse s = (Err e, s')"
    then show "\<not> retryable e"
      by (auto simp: closeRows_def split: option.splits dest: healthy_Err [OF healthy_rows_close]) }
qed

lemma encode_args_error: "encode_args E loc n as = Err e \<Longrightarrow> \<not> retryable e"
proof (induction E loc n as rule: encode_args.induct)
  case (2 E loc n f as)
  then show ?case by (cases "encode_args E loc (Suc n) as") auto
next
  case (3 E loc n f v as)
  then show ?case
    by (cases "encodeValue E f v loc"; cases "encode_args E loc (Suc n) as") (auto simp: retryable_def)
qed simp

lemma healthy_bind_args [healthy_rules]: "healthy session_usable (bind_args E i args)"
  unfolding bind_args_def [abs_def]
  by (intro healthy_rules) (auto simp: retryable_def encode_args_error [unfolded retryable_def])

lemma healthy_describe [healthy_rules]: "healthy session_usable (describe_stmt T ctx i)"
proof -
  have e: "bind_res (wrap_err DbText a) (prepare_request v st) = Err e \<Longrightarrow> \<not> retryable e" for a v st e
    by (cases a) (auto simp: retryable_def prepare_request_def Let_def split: if_splits)
  show ?thesis
    unfolding describe_stmt_def [abs_def]
    by (intro healthy_rules) (auto dest: e)
qed

lemma healthy_or_release [healthy_rules]:
  "healthy session_usable m \<Longrightarrow> healthy session_usable (or_release T ctx i m)"
  unfolding healthy_def or_release_def
  by (auto split: prod.splits res.splits)

text \<open>The operations of the interface: on a session that is not usable they fail at once.\<close>

definition guarded :: "'a session_op \<Rightarrow> bool" where
  "guarded m \<longleftrightarrow> healthy session_usable m \<and>
     (\<forall>s. \<not> session_usable s \<longrightarrow> (\<exists>e. m s = (Err e, s)))"

lemma guarded_retryable:
  assumes "guarded m" "m s = (Err e, s')" "retryable e"
  shows "s' = s \<and> \<not> session_usable s"
proof (cases "session_usable s")
  case True
  with assms show ?thesis by (auto simp: guarded_def dest: healthy_Err)
next
  case False
  with assms show ?thesis by (auto simp: guarded_def)
qed

lemma guarded_Prepare: "guarded (Prepare G T ctx query)"
proof -
  let ?i = "\<lambda>s2. ss_nstmts s2"
  have alloc: "healthy session_usable (on_conn allocID)"
    by (intro healthy_rules healthyI) (auto simp: allocID_def retryable_def split: option.splits)
  have rpb: "healthy session_usable (bind_op (ret_op (wrap_err DbName (rpb_request k))) (\<lambda>rpb. on_conn (db_send rpb)))" for k
  proof -
    have "wrap_err DbName r = Err e \<Longrightarrow> \<not> retryable e" for r :: "(ebcdic_error, db_request) res" and e
      by (cases r) (auto simp: retryable_def)
    then show ?thesis by (intro healthy_rules) blast
  qed
  define tail where "tail = (\<lambda>k s1.
            (case bind_op (ret_op (wrap_err DbName (rpb_request k))) (\<lambda>rpb. on_conn (db_send rpb)) s1 of
               (Ok _, s2) \<Rightarrow>
                 let i = ss_nstmts s2;
                     s3 = s2\<lparr>ss_stmts := (ss_stmts s2)(i := new_stmt G k query), ss_nstmts := Suc i\<rparr>
                 in bind_op (or_release T ctx i (describe_stmt T ctx i)) (\<lambda>_. ret_op (Ok i)) s3
             | (Err e, s2) \<Rightarrow> (Err e, s2\<lparr>ss_conn := freeID k (ss_conn s2)\<rparr>)
             | (Panic, s2) \<Rightarrow> (Panic, s2)))"
  have last: "healthy session_usable (bind_op (or_release T ctx i (describe_stmt T ctx i)) (\<lambda>_. ret_op (Ok i)))" for i
    by (intro healthy_rules) simp
  have t: "healthy session_usable (tail k)" for k
  proof (rule healthyI)
    fix s :: db_session and x s' assume u: "session_usable s" and r: "tail k s = (Ok x, s')"
    then obtain v s2 where m: "bind_op (ret_op (wrap_err DbName (rpb_request k))) (\<lambda>rpb. on_conn (db_send rpb)) s = (Ok v, s2)"
      and b: "bind_op (or_release T ctx (ss_nstmts s2) (describe_stmt T ctx (ss_nstmts s2))) (\<lambda>_. ret_op (Ok (ss_nstmts s2)))
        (s2\<lparr>ss_stmts := (ss_stmts s2)(ss_nstmts s2 := new_stmt G k query), ss_nstmts := Suc (ss_nstmts s2)\<rparr>) = (Ok x, s')"
      by (auto simp: tail_def Let_def split: prod.splits res.splits)
    from healthy_Ok [OF rpb u m] show "session_usable s'"
      by (intro healthy_Ok [OF last _ b]) (simp add: session_usable_def)
  next
    fix s :: db_session and e s' assume u: "session_usable s" and r: "tail k s = (Err e, s')"
    from r consider s2 where "bind_op (ret_op (wrap_err DbName (rpb_request k))) (\<lambda>rpb. on_conn (db_send rpb)) s = (Err e, s2)"
      | v s2 where "bind_op (ret_op (wrap_err DbName (rpb_request k))) (\<lambda>rpb. on_conn (db_send rpb)) s = (Ok v, s2)"
        "bind_op (or_release T ctx (ss_nstmts s2) (describe_stmt T ctx (ss_nstmts s2))) (\<lambda>_. ret_op (Ok (ss_nstmts s2)))
        (s2\<lparr>ss_stmts := (ss_stmts s2)(ss_nstmts s2 := new_stmt G k query), ss_nstmts := Suc (ss_nstmts s2)\<rparr>) = (Err e, s')"
      by (auto simp: tail_def Let_def split: prod.splits res.splits)
    then show "\<not> retryable e"
    proof cases
      case 1
      then show ?thesis by (rule healthy_Err [OF rpb u])
    next
      case 2
      from healthy_Ok [OF rpb u 2(1)] show ?thesis
        by (intro healthy_Err [OF last _ 2(2)]) (simp add: session_usable_def)
    qed
  qed
  have "healthy session_usable (bind_op (on_conn allocID) tail)" by (intro healthy_rules alloc t)
  then show ?thesis
    unfolding guarded_def healthy_def
    by (auto simp: Prepare_def session_usable_def tail_def [symmetric])
qed

lemma guarded_stmt:
  assumes "healthy session_usable m" "\<not> retryable e0"
    and "\<And>s. f s = (case stmt_usable i s of Some e \<Rightarrow> (Err e, s) | None \<Rightarrow> if b s then (Err e0, s) else m s)"
  shows "guarded f"
  unfolding guarded_def
proof (intro conjI allI impI healthyI)
  fix s x s' assume "session_usable s" "f s = (Ok x, s')"
  then show "session_usable s'"
    using assms(1) by (auto simp: assms(3) split: option.splits if_splits dest: healthy_Ok)
next
  fix s e s' assume "session_usable s" "f s = (Err e, s')"
  then show "\<not> retryable e"
    using assms(1,2) by (auto simp: assms(3) stmt_usable_def session_usable_def retryable_def split: option.splits if_splits dest: healthy_Err)
next
  fix s :: db_session assume "\<not> session_usable s"
  then show "\<exists>e. f s = (Err e, s)"
    by (auto simp: assms(3) stmt_usable_def session_usable_def split: option.splits)
qed

lemma healthy_add_rows [healthy_rules]: "healthy session_usable (add_rows i x)"
  by (rule healthyI) (auto simp: add_rows_def Let_def session_usable_def upd_stmt_def)

lemma guarded_exec: "guarded (stmt_exec E ctx i args)"
  by (rule guarded_stmt [OF _ _ stmt_exec_def]) (intro healthy_rules, simp_all add: retryable_def)

lemma guarded_query: "guarded (queryValues E ctx i args)"
  by (rule guarded_stmt [OF _ _ queryValues_def]) (intro healthy_rules, simp_all add: retryable_def)

section \<open>The requests of a statement that runs well\<close>

text \<open>What an operation on statement \<open>i\<close> leaves alone, and the functions it requested.\<close>

definition traced :: "nat \<Rightarrow> db_session \<Rightarrow> 16 word list \<Rightarrow> db_session \<Rightarrow> bool" where
  "traced i s fns s' \<longleftrightarrow> sent (ss_conn s) (ss_conn s') fns \<and> session_usable s'
     \<and> dc_ids (ss_conn s') = dc_ids (ss_conn s) \<and> st_params (ss_stmts s' i) = st_params (ss_stmts s i)
     \<and> st_id (ss_stmts s' i) = st_id (ss_stmts s i) \<and> st_closed (ss_stmts s' i) = st_closed (ss_stmts s i)"

lemma traced_trans: "traced i s a s1 \<Longrightarrow> traced i s1 b s2 \<Longrightarrow> traced i s (a @ b) s2"
  by (auto simp: traced_def intro: sent_trans)

lemma traced_refl: "session_usable s \<Longrightarrow> traced i s [] s"
  by (simp add: traced_def)

definition descriptor_sent :: "db_session \<Rightarrow> nat \<Rightarrow> bool" where
  "descriptor_sent s i = st_descriptorSent (ss_stmts s i)"

definition has_cursor :: "db_session \<Rightarrow> nat \<Rightarrow> bool" where
  "has_cursor s i = (case st_rows (ss_stmts s i) of None \<Rightarrow> False | Some r \<Rightarrow> rw_cursorOpen (ss_rows s r))"

lemma db_send_Ok:
  assumes "db_send q c = (Ok u, c')"
  shows "conn_usable c \<and> conn_usable c' \<and> sent c c' [dq_functionID q] \<and> dc_ids c' = dc_ids c"
proof -
  have u: "conn_usable c" using assms by (auto simp: db_send_def split: option.splits)
  from dbsend.run_returned [OF u assms] have "conn_usable c'" "sent c c' [dq_functionID q]"
    by (auto simp: sent_def)
  with u conn_opD [OF conn_op_db_send assms] show ?thesis by (simp add: conn_step_def)
qed

lemma db_request_Ok:
  assumes "db_request_ok T ctx op q c = (Ok rep, c')"
  shows "conn_usable c \<and> conn_usable c' \<and> sent c c' [dq_functionID q] \<and> dc_ids c' = dc_ids c"
  using assms conn_opD [OF conn_op_request assms]
  by (cases rule: request_ok_cases) (auto simp: conn_step_def)

lemma on_send_traced:
  "on_conn (db_send q) s = (Ok u, s') \<Longrightarrow> traced i s [dq_functionID q] s' \<and> s' = s\<lparr>ss_conn := ss_conn s'\<rparr>"
  by (auto simp: on_conn_def traced_def session_usable_def split: prod.splits dest: db_send_Ok)

lemma on_request_traced:
  "on_conn (db_request_ok T ctx op q) s = (Ok rep, s') \<Longrightarrow>
   traced i s [dq_functionID q] s' \<and> s' = s\<lparr>ss_conn := ss_conn s'\<rparr>"
  by (auto simp: on_conn_def traced_def session_usable_def split: prod.splits dest: db_request_Ok)

lemma traced_same_heap:
  "traced i t fns s' \<Longrightarrow> ss_conn t = ss_conn s \<Longrightarrow> st_params (ss_stmts t i) = st_params (ss_stmts s i) \<Longrightarrow>
   st_id (ss_stmts t i) = st_id (ss_stmts s i) \<Longrightarrow> st_closed (ss_stmts t i) = st_closed (ss_stmts s i) \<Longrightarrow>
   traced i s fns s'"
  by (simp add: traced_def)

lemma functions_of_stmt [simp]:
  "dq_functionID (stmt_request fn st ors) = fn" "dq_functionID (descriptor_request fn st) = fn"
  "dq_functionID (addByte cp b q) = dq_functionID q" "dq_functionID (addShort cp w q) = dq_functionID q"
  "dq_functionID (addInt cp v q) = dq_functionID q" "dq_functionID (add_param cp d q) = dq_functionID q"
  "dq_functionID (addText cp k d q) = dq_functionID q" "dq_functionID (addLongText cp k d q) = dq_functionID q"
  "dq_functionID (addExecuteParams st d q) = dq_functionID q"
  by (simp_all add: stmt_request_def descriptor_request_def db_request_for_def add_defs addExecuteParams_def Let_def)

lemma detach_static:
  "st_params (ss_stmts (detach r s) i) = st_params (ss_stmts s i)"
  "st_descriptorSent (ss_stmts (detach r s) i) = st_descriptorSent (ss_stmts s i)"
  by (simp_all add: detach_def)

lemma closeRows_traced:
  assumes "closeRows i reuse s = (Ok u, s')" "session_usable s"
  shows "traced i s (if has_cursor s i then [fnClose] else []) s' \<and> descriptor_sent s' i = descriptor_sent s i"
proof (cases "st_rows (ss_stmts s i)")
  case None
  with assms show ?thesis by (simp add: closeRows_def has_cursor_def traced_refl)
next
  case (Some r)
  then have c: "rows_close r reuse s = (Ok u, s')" using assms(1) by (simp add: closeRows_def)
  show ?thesis
  proof (cases "rw_cursorOpen (ss_rows s r)")
    case True
    with c assms(2) have "on_conn (db_send (addByte 0x3810 reuse (stmt_request fnClose (ss_stmts s (rw_st (ss_rows s r))) 0)))
        (detach r s) = (Ok u, s')" by (simp add: rows_close_eq)
    from on_send_traced [OF this, of i] have t: "traced i (detach r s) [fnClose] s'"
      and e: "s' = (detach r s)\<lparr>ss_conn := ss_conn s'\<rparr>" by simp_all
    have "descriptor_sent s' i = descriptor_sent s i"
      by (subst e) (simp add: descriptor_sent_def detach_static)
    moreover have "traced i s [fnClose] s'"
      by (rule traced_same_heap [OF t]) (simp_all add: detach_stmts detach_static)
    ultimately show ?thesis using True Some by (simp add: has_cursor_def)
  next
    case False
    with c have "s' = detach r s" by (simp add: rows_close_eq)
    with False Some assms(2) show ?thesis
      by (simp add: traced_def has_cursor_def detach_stmts detach_static descriptor_sent_def)
  qed
qed

lemma upd_stmt_traced:
  "traced i s fns t \<Longrightarrow> (\<And>x. st_params (f x) = st_params x \<and> st_id (f x) = st_id x \<and> st_closed (f x) = st_closed x) \<Longrightarrow>
   traced i s fns (upd_stmt j f t)"
  by (auto simp: traced_def upd_stmt_def session_usable_def)

lemma bind_args_traced:
  assumes "bind_args E i args s = (Ok data, s')" "session_usable s"
  shows "traced i s (if st_params (ss_stmts s i) \<noteq> [] \<and> \<not> descriptor_sent s i then [fnChangeDescriptor] else []) s'
    \<and> (descriptor_sent s' i \<longleftrightarrow> descriptor_sent s i \<or> st_params (ss_stmts s i) \<noteq> [])
    \<and> st_rows (ss_stmts s' i) = st_rows (ss_stmts s i)"
proof (cases "st_params (ss_stmts s i) = [] \<or> descriptor_sent s i")
  case True
  then have "s' = s" using assms(1) by (auto simp: bind_args_def Let_def bind_op_Ok_iff descriptor_sent_def split: if_splits)
  with True assms(2) show ?thesis by (auto simp: traced_refl)
next
  case False
  then obtain s1 v where s1: "on_conn (db_send (add_param 0x381E (encodeParameterFormat (st_params (ss_stmts s i)))
          (descriptor_request fnChangeDescriptor (ss_stmts s i)))) s = (Ok v, s1)"
      "s' = upd_stmt i (\<lambda>x. x\<lparr>st_descriptorSent := True\<rparr>) s1"
    using assms(1) by (auto simp: bind_args_def Let_def bind_op_Ok_iff descriptor_sent_def split: if_splits)
  from on_send_traced [OF s1(1), of i] have t: "traced i s [fnChangeDescriptor] s1" and e: "s1 = s\<lparr>ss_conn := ss_conn s1\<rparr>"
    by simp_all
  have "traced i s [fnChangeDescriptor] s'" unfolding s1(2) by (rule upd_stmt_traced [OF t]) simp
  moreover have "st_rows (ss_stmts s' i) = st_rows (ss_stmts s i)" unfolding s1(2) by (subst e) (simp add: upd_stmt_def)
  ultimately show ?thesis using False by (simp add: s1(2) descriptor_sent_def upd_stmt_def)
qed

text \<open>Running a statement: close the cursor, describe the parameters the first time, execute.\<close>

definition exec_functions :: "db_session \<Rightarrow> nat \<Rightarrow> 16 word list" where
  "exec_functions s i =
     (if has_cursor s i then [fnClose] else [])
     @ (if st_params (ss_stmts s i) \<noteq> [] \<and> \<not> descriptor_sent s i then [fnChangeDescriptor] else [])"

lemma stmt_exec_traced:
  assumes "stmt_exec E ctx i args s = (Ok n, s')"
  shows "session_usable s \<and> traced i s (exec_functions s i @ [fnExecute]) s'
    \<and> (descriptor_sent s' i \<longleftrightarrow> descriptor_sent s i \<or> st_params (ss_stmts s i) \<noteq> [])
    \<and> (st_rows (ss_stmts s i) = None \<longrightarrow> st_rows (ss_stmts s' i) = None)"
proof -
  have u: "session_usable s"
    using assms by (auto simp: stmt_exec_def stmt_usable_def session_usable_def split: option.splits if_splits)
  obtain v s1 data s2 rep where s: "closeRows i reuseYes s = (Ok v, s1)" "bind_args E i args s1 = (Ok data, s2)"
      "on_conn (db_request_ok (ve_ccsids E) ctx ''execute'' (execute_request (ss_stmts s2 i) data)) s2 = (Ok rep, s')"
    using assms by (auto simp: stmt_exec_def bind_op_Ok_iff split: option.splits if_splits)
  have c: "traced i s (if has_cursor s i then [fnClose] else []) s1" "descriptor_sent s1 i = descriptor_sent s i"
    using closeRows_traced [OF s(1) u] by simp_all
  have u1: "session_usable s1" and p: "st_params (ss_stmts s1 i) = st_params (ss_stmts s i)"
    using c(1) by (simp_all add: traced_def)
  note b = bind_args_traced [OF s(2) u1]
  have e: "traced i s2 [fnExecute] s'" "s' = s2\<lparr>ss_conn := ss_conn s'\<rparr>"
    using on_request_traced [OF s(3), of i] by (simp_all add: execute_request_def)
  have "traced i s ((if has_cursor s i then [fnClose] else []) @ ((if st_params (ss_stmts s i) \<noteq> [] \<and> \<not> descriptor_sent s i
      then [fnChangeDescriptor] else []) @ [fnExecute])) s'"
    using traced_trans [OF c(1) traced_trans [OF conjunct1 [OF b] e(1)]] by (simp only: p c(2))
  moreover have "descriptor_sent s' i = descriptor_sent s2 i" "st_rows (ss_stmts s' i) = st_rows (ss_stmts s2 i)"
    by (subst e(2), simp add: descriptor_sent_def)+
  moreover have "st_rows (ss_stmts s i) = None \<longrightarrow> s1 = s" using s(1) by (auto simp: closeRows_def)
  ultimately show ?thesis using u b p c(2) by (auto simp: exec_functions_def)
qed

lemma joined_Ok [simp]: "joined [a, b] = Ok u \<longleftrightarrow> a = None \<and> b = None"
  by (auto simp: joined_def join_errors_def split: option.splits)

lemma error_of_None [simp]: "error_of r = None \<longleftrightarrow> (\<forall>e. r \<noteq> Err e)"
  by (cases r) auto

lemma delete_descriptor_traced:
  assumes "delete_descriptor i s = (Ok u, s')" "session_usable s"
  shows "traced i s (if descriptor_sent s i then [fnDeleteDescriptor] else []) s' \<and> s' = s\<lparr>ss_conn := ss_conn s'\<rparr>"
  using assms on_send_traced [of "descriptor_request fnDeleteDescriptor (ss_stmts s i)" s u s' i]
  by (auto simp: delete_descriptor_def descriptor_sent_def traced_refl split: if_splits)

lemma rows_close_no_panic: "rows_close r reuse s \<noteq> (Panic, s')"
  using dbsend.run_no_panic by (auto simp: rows_close_eq on_conn_def split: if_splits prod.splits) (metis fst_conv)

lemma closeRows_no_panic: "closeRows i reuse s \<noteq> (Panic, s')"
  by (auto simp: closeRows_def rows_close_no_panic split: option.splits)

lemma release_traced:
  assumes "release T ctx i s = (Ok u, s')" "session_usable s"
  shows "session_usable s' \<and> sent (ss_conn s) (ss_conn s')
      ((if has_cursor s i then [fnClose] else []) @ (if descriptor_sent s i then [fnDeleteDescriptor] else []) @ [fnDeleteRPB])
    \<and> dc_ids (ss_conn s') = (dc_ids (ss_conn s))(st_id (ss_stmts s i) := False)"
proof -
  define s0 where "s0 = upd_stmt i (\<lambda>x. x\<lparr>st_closed := True\<rparr>) s"
  have s0: "ss_conn s0 = ss_conn s" "has_cursor s0 i = has_cursor s i" "descriptor_sent s0 i = descriptor_sent s i"
    "st_id (ss_stmts s0 i) = st_id (ss_stmts s i)" "session_usable s0 = session_usable s"
    by (simp_all add: s0_def upd_stmt_def has_cursor_def descriptor_sent_def session_usable_def split: option.split)
  obtain t where t: "release_server T ctx i s0 = (Ok u, t)"
    and s': "s' = t\<lparr>ss_conn := freeID (st_id (ss_stmts t i)) (ss_conn t)\<rparr>"
    using assms by (auto simp: release_def Let_def s0_def [symmetric] s0(1) session_usable_def split: prod.splits if_splits)
  obtain r1 s1 where c: "closeRows i reuseNo s0 = (r1, s1)" by fastforce
  obtain r2 s2 where d: "delete_descriptor i s1 = (r2, s2)" by fastforce
  obtain r3 s3 where r: "delete_rpb T ctx i s2 = (r3, s3)" by fastforce
  have "r1 = Ok () \<and> r2 = Ok () \<and> t = s3 \<and> (\<exists>rep. r3 = Ok rep)"
    using t c closeRows_no_panic [of i reuseNo s0]
    unfolding release_server_def c prod.case d r by (cases r1; cases r2; cases r3) auto
  then obtain rep where oks: "r1 = Ok ()" "r2 = Ok ()" "t = s3" "r3 = Ok rep" by blast
  note tc = closeRows_traced [OF c[unfolded oks]]
  have u1: "session_usable s1" using tc assms(2) s0 by (simp add: traced_def)
  note td = delete_descriptor_traced [OF d[unfolded oks] u1]
  have tr: "traced i s2 [fnDeleteRPB] s3"
    using on_request_traced [OF r[unfolded oks delete_rpb_def], of i] by simp
  have "traced i s0 ((if has_cursor s0 i then [fnClose] else []) @ ((if descriptor_sent s1 i then [fnDeleteDescriptor] else [])
      @ [fnDeleteRPB])) s3"
    using tc td assms(2) s0 by (intro traced_trans [OF _ traced_trans [OF _ tr]]) auto
  moreover have "descriptor_sent s1 i = descriptor_sent s0 i" using tc assms(2) s0 by simp
  ultimately show ?thesis
    by (simp add: traced_def s' oks s0 session_usable_def sent_def db_written_def)
qed

lemma Prepare_traced:
  assumes "Prepare G T ctx query s = (Ok i, s')"
  shows "session_usable s \<and> session_usable s' \<and> i = ss_nstmts s
    \<and> sent (ss_conn s) (ss_conn s') [fnCreateRPB, fnPrepareDescribe]
    \<and> \<not> dc_ids (ss_conn s) (st_id (ss_stmts s' i))
    \<and> dc_ids (ss_conn s') = (dc_ids (ss_conn s))(st_id (ss_stmts s' i) := True)
    \<and> \<not> descriptor_sent s' i \<and> st_rows (ss_stmts s' i) = None \<and> \<not> st_closed (ss_stmts s' i)"
proof -
  have u: "db_usable (ss_conn s) = None"
    using assms by (auto simp: Prepare_def split: option.splits)
  obtain k s1 where k: "on_conn allocID s = (Ok k, s1)"
    and tail: "(case bind_op (ret_op (wrap_err DbName (rpb_request k))) (\<lambda>rpb. on_conn (db_send rpb)) s1 of
               (Ok _, s2) \<Rightarrow>
                 let i = ss_nstmts s2;
                     s3 = s2\<lparr>ss_stmts := (ss_stmts s2)(i := new_stmt G k query), ss_nstmts := Suc i\<rparr>
                 in bind_op (or_release T ctx i (describe_stmt T ctx i)) (\<lambda>_. ret_op (Ok i)) s3
             | (Err e, s2) \<Rightarrow> (Err e, s2\<lparr>ss_conn := freeID k (ss_conn s2)\<rparr>)
             | (Panic, s2) \<Rightarrow> (Panic, s2)) = (Ok i, s')"
    using assms unfolding Prepare_def u option.case bind_op_Ok_iff by blast
  obtain r2 s2 where r2: "bind_op (ret_op (wrap_err DbName (rpb_request k))) (\<lambda>rpb. on_conn (db_send rpb)) s1 = (r2, s2)"
    by fastforce
  with tail obtain v where "r2 = Ok v" by (cases r2) auto
  with r2 tail have rpb: "bind_op (ret_op (wrap_err DbName (rpb_request k))) (\<lambda>rpb. on_conn (db_send rpb)) s1 = (Ok v, s2)"
    and rest: "bind_op (or_release T ctx (ss_nstmts s2) (describe_stmt T ctx (ss_nstmts s2))) (\<lambda>_. ret_op (Ok (ss_nstmts s2)))
      (s2\<lparr>ss_stmts := (ss_stmts s2)(ss_nstmts s2 := new_stmt G k query), ss_nstmts := Suc (ss_nstmts s2)\<rparr>) = (Ok i, s')"
    by (simp_all add: Let_def)
  define s3 where "s3 = s2\<lparr>ss_stmts := (ss_stmts s2)(ss_nstmts s2 := new_stmt G k query), ss_nstmts := Suc (ss_nstmts s2)\<rparr>"
  from k have k': "\<not> dc_ids (ss_conn s) k" "s1 = s\<lparr>ss_conn := (ss_conn s)\<lparr>dc_ids := (dc_ids (ss_conn s))(k := True)\<rparr>\<rparr>"
    by (auto simp: on_conn_def split: prod.splits dest!: allocID_Ok)
  from rpb obtain req where req: "rpb_request k = Ok req" "on_conn (db_send req) s1 = (Ok v, s2)"
    by (auto simp: bind_op_Ok_iff)
  have fn: "dq_functionID req = fnCreateRPB"
    using req(1) by (auto simp: rpb_request_def addName_def bind_res_Ok_iff db_request_for_def)
  from on_send_traced [OF req(2), of i] fn have t1: "traced i s1 [fnCreateRPB] s2" and e1: "s2 = s1\<lparr>ss_conn := ss_conn s2\<rparr>"
    by simp_all
  have n: "ss_nstmts s2 = ss_nstmts s" by (subst e1) (simp add: k'(2))
  from rest have i: "i = ss_nstmts s2" and desc: "describe_stmt T ctx i s3 = (Ok (), s')"
    by (auto simp: bind_op_Ok_iff or_release_def s3_def [symmetric] split: prod.splits res.splits)
  obtain preq rep s4 where pr: "bind_res (wrap_err DbText (encodeString T clientCCSID (st_query (ss_stmts s3 i))))
         (prepare_request (dc_vrm (ss_conn s3)) (ss_stmts s3 i)) = Ok preq"
      "on_conn (db_request_ok T ctx ''prepare'' preq) s3 = (Ok rep, s4)" "s' = upd_stmt i (described rep) s4"
    using desc by (auto simp: describe_stmt_def bind_op_Ok_iff)
  have fp: "dq_functionID preq = fnPrepareDescribe"
    using pr(1) by (auto simp: bind_res_Ok_iff prepare_request_def Let_def split: if_splits)
  from on_request_traced [OF pr(2), of i] fp have t2: "traced i s3 [fnPrepareDescribe] s4" and e2: "s4 = s3\<lparr>ss_conn := ss_conn s4\<rparr>"
    by simp_all
  have st: "ss_stmts s4 i = new_stmt G k query" by (subst e2) (simp add: s3_def i)
  have st': "ss_stmts s4 (ss_nstmts s) = new_stmt G k query" using st by (simp add: i n)
  have "sent (ss_conn s) (ss_conn s2) [fnCreateRPB]" "dc_ids (ss_conn s2) = (dc_ids (ss_conn s))(k := True)"
    using t1 by (simp_all add: traced_def k'(2) sent_def db_written_def)
  moreover have "sent (ss_conn s2) (ss_conn s4) [fnPrepareDescribe]" "dc_ids (ss_conn s4) = dc_ids (ss_conn s2)" "session_usable s4"
    using t2 by (simp_all add: traced_def s3_def)
  ultimately show ?thesis
    using u k'(1) n i sent_trans [of "ss_conn s" "ss_conn s2" "[fnCreateRPB]" "ss_conn s4" "[fnPrepareDescribe]"]
    by (simp add: pr(3) upd_stmt_def st' session_usable_def descriptor_sent_def new_stmt_def)
qed

text \<open>All the requests of a statement prepared, run once and closed.\<close>

definition one_off_functions :: "bool \<Rightarrow> 16 word list" where
  "one_off_functions params =
     [fnCreateRPB, fnPrepareDescribe] @ (if params then [fnChangeDescriptor] else []) @ [fnExecute]
     @ (if params then [fnDeleteDescriptor] else []) @ [fnDeleteRPB]"

lemma conn_Exec_traced:
  assumes "conn_Exec G conv E ctx query as s = (Ok n, s')"
  shows "session_usable s' \<and> dc_ids (ss_conn s') = dc_ids (ss_conn s)
    \<and> (\<exists>params. sent (ss_conn s) (ss_conn s') (one_off_functions params))"
proof -
  obtain i s1 where p: "Prepare G (ve_ccsids E) ctx query s = (Ok i, s1)"
    and rest: "(case stmt_Exec conv E ctx i as s1 of
          (Panic, s2) \<Rightarrow> (Panic, s2)
        | (r1, s2) \<Rightarrow>
            (case stmt_Close (ve_ccsids E) i s2 of
               (Panic, s3) \<Rightarrow> (Panic, s3)
             | (r2, s3) \<Rightarrow> (bind_res (joined [error_of r1, error_of r2]) (\<lambda>_. r1), s3))) = (Ok n, s')"
    using assms unfolding conn_Exec_def bind_op_Ok_iff by blast
  obtain r1 s2 where e: "stmt_Exec conv E ctx i as s1 = (r1, s2)" by fastforce
  obtain r2 s3 where c: "stmt_Close (ve_ccsids E) i s2 = (r2, s3)" by fastforce
  have "r1 = Ok n \<and> r2 = Ok () \<and> s' = s3"
    using rest unfolding e prod.case c by (cases r1; cases r2) (auto simp: bind_res_Ok_iff)
  then have oks: "r1 = Ok n" "r2 = Ok ()" "s' = s3" by simp_all
  have tp: "session_usable s1" "sent (ss_conn s) (ss_conn s1) [fnCreateRPB, fnPrepareDescribe]"
    "\<not> dc_ids (ss_conn s) (st_id (ss_stmts s1 i))"
    "dc_ids (ss_conn s1) = (dc_ids (ss_conn s))(st_id (ss_stmts s1 i) := True)"
    "\<not> descriptor_sent s1 i" "st_rows (ss_stmts s1 i) = None" "\<not> st_closed (ss_stmts s1 i)"
    using Prepare_traced [OF p] by blast+
  obtain args where "stmt_exec E ctx i args s1 = (Ok n, s2)"
    using e oks by (auto simp: stmt_Exec_def bind_op_Ok_iff)
  from stmt_exec_traced [OF this] have te: "traced i s1 (exec_functions s1 i @ [fnExecute]) s2"
    "descriptor_sent s2 i \<longleftrightarrow> st_params (ss_stmts s1 i) \<noteq> []" "st_rows (ss_stmts s2 i) = None"
    using tp by auto
  have u2: "session_usable s2" "\<not> st_closed (ss_stmts s2 i)" "st_id (ss_stmts s2 i) = st_id (ss_stmts s1 i)"
    "dc_ids (ss_conn s2) = dc_ids (ss_conn s1)"
    using te(1) tp by (simp_all add: traced_def)
  have "release (ve_ccsids E) background i s2 = (Ok (), s3)" using c oks u2(2) by (simp add: stmt_Close_def)
  note tr = release_traced [OF this u2(1)]
  let ?p = "st_params (ss_stmts s1 i) \<noteq> []"
  have h: "\<not> has_cursor s1 i" "\<not> has_cursor s2 i" using tp te(3) by (simp_all add: has_cursor_def)
  have "sent (ss_conn s) (ss_conn s2) ([fnCreateRPB, fnPrepareDescribe] @ exec_functions s1 i @ [fnExecute])"
    using tp te(1) by (intro sent_trans [of "ss_conn s" "ss_conn s1"]) (simp_all add: traced_def)
  from sent_trans [OF this conjunct1 [OF conjunct2 [OF tr]]]
  have "sent (ss_conn s) (ss_conn s3) (one_off_functions ?p)"
    using h tp te(2) by (simp add: exec_functions_def one_off_functions_def split: if_splits)
  moreover have "dc_ids (ss_conn s3) = dc_ids (ss_conn s)"
    using tr tp u2(3,4) by (simp add: fun_upd_idem)
  ultimately show ?thesis using tr oks(3) by blast
qed

section \<open>A one-off statement on a server that accepts\<close>

lemma send_served:
  assumes "serving c (a # as)" "dq_ors q = 0"
  shows "\<exists>c'. db_send q c = (Ok (), c') \<and> serving c' as \<and> c' = c\<lparr>dc_conn := dc_conn c'\<rparr>"
proof -
  have "\<exists>k. Send (db_encode q) (dc_conn c) = (Ok (), k) \<and> idle k \<and> script k = map answering as"
    using assms(1) by (simp add: serving_def Send_def exchange_defs idle_def answering_def dead_event_def
        exchange_deadline_def write_blocked_def)
  with assms show ?thesis by (auto simp: serving_def db_send_def)
qed

lemma ok_served:
  assumes "serving c (a # as)" "frameable a" "parseReply T (reply_of a) = Ok rep" "\<not> failed rep"
  shows "\<exists>c'. db_request_ok T background op q c = (Ok rep, c') \<and> serving c' as"
  using db_call_served [OF assms(1-3), of q] assms(4)
  by (auto simp: db_request_ok_def bind_op.simps ret_op_def)

lemma simple_digits: "list_all simple_char (dec_digits n)"
proof (induction n rule: dec_digits.induct)
  case (1 n)
  have "\<forall>d \<in> set [0..<10]. simple_char (digit_char d)" by code_simp
  then have "simple_char (digit_char d)" if "d < 10" for d using that by auto
  with 1 show ?case by (subst dec_digits.simps) auto
qed

lemma rpb_request_total: "\<exists>req. rpb_request k = Ok req \<and> dq_ors req = 0"
proof -
  have "list_all simple_char ''STMT''" "list_all simple_char ''CRSR''" "simple_char CHR ''0''" by code_simp+
  then have "list_all simple_char (''STMT'' @ pad4 k)" "list_all simple_char (''CRSR'' @ pad4 k)"
    using simple_digits [of k] by (auto simp: pad4_def list_all_iff)
  then have "\<exists>b. EncodeEBCDIC (''STMT'' @ pad4 k) = Ok b" "\<exists>b. EncodeEBCDIC (''CRSR'' @ pad4 k) = Ok b"
    by (simp_all add: EncodeEBCDIC_Ok_iff del: EncodeEBCDIC.simps)
  then show ?thesis
    by (auto simp: rpb_request_def addName_def db_request_for_def add_defs simp del: EncodeEBCDIC.simps)
qed

lemma serving_ids [simp]: "serving (c\<lparr>dc_ids := f\<rparr>) as = serving c as"
  by (simp add: serving_def)

lemma allocID_first: "\<not> dc_ids c 1 \<Longrightarrow> allocID c = (Ok 1, c\<lparr>dc_ids := (dc_ids c)(1 := True)\<rparr>)"
proof -
  have "1 < maxStatements + 1" by (simp add: maxStatements_def)
  from upt_conv_Cons [OF this] show "\<not> dc_ids c 1 \<Longrightarrow> ?thesis" by (simp add: allocID_def del: upt.simps)
qed

text \<open>A reply the client reads as \<open>rep\<close> and that reports no failure.\<close>

definition answers :: "ccsid_table \<Rightarrow> request \<Rightarrow> db_reply \<Rightarrow> bool" where
  "answers T a rep \<longleftrightarrow> frameable a \<and> parseReply T (reply_of a) = Ok rep \<and> \<not> failed rep"

definition online :: "db_session \<Rightarrow> connection \<Rightarrow> db_session" where
  "online s k = s\<lparr>ss_conn := (ss_conn s)\<lparr>dc_conn := k\<rparr>\<rparr>"

lemma online_simps [simp]:
  "ss_stmts (online s k) = ss_stmts s" "ss_rows (online s k) = ss_rows s" "ss_nrows (online s k) = ss_nrows s"
  "ss_nstmts (online s k) = ss_nstmts s"
  "dc_opts (ss_conn (online s k)) = dc_opts (ss_conn s)" "dc_ids (ss_conn (online s k)) = dc_ids (ss_conn s)"
  "conn_location (ss_conn (online s k)) = conn_location (ss_conn s)"
  by (simp_all add: online_def conn_location_def)

lemma still_unbroken: "\<not> dc_broken c \<Longrightarrow> c\<lparr>dc_conn := k, dc_broken := False\<rparr> = c\<lparr>dc_conn := k\<rparr>"
  by (cases c) simp

lemma on_answered:
  assumes "serving (ss_conn s) (a # as)" "answers T a rep"
  shows "\<exists>k. on_conn (db_request_ok T background op q) s = (Ok rep, online s k) \<and> serving (ss_conn (online s k)) as
    \<and> sent (ss_conn s) (ss_conn (online s k)) [dq_functionID q]"
proof -
  obtain c' where c': "db_request_ok T background op q (ss_conn s) = (Ok rep, c')" "serving c' as"
    using ok_served [OF assms(1)] assms(2) unfolding answers_def by blast
  from c'(1) have "db_call T background q (ss_conn s) = (Ok rep, c')"
    by (auto simp: db_request_ok_def bind_op_Ok_iff ret_op_def split: if_splits)
  from db_call_same [OF this] assms(1)
  have "c' = (ss_conn s)\<lparr>dc_conn := dc_conn c', dc_broken := False\<rparr>" "\<not> dc_broken (ss_conn s)"
    by (auto simp: serving_def db_usable_def split: if_splits)
  then have "c' = (ss_conn s)\<lparr>dc_conn := dc_conn c'\<rparr>" using still_unbroken by metis
  with c' db_request_Ok [OF c'(1)] show ?thesis
    by (intro exI [of _ "dc_conn c'"]) (auto simp: on_conn_def online_def)
qed

lemma on_sent:
  assumes "serving (ss_conn s) (a # as)" "dq_ors q = 0"
  shows "\<exists>k. on_conn (db_send q) s = (Ok (), online s k) \<and> serving (ss_conn (online s k)) as
    \<and> sent (ss_conn s) (ss_conn (online s k)) [dq_functionID q]"
proof -
  obtain c' where c': "db_send q (ss_conn s) = (Ok (), c')" "serving c' as" "c' = (ss_conn s)\<lparr>dc_conn := dc_conn c'\<rparr>"
    using send_served [OF assms] by blast
  with db_send_Ok [OF c'(1)] show ?thesis
    by (intro exI [of _ "dc_conn c'"]) (auto simp: on_conn_def online_def)
qed

lemma Prepare_described:
  assumes "serving (ss_conn s) (a0 # a1 # as)" "allocID (ss_conn s) = (Ok k, c1)" "answers T a1 rep"
    and "encodeString T clientCCSID query = Ok enc" "length enc \<le> 0xFFFF"
  shows "\<exists>i s'. Prepare G T background query s = (Ok i, s') \<and> serving (ss_conn s') as
    \<and> ss_stmts s' i = described rep (new_stmt G k query) \<and> conn_location (ss_conn s') = conn_location (ss_conn s)"
proof -
  have u: "db_usable (ss_conn s) = None" using assms(1) by (simp add: serving_def)
  define sa where "sa = s\<lparr>ss_conn := c1\<rparr>"
  have sa: "serving (ss_conn sa) (a0 # a1 # as)" "conn_location (ss_conn sa) = conn_location (ss_conn s)"
    "ss_nstmts sa = ss_nstmts s"
    using allocID_Ok [OF assms(2)] assms(1) by (simp_all add: sa_def conn_location_def)
  obtain req where req: "rpb_request k = Ok req" "dq_ors req = 0" using rpb_request_total by blast
  obtain k2 where k2: "on_conn (db_send req) sa = (Ok (), online sa k2)" "serving (ss_conn (online sa k2)) (a1 # as)"
    using on_sent [OF sa(1) req(2)] by blast
  define i where "i = ss_nstmts s"
  define t where "t = (online sa k2)\<lparr>ss_stmts := (ss_stmts sa)(i := new_stmt G k query), ss_nstmts := Suc i\<rparr>"
  have t: "serving (ss_conn t) (a1 # as)" "ss_stmts t i = new_stmt G k query" "conn_location (ss_conn t) = conn_location (ss_conn s)"
    using k2(2) sa(2) by (simp_all add: t_def)
  have "\<exists>prep. prepare_request v st enc = Ok prep" for v st
    using assms(5) by (auto simp: prepare_request_def Let_def)
  then obtain prep where prep: "prepare_request (dc_vrm (ss_conn t)) (ss_stmts t i) enc = Ok prep" by blast
  obtain k3 where k3: "on_conn (db_request_ok T background ''prepare'' prep) t = (Ok rep, online t k3)"
      "serving (ss_conn (online t k3)) as"
    using on_answered [OF t(1) assms(3)] by blast
  have "st_query (ss_stmts t i) = query" by (simp add: t(2) new_stmt_def)
  with prep k3(1) assms(4) have "describe_stmt T background i t = (Ok (), upd_stmt i (described rep) (online t k3))"
    by (simp add: describe_stmt_def bind_op.simps ret_op_def)
  moreover have "on_conn allocID s = (Ok k, sa)" using assms(2) by (simp add: on_conn_def sa_def)
  ultimately have "Prepare G T background query s = (Ok i, upd_stmt i (described rep) (online t k3))"
    using u req(1) k2(1) by (simp add: Prepare_def bind_op.simps ret_op_def or_release_def Let_def sa(3) flip: t_def i_def)
  then show ?thesis using k3(2) t(2,3)
    by (intro exI [of _ i] exI [of _ "upd_stmt i (described rep) (online t k3)"]) (simp add: upd_stmt_def)
qed

lemma delete_descriptor_served:
  assumes "serving (ss_conn s) (del @ as)" "length del = (if st_descriptorSent (ss_stmts s i) then 1 else 0)"
  shows "\<exists>s'. delete_descriptor i s = (Ok (), s') \<and> serving (ss_conn s') as"
proof (cases "st_descriptorSent (ss_stmts s i)")
  case False
  with assms show ?thesis by (simp add: delete_descriptor_def)
next
  case True
  then obtain u where "del = [u]" using assms(2) by (auto simp: length_Suc_conv)
  then have served: "serving (ss_conn s) (u # as)" using assms(1) by simp
  have "dq_ors (descriptor_request fnDeleteDescriptor (ss_stmts s i)) = 0"
    by (simp add: descriptor_request_def stmt_request_def db_request_for_def)
  from on_sent [OF served this] True show ?thesis by (auto simp: delete_descriptor_def)
qed

lemma stmt_Close_answered:
  assumes "serving (ss_conn s) (del @ [a])" "length del = (if st_descriptorSent (ss_stmts s i) then 1 else 0)"
    and "answers T a rep" "st_rows (ss_stmts s i) = None" "\<not> st_closed (ss_stmts s i)"
  shows "\<exists>s'. stmt_Close T i s = (Ok (), s') \<and> sent (ss_conn s) (ss_conn s')
      ((if st_descriptorSent (ss_stmts s i) then [fnDeleteDescriptor] else []) @ [fnDeleteRPB])
    \<and> dc_ids (ss_conn s') = (dc_ids (ss_conn s))(st_id (ss_stmts s i) := False) \<and> session_usable s'"
proof -
  define s0 where "s0 = upd_stmt i (\<lambda>x. x\<lparr>st_closed := True\<rparr>) s"
  have s0: "st_rows (ss_stmts s0 i) = None" "st_descriptorSent (ss_stmts s0 i) = st_descriptorSent (ss_stmts s i)"
    "ss_conn s0 = ss_conn s" using assms(4) by (simp_all add: s0_def upd_stmt_def)
  obtain s1 where s1: "delete_descriptor i s0 = (Ok (), s1)" "serving (ss_conn s1) [a]"
    using delete_descriptor_served [of s0 del "[a]" i] assms(1,2) s0 by auto
  obtain s2 where "delete_rpb T background i s1 = (Ok rep, s2)"
    using on_answered [OF s1(2) assms(3)] unfolding delete_rpb_def by blast
  with s1(1) s0(1) have "release_server T background i s0 = (Ok (), s2)"
    by (simp add: release_server_def closeRows_def)
  moreover have u: "db_usable (ss_conn s) = None" using assms(1) by (simp add: serving_def)
  ultimately obtain s' where s': "stmt_Close T i s = (Ok (), s')" "release T background i s = (Ok (), s')"
    using assms(5) by (simp add: stmt_Close_def release_def Let_def s0(3) flip: s0_def)
  from release_traced [OF s'(2)] u assms(4) s'(1) show ?thesis
    by (simp add: session_usable_def has_cursor_def descriptor_sent_def)
qed

lemma described_nothing:
  "dr_dataFormat rep = None \<Longrightarrow> dr_paramFormat rep = None \<Longrightarrow> described rep st = st"
  by (simp add: described_def)

lemma conn_Exec_served:
  assumes "serving (ss_conn s) [a0, a1, a2, a3]" "allocID (ss_conn s) = (Ok k, c1)"
    and "\<forall>a \<in> {a1, a2, a3}. answers (ve_ccsids E) a rep"
    and "dr_dataFormat rep = None" "dr_paramFormat rep = None"
    and "encodeString (ve_ccsids E) clientCCSID query = Ok enc" "length enc \<le> 0xFFFF"
  shows "\<exists>s'. conn_Exec G conv E background query [] s = (Ok (db_rowCount rep), s')"
proof -
  have ans: "answers (ve_ccsids E) a1 rep" "answers (ve_ccsids E) a2 rep" "answers (ve_ccsids E) a3 rep" using assms(3) by simp_all
  from Prepare_described [OF assms(1,2) ans(1) assms(6,7)] obtain i s1 where
    p: "Prepare G (ve_ccsids E) background query s = (Ok i, s1)" "serving (ss_conn s1) [a2, a3]"
      "ss_stmts s1 i = new_stmt G k query"
    unfolding described_nothing [OF assms(4,5)] by blast
  obtain k2 where k2: "on_conn (db_request_ok (ve_ccsids E) background ''execute'' (execute_request (ss_stmts s1 i) [])) s1
      = (Ok rep, online s1 k2)" "serving (ss_conn (online s1 k2)) [a3]"
    using on_answered [OF p(2) ans(2)] by blast
  have "stmt_usable i s1 = None" using p(2,3) by (simp add: stmt_usable_def serving_def new_stmt_def)
  with k2(1) p(3) have e: "stmt_exec E background i [] s1 = (Ok (db_rowCount rep), online s1 k2)"
    by (simp add: stmt_exec_def bind_op.simps closeRows_def bind_args_def new_stmt_def ret_op_def Let_def)
  have "serving (ss_conn (online s1 k2)) ([] @ [a3])" using k2(2) by simp
  from stmt_Close_answered [OF this _ ans(3), of i] p(3) obtain s3 where
    "stmt_Close (ve_ccsids E) i (online s1 k2) = (Ok (), s3)" by (auto simp: new_stmt_def)
  with p e show ?thesis
    by (simp add: conn_Exec_def bind_op.simps stmt_Exec_def ret_op_def convertArgs_def joined_def join_errors_def)
qed

section \<open>Properties\<close>


lemma accepting_reply_parse: "frameable accepting_reply \<and> parseReply T (reply_of accepting_reply) = Ok (blank_reply 0 0)"
proof -
  have "parseReply T (reply_of accepting_reply) = Ok (fold (take_item T) [] (blank_reply 0 (sint (0 :: 32 word))))"
    by (rule parseReply_server [OF plain_head_zeros]) (simp_all add: accepting_reply_def)
  then show ?thesis using accepts_accepting_reply [of T] by (simp add: accepts_def)
qed

definition toy_session :: db_session where
  "toy_session = new_session (served_session [accepting_reply, accepting_reply, accepting_reply, accepting_reply])"

lemma toy_session_exec: "\<exists>s'. conn_Exec toy_crypto Some toy_env background ''SET X'' [] toy_session = (Ok 0, s')"
proof -
  have served: "serving (ss_conn toy_session) [accepting_reply, accepting_reply, accepting_reply, accepting_reply]"
    by (simp add: toy_session_def new_session_def serving_served_session)
  have k: "allocID (ss_conn toy_session) = (Ok 1, (ss_conn toy_session)\<lparr>dc_ids := (\<lambda>_. False)(1 := True)\<rparr>)"
    by (subst allocID_first) (simp_all add: toy_session_def new_session_def served_session_def new_conn_def)
  have enc: "encodeString (ve_ccsids toy_env) clientCCSID ''SET X'' = Ok (bytes_of_string ''SET X'')"
    by (simp add: encodeString_Ok_iff toy_env_def clientCCSID_def ccsidUCS2_def byte_encoding_def)
  have rep: "dr_dataFormat (blank_reply 0 0) = None"
      "dr_paramFormat (blank_reply 0 0) = None" "length (bytes_of_string ''SET X'') \<le> 0xFFFF"
    by (simp_all add: blank_reply_def bytes_of_string_def)
  have "\<forall>a \<in> {accepting_reply, accepting_reply, accepting_reply}. answers (ve_ccsids toy_env) a (blank_reply 0 0)"
    using accepting_reply_parse by (simp add: answers_def failed_def blank_reply_def)
  from conn_Exec_served [OF served k this rep(1,2) enc rep(3)]
  have "\<exists>s'. conn_Exec toy_crypto Some toy_env background ''SET X'' [] toy_session
      = (Ok (db_rowCount (blank_reply 0 0)), s')" .
  then show ?thesis by (simp add: db_rowCount_def blank_reply_def)
qed


end
