(* ===== verification/GoUrl.thy ===== *)
theory GoUrl
  imports GoNumbers
begin

text \<open>
  The parts of \<^verbatim>\<open>net/url\<close> and \<^verbatim>\<open>time\<close> a data source name goes through: \<^verbatim>\<open>url.Parse\<close> as far as
  the fields that are read (scheme, user, host, query), \<^verbatim>\<open>Values\<close>, and \<^verbatim>\<open>time.ParseDuration\<close>,
  whose fractions are computed in \<^verbatim>\<open>float64\<close>; and \<^verbatim>\<open>strconv.ParseBool\<close>. The one thing left open is a host with a bracket,
  an IP literal, whose syntax depends on the release of Go.
\<close>

section \<open>Percent encoding\<close>

datatype url_error =
    UrlControl
  | UrlNoScheme
  | UrlFirstSegment
  | UrlUserinfo
  | UrlPort string
  | UrlEscape string
  | UrlHostChar char
  | UrlLiteral string

datatype escape_mode = EncodePath | EncodeFragment | EncodeUserPassword | EncodeQuery | EncodeHost

definition is_alpha :: "char \<Rightarrow> bool" where
  "is_alpha c \<longleftrightarrow> c \<in> set ''abcdefghijklmnopqrstuvwxyzABCDEFGHIJKLMNOPQRSTUVWXYZ''"

definition unreserved :: "char \<Rightarrow> bool" where
  "unreserved c \<longleftrightarrow> is_alpha c \<or> is_digit c \<or> c \<in> set ''-_.~''"

definition hex_digits :: string where "hex_digits = ''0123456789ABCDEF''"

definition unhex :: "char \<Rightarrow> nat option" where
  "unhex c =
     (if is_digit c then Some (digit_val c)
      else if 65 \<le> (of_char c :: nat) \<and> (of_char c :: nat) \<le> 70 then Some (of_char c - 55)
      else if 97 \<le> (of_char c :: nat) \<and> (of_char c :: nat) \<le> 102 then Some (of_char c - 87)
      else None)"

definition host_char :: "char \<Rightarrow> bool" where
  "host_char c \<longleftrightarrow> unreserved c \<or> c \<in> set ''!$&()*+,;=:[]<>'' \<or> c = CHR 0x27 \<or> c = CHR 0x22"

text \<open>The byte that two characters after a percent sign denote.\<close>

definition escaped_byte :: "escape_mode \<Rightarrow> char \<Rightarrow> char \<Rightarrow> char option" where
  "escaped_byte m a b =
     (case (unhex a, unhex b) of
        (Some x, Some y) \<Rightarrow>
          if m = EncodeHost \<and> x < 8 \<and> \<not> (a = CHR ''2'' \<and> b = CHR ''5'') then None
          else Some (char_of (16 * x + y))
      | _ \<Rightarrow> None)"

fun unescape :: "escape_mode \<Rightarrow> string \<Rightarrow> (url_error, string) res" where
  "unescape m [] = Ok []"
| "unescape m (c # s) =
     (if c = CHR ''%'' then
        (case s of
           a # b # t \<Rightarrow>
             (case escaped_byte m a b of
                Some x \<Rightarrow> fmap_res ((#) x) (unescape m t)
              | None \<Rightarrow> Err (UrlEscape [c, a, b]))
         | _ \<Rightarrow> Err (UrlEscape (c # s)))
      else if m = EncodeQuery \<and> c = CHR ''+'' then fmap_res ((#) CHR '' '') (unescape m s)
      else if m = EncodeHost \<and> (of_char c :: nat) < 0x80 \<and> \<not> host_char c then Err (UrlHostChar c)
      else fmap_res ((#) c) (unescape m s))"

section \<open>URLs\<close>

record url =
  url_Scheme :: string
  url_User :: "(string \<times> string option) option"
  url_Host :: string
  url_RawQuery :: string

text \<open>What is before and after the last occurrence of a byte.\<close>

definition cut_last :: "char \<Rightarrow> string \<Rightarrow> (string \<times> string) option" where
  "cut_last sep s =
     (let b = rev (takeWhile (\<lambda>c. c \<noteq> sep) (rev s)) in
      if sep \<in> set s then Some (take (length s - length b - 1) s, b) else None)"

definition getScheme :: "string \<Rightarrow> (url_error, string \<times> string) res" where
  "getScheme s =
     (let p = takeWhile (\<lambda>c. is_alpha c \<or> is_digit c \<or> c \<in> set ''+-.'') s; r = drop (length p) s in
      if p \<noteq> [] \<and> \<not> is_alpha (hd p) then Ok ([], s)
      else if r = [] \<or> hd r \<noteq> CHR '':'' then Ok ([], s)
      else if p = [] then Err UrlNoScheme
      else Ok (p, tl r))"

definition ascii_lower :: "char \<Rightarrow> char" where
  "ascii_lower c = (if 65 \<le> (of_char c :: nat) \<and> (of_char c :: nat) \<le> 90 then char_of (of_char c + 32 :: nat) else c)"

definition parseHost :: "(string \<Rightarrow> (url_error, string) res) \<Rightarrow> string \<Rightarrow> (url_error, string) res" where
  "parseHost literal_host host =
     (if CHR ''['' \<in> set host then literal_host host
      else
        (case cut_last CHR '':'' host of
           Some (h, p) \<Rightarrow> if list_all is_digit p then unescape EncodeHost host else Err (UrlPort p)
         | None \<Rightarrow> unescape EncodeHost host))"

definition userinfo_char :: "char \<Rightarrow> bool" where
  "userinfo_char c \<longleftrightarrow> is_alpha c \<or> is_digit c \<or> c \<in> set ''-._:~!$&()*+,;=%@'' \<or> c = CHR 0x27"

definition parseUserinfo :: "string \<Rightarrow> (url_error, string \<times> string option) res" where
  "parseUserinfo s =
     (if \<not> list_all userinfo_char s then Err UrlUserinfo
      else if CHR '':'' \<notin> set s then fmap_res (\<lambda>u. (u, None)) (unescape EncodeUserPassword s)
      else case Cut CHR '':'' s of (name, pass) \<Rightarrow>
        bind_res (unescape EncodeUserPassword name) (\<lambda>u.
        fmap_res (\<lambda>p. (u, Some p)) (unescape EncodeUserPassword pass)))"

definition parseAuthority ::
  "(string \<Rightarrow> (url_error, string) res) \<Rightarrow> string \<Rightarrow> (url_error, (string \<times> string option) option \<times> string) res"
where
  "parseAuthority literal_host s =
     (case cut_last CHR ''@'' s of
        None \<Rightarrow> fmap_res (\<lambda>h. (None, h)) (parseHost literal_host s)
      | Some (userinfo, host) \<Rightarrow>
          bind_res (parseHost literal_host host) (\<lambda>h.
          fmap_res (\<lambda>u. (Some u, h)) (parseUserinfo userinfo)))"

definition control_char :: "char \<Rightarrow> bool" where
  "control_char c \<longleftrightarrow> (of_char c :: nat) < 0x20 \<or> (of_char c :: nat) = 0x7F"

definition split_authority :: "string \<Rightarrow> string \<times> string" where
  "split_authority s = (takeWhile (\<lambda>c. c \<noteq> CHR ''/'') s, dropWhile (\<lambda>c. c \<noteq> CHR ''/'') s)"

text \<open>After scheme and query were taken off.\<close>

definition parse_rest ::
  "(string \<Rightarrow> (url_error, string) res) \<Rightarrow> string \<Rightarrow> string \<Rightarrow> string \<Rightarrow> (url_error, url) res"
where
  "parse_rest literal_host scheme rest query =
     (let u = \<lparr>url_Scheme = scheme, url_User = None, url_Host = [], url_RawQuery = query\<rparr> in
      if \<not> HasPrefix rest ''/'' \<and> scheme \<noteq> [] then Ok u
      else if \<not> HasPrefix rest ''/'' \<and> CHR '':'' \<in> set (fst (Cut CHR ''/'' rest)) then Err UrlFirstSegment
      else if HasPrefix rest ''//'' \<and> (scheme \<noteq> [] \<or> \<not> HasPrefix rest ''///'') then
        (case split_authority (drop 2 rest) of (authority, path) \<Rightarrow>
          bind_res (parseAuthority literal_host authority) (\<lambda>(user, host).
          bind_res (unescape EncodePath path) (\<lambda>_. Ok (u\<lparr>url_User := user, url_Host := host\<rparr>))))
      else bind_res (unescape EncodePath rest) (\<lambda>_. Ok u))"

definition parse_url :: "(string \<Rightarrow> (url_error, string) res) \<Rightarrow> string \<Rightarrow> (url_error, url) res" where
  "parse_url literal_host raw =
     (if list_ex control_char raw then Err UrlControl
      else if raw = ''*'' then Ok \<lparr>url_Scheme = [], url_User = None, url_Host = [], url_RawQuery = []\<rparr>
      else
        bind_res (getScheme raw) (\<lambda>(scheme, r).
          case Cut CHR ''?'' r of (rest, query) \<Rightarrow> parse_rest literal_host (map ascii_lower scheme) rest query))"

definition url_Parse :: "(string \<Rightarrow> (url_error, string) res) \<Rightarrow> string \<Rightarrow> (url_error, url) res" where
  "url_Parse literal_host raw =
     (case Cut CHR ''#'' raw of (s, frag) \<Rightarrow>
        bind_res (parse_url literal_host s) (\<lambda>u. bind_res (unescape EncodeFragment frag) (\<lambda>_. Ok u)))"

text \<open>\<^verbatim>\<open>splitHostPort\<close>, which \<^verbatim>\<open>Hostname\<close> and \<^verbatim>\<open>Port\<close> use.\<close>

definition splitHostPort :: "string \<Rightarrow> string \<times> string" where
  "splitHostPort hostport =
     (let (host, port) =
        (case cut_last CHR '':'' hostport of
           Some (h, p) \<Rightarrow> if list_all is_digit p then (h, p) else (hostport, [])
         | None \<Rightarrow> (hostport, []))
      in (if HasPrefix host ''['' \<and> host \<noteq> [] \<and> last host = CHR '']'' then drop 1 (butlast host) else host, port))"

definition Hostname :: "url \<Rightarrow> string" where "Hostname u = fst (splitHostPort (url_Host u))"
definition Port :: "url \<Rightarrow> string" where "Port u = snd (splitHostPort (url_Host u))"

section \<open>Query parameters\<close>

text \<open>The values of each key, the keys in the order of their first occurrence; pairs that do not parse are dropped.\<close>

type_synonym query_values = "(string \<times> string list) list"

fun add_value :: "string \<Rightarrow> string \<Rightarrow> query_values \<Rightarrow> query_values" where
  "add_value k v [] = [(k, [v])]"
| "add_value k v ((k', vs) # m) = (if k = k' then (k', vs @ [v]) # m else (k', vs) # add_value k v m)"

definition add_pair :: "string \<Rightarrow> query_values \<Rightarrow> query_values" where
  "add_pair part m =
     (if CHR '';'' \<in> set part \<or> part = [] then m
      else case Cut CHR ''='' part of (k, v) \<Rightarrow>
        (case (unescape EncodeQuery k, unescape EncodeQuery v) of
           (Ok k', Ok v') \<Rightarrow> add_value k' v' m
         | _ \<Rightarrow> m))"

lemma Cut_snd_length: "s \<noteq> [] \<Longrightarrow> length (snd (Cut c s)) < length s"
proof (induction s)
  case (Cons x s)
  then show ?case by (cases "s = []") auto
qed simp

function parseQuery :: "string \<Rightarrow> query_values \<Rightarrow> query_values" where
  "parseQuery q m =
     (if q = [] then m else parseQuery (snd (Cut CHR ''&'' q)) (add_pair (fst (Cut CHR ''&'' q)) m))"
  by pat_completeness auto
termination by (relation "measure (\<lambda>(q, m). length q)") (auto simp: Cut_snd_length)

declare parseQuery.simps [simp del]

definition Query :: "url \<Rightarrow> query_values" where
  "Query u = parseQuery (url_RawQuery u) []"

section \<open>Durations\<close>

text \<open>Products and quotients in \<^verbatim>\<open>float64\<close>, on the bits of positive numbers.\<close>

definition float_quot :: "nat \<Rightarrow> nat \<Rightarrow> nat" where
  "float_quot a b =
     float_mag 53 (- 1074) inf64 (2 * (a * 2 ^ 128 div b) + (if a * 2 ^ 128 mod b = 0 then 0 else 1)) (- 129)"

definition float_times :: "nat \<Rightarrow> nat \<Rightarrow> nat" where
  "float_times x y = (case (f64_parts x, f64_parts y) of ((m, e), (n, f)) \<Rightarrow>
     float_mag 53 (- 1074) inf64 (m * n) (e + f))"

definition float_floor :: "nat \<Rightarrow> nat" where
  "float_floor x = (case f64_parts x of (m, e) \<Rightarrow> if e < 0 then m div 2 ^ nat (- e) else m * 2 ^ nat e)"

text \<open>\<^verbatim>\<open>leadingFraction\<close>: the digits that fit in 63 bits and their number; the rest is ignored.\<close>

fun leading_fraction :: "string \<Rightarrow> nat \<Rightarrow> nat \<Rightarrow> nat \<times> nat" where
  "leading_fraction [] x k = (x, k)"
| "leading_fraction (c # s) x k =
     (if x > (2 ^ 63 - 1) div 10 then (x, k)
      else let y = 10 * x + digit_val c in if y > 2 ^ 63 then (x, k) else leading_fraction s y (Suc k))"

definition fraction_of :: "string \<Rightarrow> nat \<Rightarrow> nat" where
  "fraction_of ds unit =
     (case leading_fraction ds 0 0 of (f, k) \<Rightarrow>
        if f > 0 then float_floor (float_times (float_mag 53 (- 1074) inf64 f 0) (float_quot unit (10 ^ k)))
        else 0)"

definition duration_unit :: "string \<Rightarrow> nat option" where
  "duration_unit u = map_of
     [(''ns'', 1), (''us'', 1000), ([CHR 0xC2, CHR 0xB5, CHR ''s''], 1000), ([CHR 0xCE, CHR 0xBC, CHR ''s''], 1000),
      (''ms'', 1000000), (''s'', 1000000000), (''m'', 60 * 1000000000), (''h'', 3600 * 1000000000)] u"

text \<open>The digits before and after a point, whether there was one, and what follows.\<close>

definition duration_number :: "string \<Rightarrow> string \<times> string \<times> string" where
  "duration_number s =
     (let ds = takeWhile is_digit s; r = dropWhile is_digit s in
      if HasPrefix r ''.'' then (ds, takeWhile is_digit (drop 1 r), dropWhile is_digit (drop 1 r))
      else (ds, [], r))"

definition unit_text :: "string \<Rightarrow> string" where
  "unit_text s = takeWhile (\<lambda>c. c \<noteq> CHR ''.'' \<and> \<not> is_digit c) s"

text \<open>The sum is kept in 64 bits.\<close>

definition duration_term :: "nat \<Rightarrow> string \<Rightarrow> string \<Rightarrow> string \<Rightarrow> nat option" where
  "duration_term d ds fs u =
     (if digits_val ds > 2 ^ 63 \<or> ds = [] \<and> fs = [] then None
      else case duration_unit u of None \<Rightarrow> None
      | Some unit \<Rightarrow>
          if digits_val ds > 2 ^ 63 div unit then None
          else
            let v = digits_val ds * unit + fraction_of fs unit; d' = (d + v) mod 2 ^ 64 in
            if v > 2 ^ 63 \<or> d' > 2 ^ 63 then None else Some d')"

function duration_terms :: "nat \<Rightarrow> string \<Rightarrow> nat option" where
  "duration_terms d s =
     (if s = [] then Some d
      else case duration_number s of (ds, fs, r) \<Rightarrow>
        if unit_text r = [] then None
        else
          (case duration_term d ds fs (unit_text r) of
             None \<Rightarrow> None
           | Some d' \<Rightarrow> duration_terms d' (drop (length (unit_text r)) r)))"
  by pat_completeness auto
termination
proof (relation "measure (\<lambda>(d, s). length s)", goal_cases)
  case (2 d s ds fr fs r d')
  then have "length r \<le> length s"
    using length_dropWhile_le [of is_digit s]
      length_dropWhile_le [of is_digit "drop 1 (dropWhile is_digit s)"]
    by (auto simp: duration_number_def Let_def split: if_splits)
  moreover have "length (unit_text r) \<le> length r" by (simp add: unit_text_def length_takeWhile_le)
  moreover have "0 < length (unit_text r)" using 2 by simp
  ultimately have "length (drop (length (unit_text r)) r) < length s" unfolding length_drop by linarith
  then show ?case by simp
qed simp

declare duration_terms.simps [simp del]

definition ParseDuration :: "string \<Rightarrow> int option" where
  "ParseDuration s =
     (case split_sign s of (neg, r) \<Rightarrow>
        if r = ''0'' then Some 0
        else if r = [] then None
        else
          (case duration_terms 0 r of
             None \<Rightarrow> None
           | Some d \<Rightarrow> if neg then Some (- int d) else if d > 2 ^ 63 - 1 then None else Some (int d)))"

section \<open>Booleans\<close>

text \<open>\<^verbatim>\<open>strconv.ParseBool\<close>.\<close>

definition ParseBool :: "string \<Rightarrow> bool option" where
  "ParseBool v =
     (if v \<in> {''1'', ''t'', ''T'', ''true'', ''TRUE'', ''True''} then Some True
      else if v \<in> {''0'', ''f'', ''F'', ''false'', ''FALSE'', ''False''} then Some False else None)"

section \<open>Text that passes through\<close>

text \<open>
  A string with every byte escaped that \<open>keep\<close> does not let through, and a query of keys and values
  written this way.
\<close>

definition hex_digit :: "nat \<Rightarrow> char" where
  "hex_digit n = (if n < 10 then digit_char n else char_of (55 + n))"

definition percent :: "(char \<Rightarrow> bool) \<Rightarrow> string \<Rightarrow> string" where
  "percent keep s = concat (map (\<lambda>c. if keep c then [c]
     else [CHR ''%'', hex_digit (of_char c div 16), hex_digit (of_char c mod 16)]) s)"

fun query_text :: "(char \<Rightarrow> bool) \<Rightarrow> (string \<times> string) list \<Rightarrow> string" where
  "query_text keep [] = []"
| "query_text keep [(k, v)] = percent keep k @ ''='' @ percent keep v"
| "query_text keep ((k, v) # ps) = percent keep k @ ''='' @ percent keep v @ ''&'' @ query_text keep ps"

definition url_text :: "char \<Rightarrow> bool" where
  "url_text c \<longleftrightarrow> unreserved c \<or> c = CHR ''%''"

lemma delimiters_reserved: "\<not> list_ex unreserved ''#?/@:&=;%+[]''"
  by code_simp

lemma unreserved_bounds:
  assumes "unreserved c"
  shows "45 \<le> (of_char c :: nat) \<and> (of_char c :: nat) \<le> 126"
proof -
  have "list_all (\<lambda>c. 45 \<le> (of_char c :: nat) \<and> (of_char c :: nat) \<le> 126)
      ''abcdefghijklmnopqrstuvwxyzABCDEFGHIJKLMNOPQRSTUVWXYZ''" by simp
  then have "is_alpha c \<Longrightarrow> ?thesis" unfolding is_alpha_def list_all_iff by (rule bspec)
  moreover have "is_digit c \<Longrightarrow> ?thesis" by (simp add: is_digit_def)
  moreover have "c \<in> set ''-_.~'' \<Longrightarrow> ?thesis" by auto
  ultimately show ?thesis using assms unfolding unreserved_def by blast
qed

lemma unreserved_not_special:
  assumes "unreserved c"
  shows "c \<notin> set ''#?/@:&=;%+[]'' \<and> \<not> control_char c \<and> userinfo_char c \<and> host_char c"
proof -
  have "c \<notin> set ''#?/@:&=;%+[]''" using assms delimiters_reserved unfolding list_ex_iff by blast
  moreover have "\<not> control_char c" using unreserved_bounds [OF assms] by (simp add: control_char_def)
  moreover have "c \<in> set ''-_.~'' \<Longrightarrow> c \<in> set ''-._:~!$&()*+,;=%@''" by auto
  then have "userinfo_char c" using assms unfolding unreserved_def userinfo_char_def by blast
  ultimately show ?thesis using assms by (simp add: host_char_def)
qed

lemma percent_not_special:
  "CHR ''%'' \<notin> set ''#?/@:&=;+[]'' \<and> \<not> control_char CHR ''%'' \<and> userinfo_char CHR ''%''"
  by (simp add: control_char_def userinfo_char_def)

lemma url_text_not_special:
  assumes "url_text c"
  shows "c \<notin> set ''#?/@:&=;+[]'' \<and> \<not> control_char c \<and> userinfo_char c"
  using assms unfolding url_text_def
proof
  assume "unreserved c"
  then show ?thesis using unreserved_not_special by simp
next
  assume "c = CHR ''%''"
  then show ?thesis using percent_not_special by simp
qed

lemma hex_digit_cases: "n < 16 \<Longrightarrow> unreserved (hex_digit n) \<and> unhex (hex_digit n) = Some n"
proof -
  have "\<forall>n \<in> set [0..<16]. unreserved (hex_digit n) \<and> unhex (hex_digit n) = Some n" by code_simp
  then show "n < 16 \<Longrightarrow> ?thesis" by simp
qed

lemma percent_Nil [simp]: "percent keep [] = []"
  by (simp add: percent_def)

lemma percent_Cons: "percent keep (c # s) =
    (if keep c then [c] else [CHR ''%'', hex_digit (of_char c div 16), hex_digit (of_char c mod 16)]) @ percent keep s"
  by (simp add: percent_def)

lemma percent_url_text:
  assumes "\<And>c. keep c \<Longrightarrow> unreserved c"
  shows "list_all url_text (percent keep s)"
proof (induction s)
  case (Cons c s)
  have "of_char c div 16 < (16 :: nat)" using of_char_less [of c] by linarith
  with Cons assms [of c] hex_digit_cases show ?case by (simp add: percent_Cons url_text_def)
qed simp

lemma percent_notin:
  assumes "\<And>c. keep c \<Longrightarrow> unreserved c" "d \<in> set ''#?/@:&=;+[]''"
  shows "d \<notin> set (percent keep s)"
  using percent_url_text [of keep s, OF assms(1)] url_text_not_special [of d] assms(2) by (auto simp only: list_all_iff)

lemma unescape_percent:
  assumes keep: "\<And>c. keep c \<Longrightarrow> unreserved c" and m: "m \<noteq> EncodeHost"
  shows "unescape m (percent keep s) = Ok s"
proof (induction s)
  case (Cons c s)
  show ?case
  proof (cases "keep c")
    case True
    then show ?thesis using Cons m unreserved_not_special [OF keep [of c]] by (auto simp: percent_Cons)
  next
    case False
    have "of_char c div 16 < (16 :: nat)" using of_char_less [of c] by linarith
    moreover have "char_of (16 * (of_char c div 16) + of_char c mod 16 :: nat) = c" by simp
    ultimately have "escaped_byte m (hex_digit (of_char c div 16)) (hex_digit (of_char c mod 16)) = Some c"
      using m by (simp add: escaped_byte_def hex_digit_cases)
    with False Cons show ?thesis by (simp add: percent_Cons)
  qed
qed simp

lemma percent_not_Nil [simp]: "percent keep s = [] \<longleftrightarrow> s = []"
  by (cases s) (simp_all add: percent_Cons)

lemma unescape_host:
  assumes "list_all (\<lambda>c. unreserved c \<or> c = CHR '':'') h"
  shows "unescape EncodeHost h = Ok h"
proof -
  have "host_char CHR '':''" by (simp add: host_char_def)
  with assms show ?thesis by (induction h) (use unreserved_not_special in auto)
qed

lemma Cut_append: "sep \<notin> set a \<Longrightarrow> Cut sep (a @ sep # b) = (a, b)"
  by (induction a) auto

lemma Cut_none: "sep \<notin> set a \<Longrightarrow> Cut sep a = (a, [])"
  by (induction a) auto

lemma cut_last_append: "sep \<notin> set b \<Longrightarrow> cut_last sep (a @ sep # b) = Some (a, b)"
proof -
  assume "sep \<notin> set b"
  then have "takeWhile (\<lambda>c. c \<noteq> sep) (rev b @ sep # rev a) = rev b"
    by (subst takeWhile_append2) auto
  then show ?thesis by (simp add: cut_last_def)
qed

lemma query_text_url_text:
  "(\<And>c. keep c \<Longrightarrow> unreserved c) \<Longrightarrow> list_all (\<lambda>c. url_text c \<or> c = CHR ''='' \<or> c = CHR ''&'') (query_text keep ps)"
proof (induction keep ps rule: query_text.induct)
  case (2 keep k v)
  then show ?case using percent_url_text [of keep] by (auto simp: list_all_iff)
next
  case (3 keep k v p ps)
  then show ?case using percent_url_text [of keep] by (auto simp: list_all_iff)
qed simp

lemma add_pair_text:
  assumes "\<And>c. keep c \<Longrightarrow> unreserved c"
  shows "add_pair (percent keep k @ ''='' @ percent keep v) m = add_value k v m"
proof -
  have n: "CHR '';'' \<notin> set (percent keep s)" "CHR ''='' \<notin> set (percent keep s)" for s
    by (intro percent_notin assms, simp, simp)+
  then show ?thesis
    by (simp add: add_pair_def Cut_append unescape_percent [OF assms])
qed

lemma parseQuery_text:
  "(\<And>c. keep c \<Longrightarrow> unreserved c) \<Longrightarrow> parseQuery (query_text keep ps) m = fold (\<lambda>(k, v). add_value k v) ps m"
proof (induction keep ps arbitrary: m rule: query_text.induct)
  case (1 keep)
  then show ?case by (simp add: parseQuery.simps)
next
  case (2 keep k v)
  have "CHR ''&'' \<notin> set (percent keep k @ ''='' @ percent keep v)"
    using percent_notin [of keep "CHR ''&''", OF 2] by simp
  from Cut_none [OF this] show ?case
    using add_pair_text [of keep k v m] 2 by (subst parseQuery.simps) (simp add: parseQuery.simps [of "[]"])
next
  case (3 keep k v p ps)
  have "CHR ''&'' \<notin> set (percent keep k @ ''='' @ percent keep v)"
    using percent_notin [of keep "CHR ''&''", OF 3(2)] by simp
  from Cut_append [OF this, of "query_text keep (p # ps)"] show ?case
    using add_pair_text [of keep k v m] 3 by (subst parseQuery.simps) simp
qed

lemma add_value_new: "k \<notin> fst ` set m \<Longrightarrow> add_value k v m = m @ [(k, [v])]"
  by (induction k v m rule: add_value.induct) auto

lemma fold_add_value:
  "distinct (map fst m @ map fst ps) \<Longrightarrow> fold (\<lambda>(k, v). add_value k v) ps m = m @ map (\<lambda>(k, v). (k, [v])) ps"
proof (induction ps arbitrary: m)
  case (Cons p ps)
  obtain k v where p: "p = (k, v)" by fastforce
  then have "add_value k v m = m @ [(k, [v])]" using Cons.prems by (intro add_value_new) auto
  moreover have "fold (\<lambda>(k, v). add_value k v) ps (m @ [(k, [v])]) = (m @ [(k, [v])]) @ map (\<lambda>(k, v). (k, [v])) ps"
    using Cons.prems p by (intro Cons.IH) auto
  ultimately show ?case by (simp add: p)
qed simp

text \<open>A duration written in nanoseconds.\<close>

lemma takeWhile_dec_digits: "\<not> is_digit c \<Longrightarrow> takeWhile is_digit (dec_digits n @ c # s) = dec_digits n"
  using dec_digits_digits [of n] by (subst takeWhile_append2) (auto simp: list_all_iff)

lemma dropWhile_dec_digits: "\<not> is_digit c \<Longrightarrow> dropWhile is_digit (dec_digits n @ c # s) = c # s"
  using dec_digits_digits [of n] by (subst dropWhile_append2) (auto simp: list_all_iff)

lemma duration_terms_ns:
  assumes "n \<le> 2 ^ 63"
  shows "duration_terms 0 (dec_digits n @ ''ns'') = Some n"
proof -
  have d: "\<not> is_digit CHR ''n''" "\<not> is_digit CHR ''s''" by code_simp+
  then have "duration_number (dec_digits n @ ''ns'') = (dec_digits n, [], ''ns'')"
    by (simp add: duration_number_def Let_def takeWhile_dec_digits dropWhile_dec_digits HasPrefix_def)
  moreover have "unit_text ''ns'' = ''ns''" using d by (simp add: unit_text_def)
  moreover have "duration_term 0 (dec_digits n) [] ''ns'' = Some n"
    using assms by (simp add: duration_term_def duration_unit_def fraction_of_def)
  ultimately show ?thesis by (subst duration_terms.simps) (simp add: duration_terms.simps [of _ "[]"])
qed

lemma ParseDuration_ns:
  assumes "- (2 ^ 63) \<le> n" "n < 2 ^ 63"
  shows "ParseDuration (FormatInt n @ ''ns'') = Some n"
proof -
  have s: "split_sign (dec_digits k @ ''ns'') = (False, dec_digits k @ ''ns'')" for k
    using dec_digits_digits [of k] dec_digits_not_Nil [of k] digit_not_sign
    by (cases "dec_digits k") (auto simp: split_sign_def HasPrefix_def)
  have z: "dec_digits k @ ''ns'' \<noteq> ''0''" for k by (cases "dec_digits k") auto
  have t: "duration_terms 0 (dec_digits (nat \<bar>n\<bar>) @ ''ns'') = Some (nat \<bar>n\<bar>)"
    using assms by (intro duration_terms_ns) auto
  with s z assms show ?thesis by (auto simp: ParseDuration_def FormatInt_def)
qed

end
