(* ===== verification/DbDriver.thy ===== *)
theory DbDriver
  imports DbTrace DbDsn
begin

text \<open>
  The second part of \<^verbatim>\<open>database/driver.go\<close>: the adapter to \<^verbatim>\<open>database/sql/driver\<close>. A \<^verbatim>\<open>driverConn\<close>
  is a session, a \<^verbatim>\<open>driverStmt\<close> or \<^verbatim>\<open>driverRows\<close> an address in it. The pool behind it retries a
  call that answers \<^verbatim>\<open>driver.ErrBadConn\<close> on another connection; the lemmas say exactly when that
  happens.
\<close>

section \<open>Connections\<close>

definition badConn :: "db_error \<Rightarrow> db_error" where
  "badConn e = (if is_conn_broken e then ErrBadConn else e)"

definition driver_PrepareContext ::
  "'a golib_scheme \<Rightarrow> ccsid_table \<Rightarrow> go_context \<Rightarrow> string \<Rightarrow> nat session_op"
where
  "driver_PrepareContext G T ctx query = wrap_op badConn (Prepare G T ctx query)"

definition driver_Prepare :: "'a golib_scheme \<Rightarrow> ccsid_table \<Rightarrow> string \<Rightarrow> nat session_op" where
  "driver_Prepare G T = driver_PrepareContext G T background"

definition driver_Close :: "unit session_op" where
  "driver_Close s = (Ok (), s\<lparr>ss_conn := db_Close (ss_conn s)\<rparr>)"

record tx_options =
  to_Isolation :: int
  to_ReadOnly :: bool

text \<open>The isolation levels of \<^verbatim>\<open>database/sql\<close>.\<close>

definition LevelDefault :: int where "LevelDefault = 0"
definition LevelReadUncommitted :: int where "LevelReadUncommitted = 1"
definition LevelReadCommitted :: int where "LevelReadCommitted = 2"
definition LevelRepeatableRead :: int where "LevelRepeatableRead = 4"
definition LevelSerializable :: int where "LevelSerializable = 6"

definition isolation_level :: "int \<Rightarrow> (db_error, int) res" where
  "isolation_level n =
     (if n = LevelDefault \<or> n = LevelReadUncommitted then Ok IsolationReadUncommitted
      else if n = LevelReadCommitted then Ok IsolationReadCommitted
      else if n = LevelRepeatableRead then Ok IsolationRepeatableRead
      else if n = LevelSerializable then Ok IsolationSerializable
      else Err (DbLevel n))"

definition BeginTx :: "ccsid_table \<Rightarrow> go_context \<Rightarrow> tx_options \<Rightarrow> unit session_op" where
  "BeginTx T ctx opts =
     (if to_ReadOnly opts then ret_op (Err DbReadOnly)
      else bind_op (ret_op (isolation_level (to_Isolation opts))) (\<lambda>level.
        wrap_op badConn (on_conn (Begin T ctx level))))"

definition driver_Begin :: "ccsid_table \<Rightarrow> unit session_op" where
  "driver_Begin T = BeginTx T background \<lparr>to_Isolation = LevelDefault, to_ReadOnly = False\<rparr>"

definition driver_Ping :: "ccsid_table \<Rightarrow> go_context \<Rightarrow> unit session_op" where
  "driver_Ping T ctx = wrap_op badConn (on_conn (Ping T ctx))"

definition ResetSession :: "unit session_op" where
  "ResetSession s =
     (if dc_broken (ss_conn s) \<or> dc_closed (ss_conn s) \<or> dc_inTx (ss_conn s) then (Err ErrBadConn, s) else (Ok (), s))"

definition IsValid :: "db_session \<Rightarrow> bool" where
  "IsValid s \<longleftrightarrow> \<not> dc_broken (ss_conn s) \<and> \<not> dc_closed (ss_conn s) \<and> \<not> dc_inTx (ss_conn s)"

definition driverTx_Commit :: "ccsid_table \<Rightarrow> unit session_op" where
  "driverTx_Commit T = on_conn (Commit T background)"

definition driverTx_Rollback :: "ccsid_table \<Rightarrow> unit session_op" where
  "driverTx_Rollback T = on_conn (Rollback T background)"

section \<open>Statements\<close>

record named_value =
  nv_Name :: string
  nv_Value :: argument

fun positional :: "named_value list \<Rightarrow> (db_error, argument list) res" where
  "positional [] = Ok []"
| "positional (a # as) =
     (if nv_Name a \<noteq> [] then Err DbNamedParameter else fmap_res ((#) (nv_Value a)) (positional as))"

record driver_result =
  rowsAffected :: int

definition newDriverResult :: "int \<Rightarrow> driver_result" where
  "newDriverResult r = \<lparr>rowsAffected = r\<rparr>"

definition LastInsertId :: "driver_result \<Rightarrow> (db_error, int) res" where
  "LastInsertId r = Err DbLastInsertId"

definition RowsAffected :: "driver_result \<Rightarrow> (db_error, int) res" where
  "RowsAffected r = Ok (rowsAffected r)"

definition driverStmt_Close :: "ccsid_table \<Rightarrow> nat \<Rightarrow> unit session_op" where
  "driverStmt_Close T i = stmt_Close T i"

definition driverStmt_NumInput :: "nat \<Rightarrow> db_session \<Rightarrow> nat" where
  "driverStmt_NumInput i s = NumInput (ss_stmts s i)"

definition exec_result :: "value_env \<Rightarrow> go_context \<Rightarrow> nat \<Rightarrow> argument list \<Rightarrow> driver_result session_op" where
  "exec_result E ctx i args =
     bind_op (wrap_op badConn (stmt_exec E ctx i args)) (\<lambda>res. ret_op (Ok (newDriverResult res)))"

definition driverStmt_Exec :: "value_env \<Rightarrow> nat \<Rightarrow> argument list \<Rightarrow> driver_result session_op" where
  "driverStmt_Exec E i args = exec_result E background i args"

definition ExecContext :: "value_env \<Rightarrow> go_context \<Rightarrow> nat \<Rightarrow> named_value list \<Rightarrow> driver_result session_op" where
  "ExecContext E ctx i args = bind_op (ret_op (positional args)) (exec_result E ctx i)"

definition driverStmt_Query :: "value_env \<Rightarrow> nat \<Rightarrow> argument list \<Rightarrow> nat session_op" where
  "driverStmt_Query E i args = wrap_op badConn (queryValues E background i args)"

definition QueryContext :: "value_env \<Rightarrow> go_context \<Rightarrow> nat \<Rightarrow> named_value list \<Rightarrow> nat session_op" where
  "QueryContext E ctx i args =
     bind_op (ret_op (positional args)) (\<lambda>values. wrap_op badConn (queryValues E ctx i values))"

section \<open>Rows\<close>

definition driverRows_Columns :: "nat \<Rightarrow> db_session \<Rightarrow> string list" where
  "driverRows_Columns r s = Columns r s"

definition driverRows_Close :: "ccsid_table \<Rightarrow> nat \<Rightarrow> unit session_op" where
  "driverRows_Close T r = rows_Close T r"

definition driverRows_Next :: "value_env \<Rightarrow> nat \<Rightarrow> (db_session \<times> argument list, db_error, unit) op" where
  "driverRows_Next E r = Next E r"

text \<open>Indexing the columns panics out of range.\<close>

definition column_at :: "nat \<Rightarrow> nat \<Rightarrow> db_session \<Rightarrow> (db_error, field) res" where
  "column_at r i s =
     (let cols = columns_of (ss_stmts s (rw_st (ss_rows s r))) in if i < length cols then Ok (cols ! i) else Panic)"

definition ColumnTypeDatabaseTypeName :: "nat \<Rightarrow> nat \<Rightarrow> db_session \<Rightarrow> (db_error, string) res" where
  "ColumnTypeDatabaseTypeName r i s = fmap_res (\<lambda>f. typeName (baseType f)) (column_at r i s)"

definition ColumnTypeNullable :: "nat \<Rightarrow> nat \<Rightarrow> db_session \<Rightarrow> (db_error, bool \<times> bool) res" where
  "ColumnTypeNullable r i s = fmap_res (\<lambda>f. (nullable f, True)) (column_at r i s)"

definition ColumnTypePrecisionScale :: "nat \<Rightarrow> nat \<Rightarrow> db_session \<Rightarrow> (db_error, int \<times> int \<times> bool) res" where
  "ColumnTypePrecisionScale r i s =
     fmap_res (\<lambda>f. if baseType f = typePacked \<or> baseType f = typeZoned
         then (int (f_precision f), int (f_scale f), True) else (0, 0, False))
       (column_at r i s)"

section \<open>The calls of the pool\<close>

datatype driver_call =
    DPrepare go_context string
  | DBegin go_context tx_options
  | DPing go_context
  | DReset
  | DCommit
  | DRollback
  | DExec go_context nat "named_value list"
  | DQuery go_context nat "named_value list"

definition no_result :: "'a session_op \<Rightarrow> unit session_op" where
  "no_result m s = (case m s of (r, s') \<Rightarrow> (fmap_res (\<lambda>_. ()) r, s'))"

fun driver_exec :: "'a golib_scheme \<Rightarrow> value_env \<Rightarrow> driver_call \<Rightarrow> unit session_op" where
  "driver_exec G E (DPrepare ctx query) = no_result (driver_PrepareContext G (ve_ccsids E) ctx query)"
| "driver_exec G E (DBegin ctx opts) = BeginTx (ve_ccsids E) ctx opts"
| "driver_exec G E (DPing ctx) = driver_Ping (ve_ccsids E) ctx"
| "driver_exec G E DReset = ResetSession"
| "driver_exec G E DCommit = driverTx_Commit (ve_ccsids E)"
| "driver_exec G E DRollback = driverTx_Rollback (ve_ccsids E)"
| "driver_exec G E (DExec ctx i args) = no_result (ExecContext E ctx i args)"
| "driver_exec G E (DQuery ctx i args) = no_result (QueryContext E ctx i args)"

text \<open>The calls that are answered with \<^verbatim>\<open>ErrBadConn\<close>, on a connection that was broken before.\<close>

definition stale :: "db_session \<Rightarrow> bool" where
  "stale s \<longleftrightarrow> dc_broken (ss_conn s) \<and> \<not> dc_closed (ss_conn s)"

fun retried :: "driver_call \<Rightarrow> db_session \<Rightarrow> bool" where
  "retried (DPrepare ctx query) s = stale s"
| "retried (DBegin ctx opts) s =
     (stale s \<and> \<not> dc_inTx (ss_conn s) \<and> \<not> to_ReadOnly opts \<and> to_Isolation opts \<in> {0, 1, 2, 4, 6})"
| "retried (DPing ctx) s = stale s"
| "retried DReset s = (\<not> IsValid s)"
| "retried DCommit s = False"
| "retried DRollback s = False"
| "retried (DExec ctx i args) s = (stale s \<and> \<not> st_closed (ss_stmts s i) \<and> list_all (\<lambda>a. nv_Name a = []) args)"
| "retried (DQuery ctx i args) s = (stale s \<and> \<not> st_closed (ss_stmts s i) \<and> list_all (\<lambda>a. nv_Name a = []) args)"

section \<open>Lemmas\<close>

lemma wrap_badConn_iff: "wrap_op badConn m s = (Err ErrBadConn, s') \<longleftrightarrow> (\<exists>e. m s = (Err e, s') \<and> retryable e)"
  by (auto simp: wrap_op_Err_iff badConn_def retryable_def split: if_splits)

lemma no_result_Err [simp]: "no_result m s = (Err e, s') \<longleftrightarrow> m s = (Err e, s')"
proof (cases "m s")
  case (Pair r t)
  then show ?thesis by (cases r) (auto simp: no_result_def)
qed

lemma bind_ret_Ok_Err [simp]: "bind_op m (\<lambda>x. ret_op (Ok (f x))) s = (Err e, s') \<longleftrightarrow> m s = (Err e, s')"
proof (cases "m s")
  case (Pair r t)
  then show ?thesis by (cases r) (auto simp: bind_op.simps ret_op_def)
qed

lemma session_usable_iff: "session_usable s \<longleftrightarrow> \<not> dc_broken (ss_conn s) \<and> \<not> dc_closed (ss_conn s)"
  by (auto simp: session_usable_def db_usable_def)

text \<open>
  What the pool relies on: an operation that \<open>admits\<close> a state sends nothing and changes nothing if
  the connection is closed or was broken before, and reports it; on a usable connection it never
  reports an old failure.
\<close>

locale guarded_call =
  fixes m :: "'a session_op" and admits :: "db_session \<Rightarrow> bool"
  assumes healthy: "healthy session_usable m"
    and refused: "dc_closed (ss_conn s) \<or> \<not> admits s \<Longrightarrow> \<exists>e. m s = (Err e, s) \<and> \<not> retryable e"
    and broken: "stale s \<Longrightarrow> admits s \<Longrightarrow> m s = (Err ErrConnBroken, s)"
begin

lemma retried: "wrap_op badConn m s = (Err ErrBadConn, s') \<longleftrightarrow> s' = s \<and> stale s \<and> admits s"
proof -
  consider (refuses) "dc_closed (ss_conn s) \<or> \<not> admits s" | (usable) "session_usable s"
    | (stale) "stale s" "admits s"
    by (auto simp: session_usable_iff stale_def)
  then show ?thesis
  proof cases
    case refuses
    with refused [OF refuses] show ?thesis by (auto simp: wrap_badConn_iff stale_def)
  next
    case usable
    then have "\<not> stale s" by (simp add: stale_def session_usable_iff)
    with healthy_Err [OF healthy usable] show ?thesis by (auto simp: wrap_badConn_iff)
  next
    case stale
    with broken show ?thesis by (auto simp: wrap_badConn_iff retryable_def)
  qed
qed

end

lemma healthy_on_conn_fixed: "healthy conn_usable m \<Longrightarrow> healthy session_usable (on_conn m)"
  using healthy_on_conn [of "\<lambda>_. m"] by simp

lemma healthy_Ping: "healthy conn_usable (Ping T ctx)"
  unfolding Ping_def by (intro healthy_rules) simp

lemma healthy_setAutoCommit: "healthy conn_usable (setAutoCommit T ctx on level)"
  unfolding setAutoCommit_def by (intro healthy_rules) simp

lemma healthy_Begin: "healthy conn_usable (Begin T ctx level)"
proof (rule healthyI)
  fix c :: db_conn and x c' assume "conn_usable c" "Begin T ctx level c = (Ok x, c')"
  then show "conn_usable c'"
    by (auto simp: Begin_def db_usable_def split: if_splits prod.splits res.splits
        dest!: healthy_Ok [OF healthy_setAutoCommit, rotated])
next
  fix c :: db_conn and e c' assume "conn_usable c" "Begin T ctx level c = (Err e, c')"
  then show "\<not> retryable e"
    by (auto simp: Begin_def split: if_splits prod.splits res.splits
        dest!: healthy_Err [OF healthy_setAutoCommit, rotated]) (simp_all add: retryable_def)
qed

lemma healthy_guarded: "guarded m \<Longrightarrow> healthy session_usable m"
  by (simp add: guarded_def)

lemmas unusable_simps = db_usable_def stale_def on_conn_def retryable_def db_request_ok_def db_call_def
  bind_op.simps setAutoCommit_def

interpretation prepare_call: guarded_call "Prepare G T ctx query" "\<lambda>_. True" for G T ctx query
  by unfold_locales (simp_all add: healthy_guarded [OF guarded_Prepare] Prepare_def unusable_simps)

interpretation ping_call: guarded_call "on_conn (Ping T ctx)" "\<lambda>_. True" for T ctx
  by unfold_locales (rule healthy_on_conn_fixed [OF healthy_Ping], simp_all add: Ping_def unusable_simps)

definition begin_admits :: "int \<Rightarrow> db_session \<Rightarrow> bool" where
  "begin_admits level s \<longleftrightarrow> \<not> dc_inTx (ss_conn s) \<and> IsolationReadUncommitted \<le> level \<and> level \<le> IsolationSerializable"

interpretation begin_call: guarded_call "on_conn (Begin T ctx level)" "begin_admits level" for T ctx level
  by unfold_locales
    (rule healthy_on_conn_fixed [OF healthy_Begin], auto simp: Begin_def begin_admits_def unusable_simps)

interpretation exec_call: guarded_call "stmt_exec E ctx i args" "\<lambda>s. \<not> st_closed (ss_stmts s i)" for E ctx i args
  by unfold_locales (auto simp: healthy_guarded [OF guarded_exec] stmt_exec_def stmt_usable_def unusable_simps)

interpretation query_call: guarded_call "queryValues E ctx i args" "\<lambda>s. \<not> st_closed (ss_stmts s i)" for E ctx i args
  by unfold_locales (auto simp: healthy_guarded [OF guarded_query] queryValues_def stmt_usable_def unusable_simps)

lemma isolation_level_cases:
  "isolation_level n = Ok l \<Longrightarrow> n \<in> {0, 1, 2, 4, 6} \<and> IsolationReadUncommitted \<le> l \<and> l \<le> IsolationSerializable"
  "n \<in> {0, 1, 2, 4, 6} \<Longrightarrow> \<exists>l. isolation_level n = Ok l"
  "isolation_level n = Err e \<Longrightarrow> e = DbLevel n \<and> n \<notin> {0, 1, 2, 4, 6}" "isolation_level n \<noteq> Panic"
  by (auto simp: isolation_level_def LevelDefault_def LevelReadUncommitted_def LevelReadCommitted_def
      LevelRepeatableRead_def LevelSerializable_def IsolationReadUncommitted_def IsolationReadCommitted_def
      IsolationRepeatableRead_def IsolationSerializable_def split: if_splits)

lemma BeginTx_retried:
  "BeginTx T ctx opts s = (Err ErrBadConn, s') \<longleftrightarrow> s' = s \<and> retried (DBegin ctx opts) s"
proof (cases "isolation_level (to_Isolation opts)")
  case (Ok l)
  with isolation_level_cases(1) [OF Ok] show ?thesis
    by (auto simp: BeginTx_def bind_op.simps ret_op_def begin_call.retried begin_admits_def)
next
  case (Err e)
  with isolation_level_cases(3) [OF Err] show ?thesis by (auto simp: BeginTx_def bind_op.simps ret_op_def)
qed (simp add: isolation_level_cases)

text \<open>Ending a transaction never asks for a retry: its errors are passed on as they are.\<close>

lemma request_error: "db_request_ok T ctx op q c = (Err e, c') \<Longrightarrow> e \<noteq> ErrBadConn"
proof (cases "conn_usable c")
  case True
  then show "db_request_ok T ctx op q c = (Err e, c') \<Longrightarrow> ?thesis"
    using healthy_Err [OF healthy_db_request True] by (auto simp: retryable_def)
next
  case False
  then show "db_request_ok T ctx op q c = (Err e, c') \<Longrightarrow> ?thesis"
    by (auto simp: db_request_ok_def db_call_def bind_op.simps db_usable_def split: if_splits)
qed

lemma join_errors_Joined: "join_errors [a, Some e] = Some x \<Longrightarrow> \<exists>es. x = Joined es"
  by (cases a) (auto simp: join_errors_def List.map_filter_def)

lemma join_two [simp]: "the (join_errors [a, Some e]) \<noteq> ErrBadConn"
  by (cases a) (simp_all add: join_errors_def List.map_filter_def)

lemma restore_error: "restore_autocommit T ctx endErr c = (Err e, c') \<Longrightarrow> endErr \<noteq> Some ErrBadConn \<Longrightarrow> e \<noteq> ErrBadConn"
  by (auto simp: restore_autocommit_def split: prod.splits res.splits option.splits)

lemma end_error: "endTransaction T ctx fn op c = (Err e, c') \<Longrightarrow> e \<noteq> ErrBadConn"
  using request_error restore_error
  by (auto simp: endTransaction_def commitOrRollback_def split: prod.splits res.splits if_splits)

lemma positional_cases:
  "positional args = Ok vs \<Longrightarrow> list_all (\<lambda>a. nv_Name a = []) args \<and> vs = map nv_Value args"
  "positional args = Err e \<Longrightarrow> e = DbNamedParameter \<and> \<not> list_all (\<lambda>a. nv_Name a = []) args" "positional args \<noteq> Panic"
proof (induction args arbitrary: vs)
  case (Cons a args)
  { case 1
    then show ?case using Cons.IH(1) by (cases "positional args") (auto split: if_splits) }
  { case 2
    then show ?case using Cons.IH(2) by (cases "positional args") (auto split: if_splits) }
  { case 3
    then show ?case using Cons.IH(3) by (cases "positional args") (auto split: if_splits) }
qed simp_all

lemma ExecContext_retried:
  "ExecContext E ctx i args s = (Err ErrBadConn, s') \<longleftrightarrow> s' = s \<and> retried (DExec ctx i args) s"
proof (cases "positional args")
  case (Ok vs)
  with positional_cases(1) [OF Ok] Ok show ?thesis
    by (simp add: ExecContext_def exec_result_def bind_op.simps [of "ret_op _"] ret_op_def [of "Ok _ :: (_, _ list) res"] exec_call.retried)
next
  case (Err e)
  with positional_cases(2) [OF Err] show ?thesis by (auto simp: ExecContext_def bind_op.simps ret_op_def)
qed (simp add: positional_cases)

lemma QueryContext_retried:
  "QueryContext E ctx i args s = (Err ErrBadConn, s') \<longleftrightarrow> s' = s \<and> retried (DQuery ctx i args) s"
proof (cases "positional args")
  case (Ok vs)
  with positional_cases(1) [OF Ok] Ok show ?thesis by (simp add: QueryContext_def bind_op.simps ret_op_def query_call.retried)
next
  case (Err e)
  with positional_cases(2) [OF Err] show ?thesis by (auto simp: QueryContext_def bind_op.simps ret_op_def)
qed (simp add: positional_cases)

section \<open>Properties\<close>

text \<open>C2. When the pool retries a call. Exactly the calls of \<open>retried\<close> are answered with
  \<^verbatim>\<open>driver.ErrBadConn\<close>: the connection had been broken before the call and was not closed (and the
  call would have got as far as using it), or the pool takes back a connection that is not valid.
  Nothing was sent then, and nothing else changed. So a request that may have reached the server
  is never repeated, and ending a transaction is never retried.\<close>

theorem retried_iff_nothing_sent:
  "driver_exec G E call s = (Err ErrBadConn, s') \<longleftrightarrow> s' = s \<and> retried call s"
proof (cases call)
  case (DPrepare ctx query)
  then show ?thesis by (simp add: driver_PrepareContext_def prepare_call.retried)
next
  case (DBegin ctx opts)
  then show ?thesis by (simp only: driver_exec.simps BeginTx_retried)
next
  case (DPing ctx)
  then show ?thesis by (simp add: driver_Ping_def ping_call.retried)
next
  case DReset
  then show ?thesis by (auto simp: ResetSession_def IsValid_def)
next
  case DCommit
  then show ?thesis by (auto simp: driverTx_Commit_def Commit_def on_conn_def split: prod.splits dest: end_error)
next
  case DRollback
  then show ?thesis by (auto simp: driverTx_Rollback_def Rollback_def on_conn_def split: prod.splits dest: end_error)
next
  case (DExec ctx i args)
  then show ?thesis by (simp only: driver_exec.simps no_result_Err ExecContext_retried)
next
  case (DQuery ctx i args)
  then show ?thesis by (simp only: driver_exec.simps no_result_Err QueryContext_retried)
qed

end
