(* ===== verification/Dtaq.thy ===== *)
theory Dtaq
  imports Logon
begin

text \<open>
  The \<^verbatim>\<open>dtaq\<close> package: data queues over the as-dtaq host server (\<^verbatim>\<open>wire.go\<close>, \<^verbatim>\<open>queue.go\<close>,
  \<^verbatim>\<open>client.go\<close>, \<^verbatim>\<open>errors.go\<close>). A \<^verbatim>\<open>nil\<close> key is \<open>None\<close>; an \<^verbatim>\<open>int32\<close> or \<^verbatim>\<open>int16\<close> is a word.
\<close>

section \<open>Data\<close>

type_synonym search_type = string

definition SearchEQ :: search_type where "SearchEQ = ''EQ''"
definition SearchNE :: search_type where "SearchNE = ''NE''"
definition SearchLT :: search_type where "SearchLT = ''LT''"
definition SearchLE :: search_type where "SearchLE = ''LE''"
definition SearchGT :: search_type where "SearchGT = ''GT''"
definition SearchGE :: search_type where "SearchGE = ''GE''"

definition AuthorityUse :: byte where "AuthorityUse = 0xF3"
definition AuthorityAll :: byte where "AuthorityAll = 0xF0"
definition AuthorityChange :: byte where "AuthorityChange = 0xF1"
definition AuthorityExclude :: byte where "AuthorityExclude = 0xF2"
definition AuthorityLibCrtAut :: byte where "AuthorityLibCrtAut = 0xF4"

record create_options =
  co_MaxEntryLength :: "32 word"
  co_PublicAuthority :: byte
  co_SaveSenderInformation :: bool
  co_Keyed :: bool
  co_KeyLength :: "16 word"
  co_FIFO :: bool
  co_ForceToAuxiliaryStorage :: bool
  co_TextDescription :: string

record entry =
  en_Data :: bytes
  en_Key :: bytes
  en_SenderInformation :: bytes

record queue_attributes =
  qa_MaxEntryLength :: "32 word"
  qa_SaveSenderInformation :: bool
  qa_Keyed :: bool
  qa_FIFO :: bool
  qa_KeyLength :: "16 word"
  qa_ForceToAuxiliaryStorage :: bool
  qa_TextDescription :: string

text \<open>\<^verbatim>\<open>dtaq.Error\<close>.\<close>

record server_error =
  se_RC :: "16 word"
  se_MessageID :: string
  se_Message :: string

datatype dtaq_error =
    QueueName ebcdic_error
  | LibraryName ebcdic_error
  | TextDescription ebcdic_error
  | SearchTypeChars ebcdic_error
  | SearchTypeLength string
  | DtaqCall string string string conn_error   \<comment> \<open>operation, library, queue\<close>
  | NoReturnCode
  | ServerError server_error
  | ReadMissing
  | ReadParams param_error
  | AttributesMissingFields
  | UnexpectedOpcode "16 word"
  | DtaqDial dial_error
  | DtaqLogon logon_error
  | DtaqAttributesCall conn_error

definition rcMessages :: "16 word \<Rightarrow> string option" where
  "rcMessages = map_of
     [(0xF002, ''protocol error''), (0xF003, ''syntax error''), (0xF004, ''queue destroyed''),
      (0xF005, ''unsupported entry or queue length''), (0xF006, ''no data available''),
      (0xF007, ''invalid data stream level''), (0xF008, ''invalid VRM''),
      (0xF009, ''rejected by exit program''), (0xF00A, ''exit program not authorized''),
      (0xF00B, ''exit program not found''), (0xF00D, ''exit program failed''),
      (0xF00E, ''invalid number of exit programs'')]"

definition cpfMessages :: "string \<Rightarrow> string option" where
  "cpfMessages = map_of
     [(''CPF9810'', ''library not found''), (''CPF9801'', ''object not found''),
      (''CPF2105'', ''object not found''), (''CPF9802'', ''object authority insufficient''),
      (''CPF2189'', ''object authority insufficient''),
      (''CPF9820'', ''library authority insufficient''),
      (''CPF2182'', ''library authority insufficient''),
      (''CPF9870'', ''object already exists''),
      (''CPF9502'', ''queue is not a keyed data queue''),
      (''CPF9506'', ''queue is a keyed data queue'')]"

text \<open>\<^verbatim>\<open>Error.Error\<close>: the message id and the text, without the formatted return code.\<close>

definition server_error_text :: "server_error \<Rightarrow> string \<times> string" where
  "server_error_text e =
     (if se_MessageID e \<noteq> [] then
        (se_MessageID e,
         case cpfMessages (se_MessageID e) of Some desc \<Rightarrow> desc | None \<Rightarrow> se_Message e)
      else ([], case rcMessages (se_RC e) of Some desc \<Rightarrow> desc | None \<Rightarrow> ''request failed''))"

section \<open>Requests\<close>

definition flagByte :: "bool \<Rightarrow> byte" where
  "flagByte b = (if b then 0xF1 else 0xF0)"

definition queueLibraryBytes :: "'a golib_scheme \<Rightarrow> string \<Rightarrow> string \<Rightarrow> (dtaq_error, bytes) res" where
  "queueLibraryBytes G library name =
     bind_res (wrap_err QueueName (EncodeEBCDICPadded (ToUpper G name) 10)) (\<lambda>q.
     bind_res (wrap_err LibraryName (EncodeEBCDICPadded (ToUpper G library) 10)) (\<lambda>lib.
     Ok (fit 10 q @ fit 10 lib)))"

definition dtaq_request :: "16 word \<Rightarrow> 16 word \<Rightarrow> bytes \<Rightarrow> request" where
  "dtaq_request reqRepID templateLen body =
     \<lparr>rq_ServerID = ServerDataQueue, rq_HeaderID = 0, rq_Correlation = 0,
      rq_TemplateLen = templateLen, rq_ReqRepID = reqRepID, rq_Body = body\<rparr>"

definition buildQueueOnlyRequest ::
  "'a golib_scheme \<Rightarrow> 16 word \<Rightarrow> string \<Rightarrow> string \<Rightarrow> (dtaq_error, request) res" where
  "buildQueueOnlyRequest G reqRepID library name =
     fmap_res (dtaq_request reqRepID 20) (queueLibraryBytes G library name)"

definition buildExchangeAttributesRequest :: request where
  "buildExchangeAttributesRequest = dtaq_request 0x0000 6 (be32 1 @ [0, 0])"

definition queue_type_byte :: "create_options \<Rightarrow> byte" where
  "queue_type_byte opts =
     (if co_Keyed opts then 0xF2 else if co_FIFO opts then 0xF0 else 0xF1)"

definition buildCreateRequest ::
  "'a golib_scheme \<Rightarrow> string \<Rightarrow> string \<Rightarrow> create_options \<Rightarrow> (dtaq_error, request) res" where
  "buildCreateRequest G library name opts =
     bind_res (queueLibraryBytes G library name) (\<lambda>ql.
     bind_res (wrap_err TextDescription (EncodeEBCDICPadded (co_TextDescription opts) 50)) (\<lambda>text.
     let pubAuth = (if co_PublicAuthority opts = 0 then AuthorityUse else co_PublicAuthority opts);
         keyLength = (if \<not> co_Keyed opts then 0 else co_KeyLength opts)
     in Ok (dtaq_request 0x0003 80
          (fit 20 ql @ be32 (co_MaxEntryLength opts)
           @ [pubAuth, flagByte (co_SaveSenderInformation opts), queue_type_byte opts]
           @ be16 keyLength
           @ [flagByte (co_ForceToAuxiliaryStorage opts)]
           @ fit 50 text))))"

definition buildClearRequest ::
  "'a golib_scheme \<Rightarrow> string \<Rightarrow> string \<Rightarrow> bytes \<Rightarrow> bool \<Rightarrow> (dtaq_error, request) res" where
  "buildClearRequest G library name key hasKey =
     bind_res (queueLibraryBytes G library name) (\<lambda>ql.
     Ok (dtaq_request 0x0006 21
          (ql @ [flagByte hasKey]
           @ (if hasKey then EncodeParams [\<lparr>CodePoint = 0x5002, Data = key\<rparr>] else []))))"

definition buildWriteRequest ::
  "'a golib_scheme \<Rightarrow> string \<Rightarrow> string \<Rightarrow> bytes option \<Rightarrow> bytes \<Rightarrow> (dtaq_error, request) res" where
  "buildWriteRequest G library name key entry =
     bind_res (queueLibraryBytes G library name) (\<lambda>ql.
     Ok (dtaq_request 0x0005 22
          (ql @ [flagByte (key \<noteq> None), 0x01]
           @ EncodeParams [\<lparr>CodePoint = 0x5001, Data = entry\<rparr>]
           @ (case key of Some k \<Rightarrow> EncodeParams [\<lparr>CodePoint = 0x5002, Data = k\<rparr>] | None \<Rightarrow> []))))"

definition search_bytes :: "bool \<Rightarrow> search_type \<Rightarrow> (dtaq_error, bytes) res" where
  "search_bytes keyed searchType =
     (if keyed then
        bind_res (wrap_err SearchTypeChars (EncodeEBCDIC searchType)) (\<lambda>st.
        if length st \<noteq> 2 then Err (SearchTypeLength searchType) else Ok st)
      else Ok [0, 0])"

definition buildReadRequest ::
  "'a golib_scheme \<Rightarrow> string \<Rightarrow> string \<Rightarrow> bool \<Rightarrow> search_type \<Rightarrow> bytes \<Rightarrow> 32 word \<Rightarrow> bool
   \<Rightarrow> (dtaq_error, request) res" where
  "buildReadRequest G library name keyed searchType key waitSeconds peek =
     bind_res (queueLibraryBytes G library name) (\<lambda>ql.
     bind_res (search_bytes keyed searchType) (\<lambda>st.
     Ok (dtaq_request 0x0002 28
          (fit 20 ql @ [flagByte keyed] @ st @ be32 waitSeconds @ [flagByte peek]
           @ (if keyed then EncodeParams [\<lparr>CodePoint = 0x5002, Data = key\<rparr>] else [])))))"

section \<open>Replies\<close>

text \<open>The message that may follow the return code of a common reply.\<close>

definition common_message :: "bytes \<Rightarrow> (dtaq_error, string \<times> string) res" where
  "common_message body =
     (if 8 \<le> length body then
        bind_res (get32 body 2) (\<lambda>ll.
        let msgLen = int (unat ll) - 6 in
        if msgLen > 0 \<and> 8 + msgLen \<le> int (length body) then
          bind_res (go_slice body 8 (8 + nat msgLen)) (\<lambda>msg.
          if 9 \<le> length msg then
            bind_res (go_slice msg 0 7) (\<lambda>mid.
            bind_res (slice_from msg 9) (\<lambda>text.
            Ok (TrimRightBlanks (DecodeEBCDICLossy mid), DecodeEBCDICLossy text)))
          else Ok ([], []))
        else Ok ([], []))
      else Ok ([], []))"

definition checkCommonReply :: "reply \<Rightarrow> (dtaq_error, unit) res" where
  "checkCommonReply reply =
     (if length (rp_Body reply) < 2 then Err NoReturnCode
      else bind_res (get16 (rp_Body reply) 0) (\<lambda>rc.
        if rc = 0xF000 then Ok ()
        else bind_res (common_message (rp_Body reply)) (\<lambda>(mid, text).
          Err (ServerError \<lparr>se_RC = rc, se_MessageID = mid, se_Message = text\<rparr>))))"

text \<open>\<^verbatim>\<open>nil\<close> without an error (no entry available) is \<open>Ok None\<close>.\<close>

definition parseReadReply :: "reply \<Rightarrow> (dtaq_error, entry option) res" where
  "parseReadReply reply =
     (if rp_ReqRepID reply = 0x8002 then
        (case checkCommonReply reply of
           Err (ServerError e) \<Rightarrow> if se_RC e = 0xF006 then Ok None else Err (ServerError e)
         | Err e \<Rightarrow> Err e
         | Ok _ \<Rightarrow> Ok None
         | Panic \<Rightarrow> Panic)
      else if rp_ReqRepID reply = 0x8003 then
        (if length (rp_Body reply) < 38 then Err ReadMissing
         else
           bind_res (go_slice (rp_Body reply) 2 38) (\<lambda>sender.
           bind_res (get8 sender 0) (\<lambda>s0.
           bind_res (slice_from (rp_Body reply) 38) (\<lambda>b.
           bind_res (wrap_err ReadParams (DecodeParams b)) (\<lambda>params.
           Ok (Some
             \<lparr>en_Data = (case Find params 0x5001 of Some d \<Rightarrow> d | None \<Rightarrow> []),
              en_Key = (case Find params 0x5002 of Some d \<Rightarrow> d | None \<Rightarrow> []),
              en_SenderInformation = (if s0 \<noteq> 0x40 then sender else [])\<rparr>))))))
      else Err (UnexpectedOpcode (rp_ReqRepID reply)))"

definition parseAttributesReply :: "reply \<Rightarrow> (dtaq_error, queue_attributes option) res" where
  "parseAttributesReply reply =
     (if rp_ReqRepID reply = 0x8002 then fmap_res (\<lambda>_. None) (checkCommonReply reply)
      else if rp_ReqRepID reply = 0x8001 then
        (if length (rp_Body reply) < 61 then Err AttributesMissingFields
         else
           bind_res (get8 (rp_Body reply) 7) (\<lambda>t.
           let qType = t AND 0x0F in
           bind_res (get32 (rp_Body reply) 2) (\<lambda>maxLen.
           bind_res (get8 (rp_Body reply) 6) (\<lambda>save.
           bind_res (get16 (rp_Body reply) 8) (\<lambda>keyLen.
           bind_res (get8 (rp_Body reply) 10) (\<lambda>force.
           bind_res (go_slice (rp_Body reply) 11 61) (\<lambda>text.
           Ok (Some
             \<lparr>qa_MaxEntryLength = maxLen, qa_SaveSenderInformation = (save = 0xF1),
              qa_Keyed = (qType = 2), qa_FIFO = (qType = 0), qa_KeyLength = keyLen,
              qa_ForceToAuxiliaryStorage = (force = 0xF1),
              qa_TextDescription = TrimRightBlanks (DecodeEBCDICLossy text)\<rparr>))))))))
      else Err (UnexpectedOpcode (rp_ReqRepID reply)))"

section \<open>Operations on a queue\<close>

record queue =
  q_library :: string
  q_name :: string

text \<open>Build the request, call, interpret the reply: the shape of every method of \<^verbatim>\<open>Queue\<close>.\<close>

definition queue_op ::
  "queue \<Rightarrow> string \<Rightarrow> (dtaq_error, request) res \<Rightarrow> (reply \<Rightarrow> (dtaq_error, 'a) res)
   \<Rightarrow> (connection, dtaq_error, 'a) op" where
  "queue_op q what build parse =
     bind_op (ret_op build) (\<lambda>req.
     bind_op (wrap_op (DtaqCall what (q_library q) (q_name q)) (Call req)) (\<lambda>reply.
     ret_op (parse reply)))"

definition Create :: "'a golib_scheme \<Rightarrow> queue \<Rightarrow> create_options \<Rightarrow> (connection, dtaq_error, unit) op" where
  "Create G q opts =
     queue_op q ''create'' (buildCreateRequest G (q_library q) (q_name q) opts) checkCommonReply"

definition Delete :: "'a golib_scheme \<Rightarrow> queue \<Rightarrow> (connection, dtaq_error, unit) op" where
  "Delete G q =
     queue_op q ''delete'' (buildQueueOnlyRequest G 0x0004 (q_library q) (q_name q)) checkCommonReply"

definition clear_queue :: "'a golib_scheme \<Rightarrow> queue \<Rightarrow> bytes \<Rightarrow> bool \<Rightarrow> (connection, dtaq_error, unit) op" where
  "clear_queue G q key hasKey =
     queue_op q ''clear'' (buildClearRequest G (q_library q) (q_name q) key hasKey) checkCommonReply"

definition Clear :: "'a golib_scheme \<Rightarrow> queue \<Rightarrow> (connection, dtaq_error, unit) op" where
  "Clear G q = clear_queue G q [] False"

definition ClearKey :: "'a golib_scheme \<Rightarrow> queue \<Rightarrow> bytes \<Rightarrow> (connection, dtaq_error, unit) op" where
  "ClearKey G q key = clear_queue G q key True"

definition write_queue ::
  "'a golib_scheme \<Rightarrow> queue \<Rightarrow> bytes option \<Rightarrow> bytes \<Rightarrow> (connection, dtaq_error, unit) op" where
  "write_queue G q key data =
     queue_op q ''write'' (buildWriteRequest G (q_library q) (q_name q) key data) checkCommonReply"

definition Write :: "'a golib_scheme \<Rightarrow> queue \<Rightarrow> bytes \<Rightarrow> (connection, dtaq_error, unit) op" where
  "Write G q data = write_queue G q None data"

definition WriteKeyed ::
  "'a golib_scheme \<Rightarrow> queue \<Rightarrow> bytes option \<Rightarrow> bytes \<Rightarrow> (connection, dtaq_error, unit) op" where
  "WriteKeyed G q key data = write_queue G q key data"

definition Read :: "'a golib_scheme \<Rightarrow> queue \<Rightarrow> 32 word \<Rightarrow> bool \<Rightarrow> (connection, dtaq_error, entry option) op" where
  "Read G q waitSeconds peek =
     queue_op q ''read''
       (buildReadRequest G (q_library q) (q_name q) False [] [] waitSeconds peek) parseReadReply"

definition ReadKeyed ::
  "'a golib_scheme \<Rightarrow> queue \<Rightarrow> search_type \<Rightarrow> bytes \<Rightarrow> 32 word \<Rightarrow> bool
   \<Rightarrow> (connection, dtaq_error, entry option) op" where
  "ReadKeyed G q searchType key waitSeconds peek =
     queue_op q ''read keyed''
       (buildReadRequest G (q_library q) (q_name q) True searchType key waitSeconds peek)
       parseReadReply"

definition Attributes :: "'a golib_scheme \<Rightarrow> queue \<Rightarrow> (connection, dtaq_error, queue_attributes option) op" where
  "Attributes G q =
     queue_op q ''attributes'' (buildQueueOnlyRequest G 0x0001 (q_library q) (q_name q))
       parseAttributesReply"

section \<open>Connecting\<close>

definition dtaq_exchangeAttributes :: "(connection, dtaq_error, unit) op" where
  "dtaq_exchangeAttributes =
     bind_op (wrap_op DtaqAttributesCall (Call buildExchangeAttributesRequest)) (\<lambda>reply.
     ret_op (if rp_ReqRepID reply = 0x8002 then checkCommonReply reply else Ok ()))"

definition dtaq_Connect ::
  "'a crypto_scheme \<Rightarrow> (dial_options \<Rightarrow> io_event list option) \<Rightarrow> 64 word \<Rightarrow> dial_options
   \<Rightarrow> string \<Rightarrow> string \<Rightarrow> (dtaq_error, unit) res \<times> connection option" where
  "dtaq_Connect C net millis opts userID password =
     connect_with net (default_port PortDataQueuePlain PortDataQueueSecure opts) DtaqDial
       (bind_op (wrap_op DtaqLogon (Logon C millis ServerDataQueue userID password)) (\<lambda>_.
        dtaq_exchangeAttributes))"

definition client_Queue :: "string \<Rightarrow> string \<Rightarrow> queue" where
  "client_Queue library name = \<lparr>q_library = library, q_name = name\<rparr>"

definition dtaq_Close :: "connection \<Rightarrow> connection" where
  "dtaq_Close c = close_conn c"

section \<open>Lemmas\<close>

text \<open>The operations of a queue as data, to state what holds for all of them at once.\<close>

datatype queue_call =
    CCreate create_options | CDelete | CClear | CClearKey bytes
  | CWrite bytes | CWriteKeyed "bytes option" bytes
  | CRead "32 word" bool | CReadKeyed search_type bytes "32 word" bool | CAttributes

fun run_call :: "'a golib_scheme \<Rightarrow> queue \<Rightarrow> queue_call \<Rightarrow> connection
    \<Rightarrow> (dtaq_error, unit) res \<times> connection" where
  "run_call G q (CCreate opts) c = Create G q opts c"
| "run_call G q CDelete c = Delete G q c"
| "run_call G q CClear c = Clear G q c"
| "run_call G q (CClearKey k) c = ClearKey G q k c"
| "run_call G q (CWrite d) c = Write G q d c"
| "run_call G q (CWriteKeyed k d) c = WriteKeyed G q k d c"
| "run_call G q (CRead w p) c = apfst (fmap_res (\<lambda>_. ())) (Read G q w p c)"
| "run_call G q (CReadKeyed st k w p) c = apfst (fmap_res (\<lambda>_. ())) (ReadKeyed G q st k w p c)"
| "run_call G q CAttributes c = apfst (fmap_res (\<lambda>_. ())) (Attributes G q c)"

fun call_request :: "'a golib_scheme \<Rightarrow> queue \<Rightarrow> queue_call \<Rightarrow> (dtaq_error, request) res" where
  "call_request G q (CCreate opts) = buildCreateRequest G (q_library q) (q_name q) opts"
| "call_request G q CDelete = buildQueueOnlyRequest G 0x0004 (q_library q) (q_name q)"
| "call_request G q CClear = buildClearRequest G (q_library q) (q_name q) [] False"
| "call_request G q (CClearKey k) = buildClearRequest G (q_library q) (q_name q) k True"
| "call_request G q (CWrite d) = buildWriteRequest G (q_library q) (q_name q) None d"
| "call_request G q (CWriteKeyed k d) = buildWriteRequest G (q_library q) (q_name q) k d"
| "call_request G q (CRead w p) = buildReadRequest G (q_library q) (q_name q) False [] [] w p"
| "call_request G q (CReadKeyed st k w p) = buildReadRequest G (q_library q) (q_name q) True st k w p"
| "call_request G q CAttributes = buildQueueOnlyRequest G 0x0001 (q_library q) (q_name q)"

text \<open>The variable part a call sends: its data and its key.\<close>

fun call_params :: "queue_call \<Rightarrow> param list" where
  "call_params (CClearKey k) = [\<lparr>CodePoint = 0x5002, Data = k\<rparr>]"
| "call_params (CWrite d) = [\<lparr>CodePoint = 0x5001, Data = d\<rparr>]"
| "call_params (CWriteKeyed k d) = \<lparr>CodePoint = 0x5001, Data = d\<rparr>
     # (case k of Some k \<Rightarrow> [\<lparr>CodePoint = 0x5002, Data = k\<rparr>] | None \<Rightarrow> [])"
| "call_params (CReadKeyed st k w p) = [\<lparr>CodePoint = 0x5002, Data = k\<rparr>]"
| "call_params _ = []"

text \<open>The 20 bytes that name the queue: name and library, in upper case and padded.\<close>

definition names_queue :: "'a golib_scheme \<Rightarrow> queue \<Rightarrow> bytes \<Rightarrow> bool" where
  "names_queue G q b \<longleftrightarrow>
     DecodeEBCDICLossy (take 10 b)
       = ToUpper G (q_name q) @ blanks (10 - length (ToUpper G (q_name q)))
     \<and> DecodeEBCDICLossy (take 10 (drop 10 b))
       = ToUpper G (q_library q) @ blanks (10 - length (ToUpper G (q_library q)))"

lemma queueLibraryBytes_no_panic [simp]: "queueLibraryBytes G l n \<noteq> Panic"
  by (auto simp: queueLibraryBytes_def bind_res_Panic_iff)

lemma queueLibraryBytes_OkD:
  assumes "queueLibraryBytes G (q_library q) (q_name q) = Ok ql"
  shows "length ql = 20" "names_queue G q (ql @ rest)"
proof -
  obtain n l where nl: "EncodeEBCDICPadded (ToUpper G (q_name q)) 10 = Ok n"
    "EncodeEBCDICPadded (ToUpper G (q_library q)) 10 = Ok l" "ql = n @ l"
    using assms by (auto simp: queueLibraryBytes_def bind_res_Ok_iff EncodeEBCDICPadded_length)
  moreover have "length n = 10" "length l = 10"
    using nl by (simp_all add: EncodeEBCDICPadded_length)
  ultimately show "length ql = 20" "names_queue G q (ql @ rest)"
    by (auto simp: names_queue_def EncodeEBCDICPadded_Ok_iff)
qed

lemma search_bytes_no_panic [simp]: "search_bytes k st \<noteq> Panic"
  by (auto simp: search_bytes_def bind_res_Panic_iff)

lemma search_bytes_OkD: "search_bytes k st = Ok b \<Longrightarrow> length b = 2"
  by (auto simp: search_bytes_def bind_res_Ok_iff split: if_splits)

lemma call_request_no_panic [simp]: "call_request G q call \<noteq> Panic"
  by (cases call)
    (auto simp: buildCreateRequest_def buildQueueOnlyRequest_def buildClearRequest_def
      buildWriteRequest_def buildReadRequest_def bind_res_Panic_iff Let_def)

lemma call_request_layout:
  assumes "call_request G q call = Ok req"
  shows "\<exists>fixed. rq_Body req = fixed @ EncodeParams (call_params call)
    \<and> length fixed = unat (rq_TemplateLen req) \<and> names_queue G q (rq_Body req)
    \<and> rq_ServerID req = ServerDataQueue"
proof -
  obtain ql where ql: "queueLibraryBytes G (q_library q) (q_name q) = Ok ql"
    using assms
    by (cases call)
      (auto simp: buildCreateRequest_def buildQueueOnlyRequest_def buildClearRequest_def
        buildWriteRequest_def buildReadRequest_def bind_res_Ok_iff)
  note names = queueLibraryBytes_OkD [OF ql]
  show ?thesis
  proof (cases call)
    case (CCreate opts)
    with assms ql names show ?thesis
      by (auto simp: buildCreateRequest_def dtaq_request_def bind_res_Ok_iff Let_def)
  next
    case (CReadKeyed st k w p)
    with assms ql obtain s where "search_bytes True st = Ok s" "length s = 2"
      by (auto simp: buildReadRequest_def bind_res_Ok_iff dest: search_bytes_OkD)
    with CReadKeyed assms ql names show ?thesis
      by (intro exI [of _ "ql @ [flagByte True] @ s @ be32 w @ [flagByte p]"])
        (auto simp: buildReadRequest_def dtaq_request_def)
  next
    case (CWriteKeyed k d)
    with assms ql names show ?thesis
      by (intro exI [of _ "ql @ [flagByte (k \<noteq> None), 0x01]"])
        (auto simp: buildWriteRequest_def dtaq_request_def split: option.split)
  next
    case (CWrite d)
    with assms ql names show ?thesis
      by (intro exI [of _ "ql @ [flagByte False, 0x01]"])
        (auto simp: buildWriteRequest_def dtaq_request_def)
  next
    case (CClearKey k)
    with assms ql names show ?thesis
      by (intro exI [of _ "ql @ [flagByte True]"])
        (auto simp: buildClearRequest_def dtaq_request_def)
  qed (use assms ql names in \<open>auto simp: buildQueueOnlyRequest_def buildClearRequest_def
      buildReadRequest_def search_bytes_def dtaq_request_def names_queue_def\<close>)
qed

lemma common_message_no_panic [simp]: "common_message b \<noteq> Panic"
  by (auto simp: common_message_def Let_def bind_res_Panic_iff split: if_splits dest!: slice_Ok_length)

lemma common_message_not_Err [simp]: "common_message b \<noteq> Err e"
  by (auto simp: common_message_def Let_def bind_res_Err_iff split: if_splits)

lemma checkCommonReply_no_panic [simp]: "checkCommonReply r \<noteq> Panic"
  by (auto simp: checkCommonReply_def bind_res_Panic_iff split: if_splits prod.splits)

lemma checkCommonReply_Ok_iff:
  "checkCommonReply r = Ok () \<longleftrightarrow> (\<exists>b. rp_Body r = be16 0xF000 @ b)"
proof
  assume "checkCommonReply r = Ok ()"
  then have "get16 (rp_Body r) 0 = (Ok 0xF000 :: (dtaq_error, 16 word) res)"
    by (auto simp: checkCommonReply_def bind_res_Ok_iff split: if_splits prod.splits)
  then have "take 2 (rp_Body r) = be16 0xF000" by (simp add: get16_Ok_iff)
  then show "\<exists>b. rp_Body r = be16 0xF000 @ b" by (metis append_take_drop_id)
qed (auto simp: checkCommonReply_def wire_simps)

lemma checkCommonReply_ErrD:
  assumes "checkCommonReply r = Err e" "2 \<le> length (rp_Body r)"
  shows "\<exists>se b. e = ServerError se \<and> rp_Body r = be16 (se_RC se) @ b"
proof -
  obtain rc mid msg where "get16 (rp_Body r) 0 = (Ok rc :: (dtaq_error, 16 word) res)"
    "e = ServerError \<lparr>se_RC = rc, se_MessageID = mid, se_Message = msg\<rparr>"
    using assms by (auto simp: checkCommonReply_def bind_res_Err_iff split: if_splits prod.splits)
  then show ?thesis
    by (intro exI [of _ "\<lparr>se_RC = rc, se_MessageID = mid, se_Message = msg\<rparr>"] exI [of _ "drop 2 (rp_Body r)"])
      (simp add: get16_Ok_iff, metis append_take_drop_id drop_0)
qed

lemma checkCommonReply_rc:
  assumes "rp_Body r = be16 rc @ b"
  shows "\<exists>mid text. checkCommonReply r = (if rc = 0xF000 then Ok () else
    Err (ServerError \<lparr>se_RC = rc, se_MessageID = mid, se_Message = text\<rparr>))"
proof -
  obtain mid msg where "common_message (rp_Body r) = Ok (mid, msg)"
    by (cases "common_message (rp_Body r)") auto
  with assms show ?thesis by (simp add: checkCommonReply_def wire_simps)
qed

lemma split_rc: "2 \<le> length b \<Longrightarrow> \<exists>rc b'. b = be16 rc @ b'"
proof -
  assume "2 \<le> length b"
  then obtain x y t where "b = x # y # t" by (cases b; cases "tl b") auto
  then show ?thesis by (intro exI [of _ "u16 x y"] exI [of _ t]) simp
qed

lemma parseReadReply_no_panic [simp]: "parseReadReply r \<noteq> Panic"
  by (auto simp: parseReadReply_def bind_res_Panic_iff DecodeParams_no_panic
      dest: slice_Ok_length split: res.splits dtaq_error.splits)

lemma parseReadReply_None_iff:
  "parseReadReply r = Ok None \<longleftrightarrow>
   rp_ReqRepID r = 0x8002 \<and> (\<exists>rc b. rp_Body r = be16 rc @ b \<and> rc \<in> {0xF000, 0xF006})"
proof (cases "rp_ReqRepID r = 0x8002 \<and> 2 \<le> length (rp_Body r)")
  case True
  then obtain rc b where b: "rp_Body r = be16 rc @ b" using split_rc by blast
  obtain mid msg where "checkCommonReply r = (if rc = 0xF000 then Ok () else
      Err (ServerError \<lparr>se_RC = rc, se_MessageID = mid, se_Message = msg\<rparr>))"
    using checkCommonReply_rc [OF b] by blast
  moreover have codes: "(\<exists>rc b. rp_Body r = be16 rc @ b \<and> rc \<in> {0xF000, 0xF006}) \<longleftrightarrow> rc \<in> {0xF000, 0xF006}"
    using b by auto
  ultimately show ?thesis using True unfolding codes by (simp add: parseReadReply_def)
next
  case False
  then show ?thesis
    by (auto simp: parseReadReply_def checkCommonReply_def bind_res_Ok_iff split: if_splits)
qed

lemma parseReadReply_Some_iff:
  "parseReadReply r = Ok (Some e) \<longleftrightarrow>
   rp_ReqRepID r = 0x8003 \<and> (\<exists>pre sender ps. rp_Body r = pre @ sender @ EncodeParams ps
     \<and> length pre = 2 \<and> length sender = 36 \<and> list_all param_fits ps
     \<and> e = \<lparr>en_Data = (case Find ps 0x5001 of Some d \<Rightarrow> d | None \<Rightarrow> []),
            en_Key = (case Find ps 0x5002 of Some d \<Rightarrow> d | None \<Rightarrow> []),
            en_SenderInformation = (if hd sender \<noteq> 0x40 then sender else [])\<rparr>)"
  (is "?l \<longleftrightarrow> ?r")
proof
  assume ?l
  then have id: "rp_ReqRepID r = 0x8003" and len: "38 \<le> length (rp_Body r)"
    by (auto simp: parseReadReply_def split: if_splits res.splits dtaq_error.splits)
  then obtain s0 ps where
    ps: "DecodeParams (drop 38 (rp_Body r)) = Ok ps"
    and s0: "get8 (take 36 (drop 2 (rp_Body r))) 0 = (Ok s0 :: (dtaq_error, byte) res)"
    and e: "e = \<lparr>en_Data = (case Find ps 0x5001 of Some d \<Rightarrow> d | None \<Rightarrow> []),
            en_Key = (case Find ps 0x5002 of Some d \<Rightarrow> d | None \<Rightarrow> []),
            en_SenderInformation = (if s0 \<noteq> 0x40 then take 36 (drop 2 (rp_Body r)) else [])\<rparr>"
    using \<open>?l\<close>
    by (auto simp: parseReadReply_def bind_res_Ok_iff go_slice_def slice_from_def)
  have "rp_Body r = take 2 (rp_Body r) @ take 36 (drop 2 (rp_Body r)) @ EncodeParams ps"
  proof -
    have "drop 36 (drop 2 (rp_Body r)) = EncodeParams ps" using DecodeParams_OkD [OF ps] by simp
    then show ?thesis by (metis append_take_drop_id)
  qed
  moreover have "s0 = hd (take 36 (drop 2 (rp_Body r)))"
    using s0 len by (auto simp: get8_def hd_conv_nth split: if_splits)
  ultimately show ?r
    using id e len DecodeParams_OkD [OF ps]
    by (intro conjI exI [of _ "take 2 (rp_Body r)"] exI [of _ "take 36 (drop 2 (rp_Body r))"] exI [of _ ps]) auto
next
  assume ?r
  then obtain pre sender ps where b: "rp_Body r = pre @ sender @ EncodeParams ps"
    "length pre = 2" "length sender = 36" "list_all param_fits ps"
    and e: "e = \<lparr>en_Data = (case Find ps 0x5001 of Some d \<Rightarrow> d | None \<Rightarrow> []),
            en_Key = (case Find ps 0x5002 of Some d \<Rightarrow> d | None \<Rightarrow> []),
            en_SenderInformation = (if hd sender \<noteq> 0x40 then sender else [])\<rparr>"
    and id: "rp_ReqRepID r = 0x8003" by blast
  have "get8 sender 0 = (Ok (hd sender) :: (dtaq_error, byte) res)"
    using b(3) by (cases sender) (auto simp: get8_def)
  then show ?l
    using b e id DecodeParams_encode [OF b(4)] by (simp add: parseReadReply_def wire_simps)
qed

lemma parseAttributesReply_no_panic [simp]: "parseAttributesReply r \<noteq> Panic"
  by (auto simp: parseAttributesReply_def bind_res_Panic_iff Let_def)

lemma queue_op_never_panics [op_rules]:
  "build \<noteq> Panic \<Longrightarrow> (\<And>r. parse r \<noteq> Panic) \<Longrightarrow> never_panics (queue_op q what build parse)"
  unfolding queue_op_def by (intro op_rules)

lemma queue_op_outcome:
  assumes "queue_op q what build parse c = (r, c')" "build \<noteq> Panic" "\<And>r. parse r \<noteq> Panic"
  shows "r \<noteq> Panic \<and>
    ((\<forall>x. r \<noteq> Ok x) \<and> written c' = written c
     \<or> (\<exists>req. build = Ok req \<and> written c' = written c @ [frame_for c' req]))"
proof -
  have np: "r \<noteq> Panic"
    using queue_op_never_panics [of build parse q what] assms
    unfolding never_panics_def by (metis fst_conv)
  from assms(1) show ?thesis unfolding queue_op_def
  proof (cases rule: bind_op_cases)
    case (fails e)
    then show ?thesis by simp
  next
    case panics
    then show ?thesis using np by simp
  next
    case (continues req c1)
    then have req: "build = Ok req" "c1 = c" by simp_all
    from continues(2) show ?thesis
    proof (cases rule: bind_op_cases)
      case (fails e)
      then show ?thesis using req by (auto simp: wrap_op_Err_iff dest!: wire.attempted)
    next
      case panics
      then show ?thesis using np by simp
    next
      case (continues reply c2)
      then show ?thesis using req np by (auto dest!: wire.answered)
    qed
  qed
qed

lemma run_call_queue_op:
  "\<exists>what parse. (\<forall>r. parse r \<noteq> Panic)
     \<and> run_call G q call = queue_op q what (call_request G q call) parse"
proof -
  have fmap: "apfst (fmap_res f) (queue_op q what b p c) = queue_op q what b (\<lambda>r. fmap_res f (p r)) c"
    for f :: "'z \<Rightarrow> unit" and what b p c
    by (auto simp: queue_op_def bind_op.simps ret_op_def wrap_op_def apfst_def map_prod_def
        split: prod.splits res.splits)
  let ?p = "\<lambda>call. case call of
      CRead w p \<Rightarrow> (\<lambda>r. fmap_res (\<lambda>_. ()) (parseReadReply r))
    | CReadKeyed st k w p \<Rightarrow> (\<lambda>r. fmap_res (\<lambda>_. ()) (parseReadReply r))
    | CAttributes \<Rightarrow> (\<lambda>r. fmap_res (\<lambda>_. ()) (parseAttributesReply r))
    | _ \<Rightarrow> checkCommonReply"
  have "\<exists>what. run_call G q call = queue_op q what (call_request G q call) (?p call)"
    by (cases call)
      (auto simp: fun_eq_iff Create_def Delete_def Clear_def ClearKey_def clear_queue_def Write_def
        WriteKeyed_def write_queue_def Read_def ReadKeyed_def Attributes_def fmap)
  moreover have "?p call r \<noteq> Panic" for r by (cases call) auto
  ultimately show ?thesis by blast
qed

lemma run_call_outcome:
  assumes "run_call G q call c = (r, c')"
  shows "r \<noteq> Panic \<and>
    ((\<forall>x. r \<noteq> Ok x) \<and> written c' = written c
     \<or> (\<exists>req. call_request G q call = Ok req \<and> written c' = written c @ [frame_for c' req]))"
proof -
  obtain what parse where "\<And>r. parse r \<noteq> Panic"
    "run_call G q call = queue_op q what (call_request G q call) parse"
    using run_call_queue_op [of G q call] by blast
  with assms queue_op_outcome [of q what "call_request G q call" parse c r c'] show ?thesis by simp
qed

lemma run_call_machine:
  "\<exists>new. written (snd (run_call G q call c)) = written c @ new \<and> length new \<le> 1"
  using run_call_outcome [of G q call c] by (cases "run_call G q call c") auto

interpretation queue_traffic: logging_machine "\<lambda>call c. snd (run_call G q call c)" written for G q
  by unfold_locales (rule run_call_machine)

lemma dtaq_exchangeAttributes_np [op_rules]: "never_panics dtaq_exchangeAttributes"
  unfolding dtaq_exchangeAttributes_def by (intro op_rules) simp

lemma dtaq_exchangeAttributes_adds: "adds_at_most written 1 dtaq_exchangeAttributes"
  unfolding dtaq_exchangeAttributes_def by (rule wire.round_trip_adds)

section \<open>Properties\<close>

text \<open>
  C26. What a queue request means. Every request the package builds is addressed to the
  data-queue server and starts with the queue's name and library, in upper case and blank
  padded, as EBCDIC decodes them; its template length is exactly the size of its fixed
  part; and what follows it decodes as LL/CP entries to exactly the data (5001) and the
  key (5002) of the call, no entry more or less.
\<close>
theorem queue_request_decodes:
  assumes "call_request G q call = Ok req" and "list_all param_fits (call_params call)"
  shows "rq_ServerID req = ServerDataQueue \<and> names_queue G q (rq_Body req)
    \<and> unat (rq_TemplateLen req) \<le> length (rq_Body req)
    \<and> DecodeParams (drop (unat (rq_TemplateLen req)) (rq_Body req)) = Ok (call_params call)"
proof -
  obtain pre where pre: "rq_Body req = pre @ EncodeParams (call_params call)"
    "length pre = unat (rq_TemplateLen req)"
    and names: "names_queue G q (rq_Body req)" "rq_ServerID req = ServerDataQueue"
    using call_request_layout [OF assms(1)] by blast
  have "unat (rq_TemplateLen req) \<le> length (rq_Body req)"
    "drop (unat (rq_TemplateLen req)) (rq_Body req) = EncodeParams (call_params call)"
    using pre by (simp_all flip: pre(2))
  with names DecodeParams_encode [OF assms(2)] show ?thesis by simp
qed

theorem queue_request_decodes_witness:
  "\<exists>req. call_request toy_crypto \<lparr>q_library = ''LIB'', q_name = ''Q''\<rparr> (CWrite [1, 2]) = Ok req
    \<and> DecodeParams (drop (unat (rq_TemplateLen req)) (rq_Body req)) = Ok [\<lparr>CodePoint = 0x5001, Data = [1, 2]\<rparr>]"
proof -
  let ?q = "\<lparr>q_library = ''LIB'', q_name = ''Q''\<rparr>"
  have up: "ToUpper toy_crypto ''LIB'' = ''LIB''" "ToUpper toy_crypto ''Q'' = ''Q''"
    by (simp_all add: ToUpper_id ascii_upper_def)
  have enc: "\<exists>b. EncodeEBCDICPadded ''LIB'' 10 = Ok b" "\<exists>b. EncodeEBCDICPadded ''Q'' 10 = Ok b"
    by (simp_all add: EncodeEBCDICPadded_total simple_char_def)
  obtain req where "call_request toy_crypto ?q (CWrite [1, 2]) = Ok req"
    using enc by (auto simp: buildWriteRequest_def queueLibraryBytes_def up)
  with queue_request_decodes [OF this] show ?thesis by (auto simp: param_fits_def)
qed

text \<open>
  C27. The traffic of a queue operation. Whatever the server sends, an operation on a queue
  returns or fails without a panic. It writes its request at most once: nothing at all when
  the request cannot be built, and exactly that one frame when it succeeds.
\<close>
theorem queue_operation_traffic:
  assumes "run_call G q call c = (r, c')"
  shows "r \<noteq> Panic \<and>
    ((\<forall>x. r \<noteq> Ok x) \<and> written c' = written c
     \<or> (\<exists>req. call_request G q call = Ok req \<and> written c' = written c @ [frame_for c' req]))"
  by (rule run_call_outcome [OF assms])

theorem queue_operation_traffic_witness:
  "let (r, c') = run_call toy_crypto \<lparr>q_library = ''LIB'', q_name = ''Q''\<rparr> CDelete (dialed 0 []) in
   r \<noteq> Panic \<and>
    ((\<forall>x. r \<noteq> Ok x) \<and> written c' = written (dialed 0 [])
     \<or> (\<exists>req. call_request toy_crypto \<lparr>q_library = ''LIB'', q_name = ''Q''\<rparr> CDelete = Ok req
          \<and> written c' = written (dialed 0 []) @ [frame_for c' req]))"
  unfolding Let_def case_prod_beta by (rule queue_operation_traffic) simp

text \<open>
  What a read returns. \<^verbatim>\<open>parseReadReply\<close> never panics; it reports that no entry is
  available exactly for a common reply (opcode 8002) with return code F000 or F006; and it
  returns an entry exactly for a read reply (8003) of 38 fixed bytes followed by LL/CP
  entries, with the first 5001 as the data and the first 5002 as the key.
\<close>
theorem parseReadReply_outcome:
  "parseReadReply r \<noteq> Panic
   \<and> (parseReadReply r = Ok None \<longleftrightarrow>
        rp_ReqRepID r = 0x8002 \<and> (\<exists>rc b. rp_Body r = be16 rc @ b \<and> rc \<in> {0xF000, 0xF006}))
   \<and> (parseReadReply r = Ok (Some e) \<longleftrightarrow>
        rp_ReqRepID r = 0x8003 \<and> (\<exists>pre sender ps. rp_Body r = pre @ sender @ EncodeParams ps
          \<and> length pre = 2 \<and> length sender = 36 \<and> list_all param_fits ps
          \<and> e = \<lparr>en_Data = (case Find ps 0x5001 of Some d \<Rightarrow> d | None \<Rightarrow> []),
                 en_Key = (case Find ps 0x5002 of Some d \<Rightarrow> d | None \<Rightarrow> []),
                 en_SenderInformation = (if hd sender \<noteq> 0x40 then sender else [])\<rparr>))"
  by (intro conjI parseReadReply_no_panic parseReadReply_None_iff parseReadReply_Some_iff)

text \<open>
  Attributes without attributes. When the server answers a request for the attributes
  with a common reply that reports success (8002, F000), \<^verbatim>\<open>Attributes\<close> returns neither
  attributes nor an error, so a caller that checks only the error dereferences \<^verbatim>\<open>nil\<close>. This
  is the only way it does so.
\<close>
theorem Attributes_nil_without_error:
  "parseAttributesReply r = Ok None \<longleftrightarrow> rp_ReqRepID r = 0x8002 \<and> (\<exists>b. rp_Body r = be16 0xF000 @ b)"
proof (cases "rp_ReqRepID r = 0x8002")
  case True
  then have "parseAttributesReply r = Ok None \<longleftrightarrow> checkCommonReply r = Ok ()"
    by (cases "checkCommonReply r") (simp_all add: parseAttributesReply_def)
  with True show ?thesis by (simp add: checkCommonReply_Ok_iff)
next
  case False
  then show ?thesis
    by (auto simp: parseAttributesReply_def bind_res_Ok_iff Let_def split: if_splits)
qed

text \<open>
  Connecting to the data-queue server. A \<^verbatim>\<open>Connect\<close> that fails leaves no open
  connection behind; one that succeeds ran the logon and the exchange of attributes on the
  connection it returns; and either way at most three frames were written.
\<close>
theorem dtaq_Connect_releases:
  assumes "crypto_sizes C" and "dtaq_Connect C net millis opts u p = (r, k)"
  shows "r \<noteq> Panic
    \<and> (\<forall>e. r = Err e \<longrightarrow> k = None \<or> (\<exists>conn. k = Some conn \<and> net_closed conn \<and> length (written conn) \<le> 3))
    \<and> (\<forall>x. r = Ok x \<longrightarrow> (\<exists>conn. k = Some conn \<and> length (written conn) \<le> 3))"
proof -
  let ?h = "bind_op (wrap_op DtaqLogon (Logon C millis ServerDataQueue u p)) (\<lambda>_. dtaq_exchangeAttributes)"
  have "never_panics ?h" by (intro op_rules Logon_never_panics assms(1))
  moreover have "adds_at_most written 3 ?h"
    using adds_at_most_bind [OF adds_at_most_wrap [OF Logon_adds [OF assms(1)]]
        dtaq_exchangeAttributes_adds, of DtaqLogon millis ServerDataQueue u p] by simp
  ultimately show ?thesis
    using connect_with_outcome [OF assms(2)[unfolded dtaq_Connect_def]] by blast
qed

definition local_opts :: dial_options where
  "local_opts = \<lparr>do_Host = ''h'', do_Port = 0, do_TLS = True, do_Timeout = 0, do_IOTimeout = 0\<rparr>"

theorem dtaq_Connect_releases_witness:
  "fst (dtaq_Connect toy_crypto (\<lambda>_. Some []) 1 local_opts ''ME'' ''PW'') \<noteq> Panic"
  using dtaq_Connect_releases [OF toy_crypto_sizes]
  by (cases "dtaq_Connect toy_crypto (\<lambda>_. Some []) 1 local_opts ''ME'' ''PW''") fastforce

end
