(* ===== verification/Signon.thy ===== *)
theory Signon
  imports Logon
begin

text \<open>
  \<^verbatim>\<open>signon/wire.go\<close>, \<^verbatim>\<open>client.go\<close> and \<^verbatim>\<open>errors.go\<close>: the as-signon host server, with its own
  exchange of attributes followed by the request that authenticates. A \<^verbatim>\<open>time.Time\<close> is the
  number of seconds since year 1, so the zero time is 0.
\<close>

section \<open>Time\<close>

text \<open>\<^verbatim>\<open>time.Date\<close> in UTC, which normalises fields that are out of range.\<close>

definition is_leap :: "int \<Rightarrow> bool" where
  "is_leap y \<longleftrightarrow> y mod 4 = 0 \<and> (y mod 100 \<noteq> 0 \<or> y mod 400 = 0)"

definition days_before_year :: "int \<Rightarrow> int" where
  "days_before_year y = 365 * (y - 1) + (y - 1) div 4 - (y - 1) div 100 + (y - 1) div 400"

definition days_before_month :: "int \<Rightarrow> nat \<Rightarrow> int" where
  "days_before_month y m =
     [0, 31, 59, 90, 120, 151, 181, 212, 243, 273, 304, 334] ! m
     + (if is_leap y \<and> 2 \<le> m then 1 else 0)"

definition go_date :: "int \<Rightarrow> int \<Rightarrow> int \<Rightarrow> int \<Rightarrow> int \<Rightarrow> int \<Rightarrow> int" where
  "go_date year month day hour minute sec =
     (let y = year + (month - 1) div 12; m = nat ((month - 1) mod 12);
          days = days_before_year y + days_before_month y m + (day - 1)
      in days * 86400 + hour * 3600 + minute * 60 + sec)"

section \<open>Messages\<close>

record exchange_attributes =
  xa_ServerVersion :: "32 word"
  xa_ServerLevel :: "16 word"
  xa_ServerSeed :: bytes
  xa_PasswordLevel :: int
  xa_JobName :: string
  xa_AAFIndicator :: bool

record signon_info =
  si_CurrentSignonDate :: int
  si_LastSignonDate :: int
  si_ExpirationDate :: int
  si_PasswordExpirationWarningDays :: "32 word"   \<comment> \<open>an \<^verbatim>\<open>int32\<close>\<close>
  si_ServerCCSID :: "32 word"
  si_UserID :: string

datatype signon_error =
    SignonDial dial_error
  | AttributesCall conn_error
  | AttributesTooShort
  | AttributesFailed "32 word"
  | AttributesMissing
  | AttributesParams param_error
  | SignonAuth auth_error
  | SignonUserID ebcdic_error
  | AuthenticateCall conn_error
  | InfoTooShort
  | AuthError "32 word"
  | InfoMissing
  | InfoParams param_error
  | DateTooShort

text \<open>\<^verbatim>\<open>signonRCMessages\<close> and \<^verbatim>\<open>AuthError.Error\<close>, without the formatting of the number.\<close>

definition signonRCMessages :: "32 word \<Rightarrow> string option" where
  "signonRCMessages = map_of
     [(0x00020001, ''unknown user ID''),
      (0x00020002, ''user profile disabled''),
      (0x00020003, ''user ID does not match what the server expected''),
      (0x0003000B, ''incorrect password''),
      (0x0003000C, ''incorrect password; profile will be disabled if repeated''),
      (0x0003000D, ''password expired''),
      (0x0003000E, ''password not valid for a system at this encryption level'')]"

definition auth_error_reason :: "32 word \<Rightarrow> string" where
  "auth_error_reason rc =
     (case signonRCMessages rc of Some msg \<Rightarrow> msg | None \<Rightarrow> ''authentication failed'')"

definition buildExchangeAttributeRequest :: "bytes \<Rightarrow> request" where
  "buildExchangeAttributeRequest clientSeed =
     \<lparr>rq_ServerID = ServerSignon, rq_HeaderID = 0, rq_Correlation = 0, rq_TemplateLen = 0,
      rq_ReqRepID = 0x7003,
      rq_Body = EncodeParams
        [\<lparr>CodePoint = 0x1101, Data = be32 1\<rparr>,
         \<lparr>CodePoint = 0x1102, Data = be16 0\<rparr>,
         \<lparr>CodePoint = 0x1103, Data = clientSeed\<rparr>]\<rparr>"

text \<open>A field of at least \<open>n\<close> bytes, else a default.\<close>

definition field_or :: "param list \<Rightarrow> 16 word \<Rightarrow> nat \<Rightarrow> 'a \<Rightarrow> (bytes \<Rightarrow> ('e, 'a) res) \<Rightarrow> ('e, 'a) res" where
  "field_or params cp n dflt f =
     (case Find params cp of
        Some d \<Rightarrow> if n \<le> length d then f d else Ok dflt
      | None \<Rightarrow> Ok dflt)"

definition parseExchangeAttributeReply :: "reply \<Rightarrow> (signon_error, exchange_attributes) res" where
  "parseExchangeAttributeReply reply =
     (case RC reply of
        None \<Rightarrow> Err AttributesTooShort
      | Some rc \<Rightarrow>
          if rc \<noteq> 0 then Err (AttributesFailed rc)
          else if length (rp_Body reply) < 22 then Err AttributesMissing
          else
            bind_res (get32 (rp_Body reply) 10) (\<lambda>version.
            bind_res (get16 (rp_Body reply) 20) (\<lambda>level.
            bind_res (slice_from (rp_Body reply) 22) (\<lambda>b.
            bind_res (wrap_err AttributesParams (DecodeParams b)) (\<lambda>params.
            bind_res (field_or params 0x1103 8 (replicate 8 0) (\<lambda>d. go_slice d 0 8)) (\<lambda>seed.
            bind_res (field_or params 0x1119 1 0 (\<lambda>d. fmap_res (int \<circ> unat) (get8 d 0))) (\<lambda>pwl.
            bind_res (job_name_field params 0x111F) (\<lambda>job.
            bind_res (field_or params 0x112E 1 False (\<lambda>d. fmap_res (\<lambda>x. x = 0x01) (get8 d 0)))
              (\<lambda>aaf.
            Ok \<lparr>xa_ServerVersion = version, xa_ServerLevel = level, xa_ServerSeed = seed,
                xa_PasswordLevel = pwl, xa_JobName = job, xa_AAFIndicator = aaf\<rparr>)))))))))"

definition buildSignonInfoRequest :: "bytes \<Rightarrow> bytes \<Rightarrow> 16 word \<Rightarrow> request" where
  "buildSignonInfoRequest userIDBytes authBytes serverLevel =
     \<lparr>rq_ServerID = ServerSignon, rq_HeaderID = 0, rq_Correlation = 0, rq_TemplateLen = 1,
      rq_ReqRepID = 0x7004,
      rq_Body = [auth_type authBytes]
        @ EncodeParams [\<lparr>CodePoint = 0x1113, Data = be32 1200\<rparr>]
        @ EncodeParams [\<lparr>CodePoint = 0x1105, Data = authBytes\<rparr>]
        @ EncodeParams [\<lparr>CodePoint = 0x1104, Data = userIDBytes\<rparr>]
        @ (if 5 \<le> serverLevel then EncodeParams [\<lparr>CodePoint = 0x1128, Data = [0x01]\<rparr>] else [])\<rparr>"

definition parseSignonDate :: "bytes \<Rightarrow> (signon_error, int) res" where
  "parseSignonDate d =
     (if length d < 7 then Err DateTooShort
      else
        bind_res (get16 d 0) (\<lambda>year.
        bind_res (get8 d 2) (\<lambda>month.
        bind_res (get8 d 3) (\<lambda>day.
        bind_res (get8 d 4) (\<lambda>hour.
        bind_res (get8 d 5) (\<lambda>minute.
        bind_res (get8 d 6) (\<lambda>sec.
        Ok (go_date (int (unat year)) (int (unat month)) (int (unat day)) (int (unat hour))
              (int (unat minute)) (int (unat sec))))))))))"

text \<open>A date field that does not parse leaves the zero time.\<close>

definition date_field :: "param list \<Rightarrow> 16 word \<Rightarrow> ('e, int) res" where
  "date_field params cp =
     (case Find params cp of
        None \<Rightarrow> Ok 0
      | Some d \<Rightarrow> (case parseSignonDate d of Ok t \<Rightarrow> Ok t | Err e \<Rightarrow> Ok 0 | Panic \<Rightarrow> Panic))"

definition parseSignonInfoReply :: "reply \<Rightarrow> (signon_error, signon_info) res" where
  "parseSignonInfoReply reply =
     (case RC reply of
        None \<Rightarrow> Err InfoTooShort
      | Some rc \<Rightarrow>
          if rc \<noteq> 0 then Err (AuthError rc)
          else if length (rp_Body reply) < 4 then Err InfoMissing
          else
            bind_res (slice_from (rp_Body reply) 4) (\<lambda>b.
            bind_res (wrap_err InfoParams (DecodeParams b)) (\<lambda>params.
            bind_res (date_field params 0x1106) (\<lambda>current.
            bind_res (date_field params 0x1107) (\<lambda>last.
            bind_res (date_field params 0x1108) (\<lambda>expiration.
            bind_res (field_or params 0x1114 4 0 (\<lambda>d. get32 d 0)) (\<lambda>ccsid.
            bind_res (field_or params 0x1104 14 [] (\<lambda>d.
              bind_res (go_slice d 4 14) (\<lambda>u. Ok (TrimRightBlanks (DecodeEBCDIC10 u))))) (\<lambda>user.
            bind_res (field_or params 0x112C 4 0 (\<lambda>d. get32 d 0)) (\<lambda>days.
            Ok \<lparr>si_CurrentSignonDate = current, si_LastSignonDate = last,
                si_ExpirationDate = expiration, si_PasswordExpirationWarningDays = days,
                si_ServerCCSID = ccsid, si_UserID = user\<rparr>)))))))))"

section \<open>The client\<close>

record signon_client =
  sc_conn :: connection
  sc_clientSeed :: bytes
  sc_serverSeed :: bytes
  sc_passwordLvl :: int
  sc_serverLevel :: "16 word"
  sc_jobName :: string

definition new_signon_client :: "connection \<Rightarrow> signon_client" where
  "new_signon_client conn =
     \<lparr>sc_conn = conn, sc_clientSeed = replicate 8 0, sc_serverSeed = replicate 8 0,
      sc_passwordLvl = 0, sc_serverLevel = 0, sc_jobName = []\<rparr>"

definition exchangeAttributes :: "64 word \<Rightarrow> (signon_client, signon_error, unit) op" where
  "exchangeAttributes millis c =
     (let seed = be64 millis in
      case Call (buildExchangeAttributeRequest seed) (sc_conn c) of
        (Err e, conn) \<Rightarrow> (Err (AttributesCall e), c\<lparr>sc_conn := conn\<rparr>)
      | (Panic, conn) \<Rightarrow> (Panic, c\<lparr>sc_conn := conn\<rparr>)
      | (Ok reply, conn) \<Rightarrow>
          (case parseExchangeAttributeReply reply of
             Ok attrs \<Rightarrow>
               (Ok (), c\<lparr>sc_conn := conn, sc_clientSeed := seed,
                  sc_serverSeed := xa_ServerSeed attrs, sc_passwordLvl := xa_PasswordLevel attrs,
                  sc_serverLevel := xa_ServerLevel attrs, sc_jobName := xa_JobName attrs\<rparr>)
           | Err e \<Rightarrow> (Err e, c\<lparr>sc_conn := conn\<rparr>)
           | Panic \<Rightarrow> (Panic, c\<lparr>sc_conn := conn\<rparr>)))"

text \<open>
  \<^verbatim>\<open>Connect\<close>; the second component is the connection it dialed, as it leaves it.
\<close>

definition Connect ::
  "(dial_options \<Rightarrow> io_event list option) \<Rightarrow> 64 word \<Rightarrow> dial_options
   \<Rightarrow> (signon_error, signon_client) res \<times> connection option" where
  "Connect net millis opts =
     (case Dial net (default_port PortSignonPlain PortSignonSecure opts) of
        Err e \<Rightarrow> (Err (SignonDial e), None)
      | Panic \<Rightarrow> (Panic, None)
      | Ok conn \<Rightarrow>
          (case exchangeAttributes millis (new_signon_client conn) of
             (Ok _, c) \<Rightarrow> (Ok c, Some (sc_conn c))
           | (Err e, c) \<Rightarrow> (Err e, Some (close_conn (sc_conn c)))
           | (Panic, c) \<Rightarrow> (Panic, Some (sc_conn c))))"

definition Authenticate ::
  "'a crypto_scheme \<Rightarrow> string \<Rightarrow> string \<Rightarrow> (signon_client, signon_error, signon_info) op" where
  "Authenticate C userID password c =
     bind_op (ret_op (wrap_err SignonAuth
       (EncryptPassword C (sc_passwordLvl c) userID password (sc_clientSeed c) (sc_serverSeed c))))
       (\<lambda>authBytes.
     bind_op (ret_op (wrap_err SignonUserID (EncodeEBCDIC10 (ToUpper C userID)))) (\<lambda>userIDBytes.
     bind_op (on_part sc_conn sc_conn_update (wrap_op AuthenticateCall
       (Call (buildSignonInfoRequest userIDBytes authBytes (sc_serverLevel c))))) (\<lambda>reply.
     ret_op (parseSignonInfoReply reply)))) c"

definition signon_Close :: "signon_client \<Rightarrow> signon_client" where
  "signon_Close c = c\<lparr>sc_conn := close_conn (sc_conn c)\<rparr>"

section \<open>Lemmas\<close>

lemma field_or_no_panic [panic_free]:
  "(\<And>d. n \<le> length d \<Longrightarrow> f d \<noteq> Panic) \<Longrightarrow> field_or params cp n dflt f \<noteq> Panic"
  by (simp add: field_or_def split: option.split)

lemma field_or_not_Err:
  "(\<And>d. n \<le> length d \<Longrightarrow> f d \<noteq> Err e) \<Longrightarrow> field_or params cp n dflt f \<noteq> Err e"
  by (simp add: field_or_def split: option.split)

lemma parseSignonDate_no_panic [panic_free, simp]: "parseSignonDate d \<noteq> Panic"
  by (auto simp: parseSignonDate_def bind_res_Panic_iff)

lemma date_field_Ok: "\<exists>t. date_field params cp = Ok t"
proof (cases "Find params cp")
  case (Some d)
  then show ?thesis
    using parseSignonDate_no_panic [of d] by (cases "parseSignonDate d") (simp_all add: date_field_def)
qed (simp add: date_field_def)

lemma date_field_total [simp]:
  "date_field params cp \<noteq> Panic" "date_field params cp \<noteq> Err e"
  by (metis date_field_Ok res.distinct(3)) (metis date_field_Ok res.distinct(1))

text \<open>A field that is present and long enough is read; nothing about it can fail.\<close>

lemma field_or_Ok:
  assumes "\<And>d. n \<le> length d \<Longrightarrow> \<exists>x. f d = Ok x"
  shows "\<exists>x. field_or params cp n dflt f = Ok x"
  using assms by (auto simp: field_or_def split: option.split)

lemma get32_Ok: "4 \<le> length d \<Longrightarrow> \<exists>w. get32 d 0 = Ok w"
  by (simp add: get32_def)

lemma user_field_Ok:
  "14 \<le> length d \<Longrightarrow> \<exists>u. bind_res (go_slice d 4 14) (\<lambda>u. Ok (TrimRightBlanks (DecodeEBCDIC10 u))) = Ok u"
  by (simp add: go_slice_def)

lemma parse_info_params:
  assumes "DecodeParams b = Ok params"
  shows "\<exists>info. parseSignonInfoReply (r\<lparr>rp_Body := be32 0 @ b\<rparr>) = Ok info"
proof -
  obtain t1 where t1: "date_field params 0x1106 = (Ok t1 :: (signon_error, int) res)"
    by (rule exE [OF date_field_Ok])
  obtain t2 where t2: "date_field params 0x1107 = (Ok t2 :: (signon_error, int) res)"
    by (rule exE [OF date_field_Ok])
  obtain t3 where t3: "date_field params 0x1108 = (Ok t3 :: (signon_error, int) res)"
    by (rule exE [OF date_field_Ok])
  obtain w1 where w1: "field_or params 0x1114 4 0 (\<lambda>d. get32 d 0) = (Ok w1 :: (signon_error, 32 word) res)"
    by (rule exE [OF field_or_Ok [OF get32_Ok]])
  obtain w2 where w2: "field_or params 0x112C 4 0 (\<lambda>d. get32 d 0) = (Ok w2 :: (signon_error, 32 word) res)"
    by (rule exE [OF field_or_Ok [OF get32_Ok]])
  obtain u where u: "field_or params 0x1104 14 [] (\<lambda>d. bind_res (go_slice d 4 14)
      (\<lambda>u. Ok (TrimRightBlanks (DecodeEBCDIC10 u)))) = (Ok u :: (signon_error, string) res)"
    by (rule exE [OF field_or_Ok [OF user_field_Ok]])
  have "RC (r\<lparr>rp_Body := be32 0 @ b\<rparr>) = Some 0"
    by (rule RC_be32) simp
  then show ?thesis
    unfolding parseSignonInfoReply_def
    by (simp add: slice_from_append2 slice_from_0 assms t1 t2 t3 w1 w2 u)
qed

lemma body_after_rc: "RC r = Some w \<Longrightarrow> rp_Body r = be32 w @ drop 4 (rp_Body r)"
  by (metis RC_Some_iff append_take_drop_id)

lemma parse_info_OkD:
  assumes "parseSignonInfoReply r = Ok info"
  shows "\<exists>params. rp_Body r = be32 0 @ EncodeParams params \<and> list_all param_fits params"
proof -
  have rc: "RC r = Some 0"
    using assms by (auto simp: parseSignonInfoReply_def split: option.splits if_splits)
  then obtain params where "DecodeParams (drop 4 (rp_Body r)) = Ok params"
    using assms
    by (auto simp: parseSignonInfoReply_def slice_from_def bind_res_Ok_iff split: if_splits)
  then show ?thesis
    using body_after_rc [OF rc] by (metis DecodeParams_OkD)
qed

lemma parse_info_no_panic [panic_free, simp]: "parseSignonInfoReply r \<noteq> Panic"
  unfolding parseSignonInfoReply_def
  by (cases "RC r"; simp only: option.case; intro panic_free field_or_no_panic)
    (simp_all add: DecodeParams_no_panic)

lemma parse_info_AuthError_iff:
  "parseSignonInfoReply r = Err (AuthError rc) \<longleftrightarrow> RC r = Some rc \<and> rc \<noteq> 0"
proof -
  have wrap: "wrap_err InfoParams m \<noteq> Err (AuthError rc)" for m :: "(param_error, param list) res"
    by (cases m) auto
  show ?thesis
    unfolding parseSignonInfoReply_def
    by (auto simp: bind_res_Err_iff wrap field_or_not_Err split: option.splits if_splits)
qed

lemma parse_attributes_no_panic [panic_free, simp]: "parseExchangeAttributeReply r \<noteq> Panic"
  unfolding parseExchangeAttributeReply_def
  by (cases "RC r"; simp only: option.case; intro panic_free field_or_no_panic)
    (auto simp: DecodeParams_no_panic)

lemma parse_attributes_OkD:
  assumes "parseExchangeAttributeReply r = Ok a"
  shows "length (xa_ServerSeed a) = 8 \<and> 0 \<le> xa_PasswordLevel a \<and> xa_PasswordLevel a < 256"
proof -
  have seed: "length s = 8"
    if "field_or ps 0x1103 8 (replicate 8 0) (\<lambda>d. go_slice d 0 8) = (Ok s :: (signon_error, bytes) res)" for ps s
    using that by (auto simp: field_or_def dest!: slice_Ok_length split: option.splits if_splits)
  have level: "0 \<le> l \<and> l < 256"
    if "field_or ps 0x1119 1 0 (\<lambda>d. fmap_res (int \<circ> unat) (get8 d 0)) = (Ok l :: (signon_error, int) res)" for ps l
    using that unat8_less [unfolded of_nat_less_iff [symmetric, where 'a = int]]
    by (auto simp: field_or_def get8_def split: option.splits if_splits)
  from assms show ?thesis
    unfolding parseExchangeAttributeReply_def
    by (auto simp: bind_res_Ok_iff dest!: seed level [simplified] split: option.splits if_splits)
qed

lemma exchangeAttributes_outcome:
  assumes "exchangeAttributes millis c = (r, c')"
  shows "r \<noteq> Panic
    \<and> (\<forall>x. r = Ok x \<longrightarrow> sc_clientSeed c' = be64 millis \<and> length (sc_serverSeed c') = 8
        \<and> written (sc_conn c') = written (sc_conn c)
          @ [frame_for (sc_conn c') (buildExchangeAttributeRequest (be64 millis))])"
proof (cases "Call (buildExchangeAttributeRequest (be64 millis)) (sc_conn c)")
  case (Pair r1 conn)
  show ?thesis
  proof (cases r1)
    case (Ok reply)
    then show ?thesis
      using assms Pair wire.answered [of _ "sc_conn c" reply conn]
      by (auto simp: exchangeAttributes_def Let_def dest: parse_attributes_OkD
          intro: parse_attributes_no_panic [THEN notE] split: res.splits)
  next
    case (Err e)
    then show ?thesis using assms Pair by (auto simp: exchangeAttributes_def Let_def)
  next
    case Panic
    then show ?thesis using wire.call_no_panic Pair by (metis fst_conv)
  qed
qed

lemma Connect_Ok:
  assumes "Connect net millis opts = (Ok c, k)"
  shows "k = Some (sc_conn c) \<and> sc_clientSeed c = be64 millis \<and> length (sc_serverSeed c) = 8
    \<and> written (sc_conn c)
      = [frame_for (sc_conn c) (buildExchangeAttributeRequest (be64 millis))]"
  using assms
  by (auto simp: Connect_def Dial_def new_signon_client_def dialed_def
      dest!: exchangeAttributes_outcome split: res.splits prod.splits option.splits)

lemma on_part_cases:
  assumes "on_part get upd m s = (r, s')"
  obtains p where "m (get s) = (r, p)" "s' = upd (\<lambda>_. p) s"
  using assms by (auto simp: on_part_def split: prod.splits)

definition signon_credentials ::
  "'a crypto_scheme \<Rightarrow> signon_client \<Rightarrow> string \<Rightarrow> string \<Rightarrow> request \<Rightarrow> bool" where
  "signon_credentials C c u p req \<longleftrightarrow>
     (\<exists>authBytes uid.
        EncryptPassword C (sc_passwordLvl c) u p (sc_clientSeed c) (sc_serverSeed c) = Ok authBytes
        \<and> EncodeEBCDIC10 (ToUpper C u) = Ok uid
        \<and> req = buildSignonInfoRequest uid authBytes (sc_serverLevel c)
        \<and> hd (rq_Body req) = auth_code (scheme_of (sc_passwordLvl c)))"

lemma Authenticate_outcome:
  assumes C: "crypto_sizes C" and seeds: "length (sc_clientSeed c) = 8" "length (sc_serverSeed c) = 8"
    and run: "Authenticate C u p c = (r, c')"
  shows "r \<noteq> Panic \<and>
     ((\<forall>i. r \<noteq> Ok i) \<and> written (sc_conn c') = written (sc_conn c)
      \<or> (\<exists>req. written (sc_conn c') = written (sc_conn c) @ [frame_for (sc_conn c') req]
          \<and> signon_credentials C c u p req))"
proof (cases "EncryptPassword C (sc_passwordLvl c) u p (sc_clientSeed c) (sc_serverSeed c)")
  case enc: (Ok authBytes)
  have len: "length authBytes = substitute_size (scheme_of (sc_passwordLvl c))"
    using EncryptPassword_Ok_length [OF C seeds enc] .
  show ?thesis
  proof (cases "EncodeEBCDIC10 (ToUpper C u)")
    case uid: (Ok uid)
    let ?req = "buildSignonInfoRequest uid authBytes (sc_serverLevel c)"
    have cred: "signon_credentials C c u p ?req"
      unfolding signon_credentials_def using enc uid auth_type_scheme [OF len]
      by (auto simp: buildSignonInfoRequest_def)
    have rest: "bind_op (on_part sc_conn sc_conn_update (wrap_op AuthenticateCall (Call ?req)))
        (\<lambda>reply. ret_op (parseSignonInfoReply reply)) c = (r, c')"
      using run by (simp add: Authenticate_def enc uid bind_op.simps ret_op_def)
    from rest show ?thesis
    proof (cases rule: bind_op_cases)
      case (fails e)
      then obtain conn where "wrap_op AuthenticateCall (Call ?req) (sc_conn c) = (Err e, conn)"
        "c' = c\<lparr>sc_conn := conn\<rparr>" by (auto elim: on_part_cases)
      then show ?thesis
        using fails cred by (auto simp: wrap_op_Err_iff dest!: wire.attempted)
    next
      case panics
      then obtain conn where "wrap_op AuthenticateCall (Call ?req) (sc_conn c) = (Panic, conn)"
        by (auto elim: on_part_cases)
      then show ?thesis using wire.call_no_panic [of ?req "sc_conn c"] by simp
    next
      case (continues reply c1)
      then obtain conn where "wrap_op AuthenticateCall (Call ?req) (sc_conn c) = (Ok reply, conn)"
        "c1 = c\<lparr>sc_conn := conn\<rparr>" by (auto elim: on_part_cases)
      then show ?thesis
        using continues(2) cred by (auto dest!: wire.answered)
    qed
  qed (use run in \<open>auto simp: Authenticate_def enc bind_op.simps ret_op_def\<close>)
qed (use run EncryptPassword_no_panic [OF C] in \<open>auto simp: Authenticate_def bind_op.simps ret_op_def\<close>)

section \<open>Properties\<close>

text \<open>
  What the sign-on reply means. \<^verbatim>\<open>parseSignonInfoReply\<close> never panics; it succeeds
  exactly on a body of return code 0 followed by a sequence of LL/CP entries, whatever
  those hold (a missing, short or unreadable field never fails the sign-on); and it reports
  an \<^verbatim>\<open>AuthError\<close> exactly for a non-zero return code, which it carries.
\<close>
theorem parseSignonInfoReply_outcome:
  "parseSignonInfoReply r \<noteq> Panic
   \<and> ((\<exists>info. parseSignonInfoReply r = Ok info)
      \<longleftrightarrow> (\<exists>params. rp_Body r = be32 0 @ EncodeParams params \<and> list_all param_fits params))
   \<and> (parseSignonInfoReply r = Err (AuthError rc) \<longleftrightarrow> RC r = Some rc \<and> rc \<noteq> 0)"
proof (intro conjI iffI)
  assume "\<exists>params. rp_Body r = be32 0 @ EncodeParams params \<and> list_all param_fits params"
  then obtain params where "rp_Body r = be32 0 @ EncodeParams params" "list_all param_fits params"
    by blast
  then show "\<exists>info. parseSignonInfoReply r = Ok info"
    using parse_info_params [OF DecodeParams_encode, of params r]
    by (metis reply.surjective reply.update_convs(6))
qed (use parse_info_OkD parse_info_AuthError_iff in auto)


text \<open>A server at level 3 that then stays silent.\<close>

definition signon_net :: "dial_options \<Rightarrow> io_event list option" where
  "signon_net _ = Some [answering (peer_reply ServerSignon 0
     (be32 0 @ replicate 18 0 @ EncodeParams [\<lparr>CodePoint = 0x1119, Data = [3]\<rparr>]))]"

definition signon_opts :: dial_options where
  "signon_opts = \<lparr>do_Host = ''h'', do_Port = 0, do_TLS = False, do_Timeout = 0, do_IOTimeout = 0\<rparr>"

lemma attributes_level3:
  assumes "rp_Body r = be32 0 @ replicate 18 0 @ EncodeParams [\<lparr>CodePoint = 0x1119, Data = [3]\<rparr>]"
  shows "parseExchangeAttributeReply r = Ok \<lparr>xa_ServerVersion = 0, xa_ServerLevel = 0,
    xa_ServerSeed = replicate 8 0, xa_PasswordLevel = 3, xa_JobName = [], xa_AAFIndicator = False\<rparr>"
proof -
  have "RC r = Some 0" using assms by (intro RC_be32)
  moreover have "replicate 18 (0 :: byte) = replicate 6 0 @ be32 0 @ replicate 6 0 @ be16 0"
    by (simp add: be32_def be16_def numeral_eq_Suc)
  moreover have "param_fits \<lparr>CodePoint = 0x1119, Data = [3]\<rparr>" by (simp add: param_fits_def)
  ultimately show ?thesis
    unfolding parseExchangeAttributeReply_def assms
    by (simp add: wire_simps field_or_def job_name_field_def)
qed

lemma signon_net_connects: "\<exists>c k. Connect signon_net 1 signon_opts = (Ok c, k)"
proof -
  let ?a = "peer_reply ServerSignon 0
     (be32 0 @ replicate 18 0 @ EncodeParams [\<lparr>CodePoint = 0x1119, Data = [3]\<rparr>])"
  have "frameable ?a" by (intro frameable_peer_reply) (simp_all add: ServerSignon_def)
  then obtain c' where "Call (buildExchangeAttributeRequest (be64 1)) (dialed 0 [answering ?a])
      = (Ok (reply_of ?a), c')"
    using Call_answered [of "dialed 0 [answering ?a]" ?a "[]"] by auto
  then show ?thesis
    by (simp add: Connect_def Dial_def signon_net_def default_port_def signon_opts_def
        exchangeAttributes_def new_signon_client_def attributes_level3)
qed


end
