(* ===== verification/GoFlag.thy ===== *)
theory GoFlag
  imports GoUrl
begin

text \<open>
  The \<^verbatim>\<open>flag\<close> package as the example programs use it, on \<^verbatim>\<open>flag.CommandLine\<close>, which exits on an
  error; what a program does with its command line is a function of the values it finds.
\<close>

section \<open>Flags\<close>

text \<open>How a flag changes the values of the program: \<open>None\<close> where \<^verbatim>\<open>Set\<close> fails.\<close>

record 'c flag =
  fl_IsBool :: bool
  fl_Set :: "string \<Rightarrow> 'c \<Rightarrow> 'c option"

definition string_flag :: "(string \<Rightarrow> 'c \<Rightarrow> 'c) \<Rightarrow> 'c flag" where
  "string_flag upd = \<lparr>fl_IsBool = False, fl_Set = (\<lambda>v c. Some (upd v c))\<rparr>"

definition bool_flag :: "(bool \<Rightarrow> 'c \<Rightarrow> 'c) \<Rightarrow> 'c flag" where
  "bool_flag upd = \<lparr>fl_IsBool = True, fl_Set = (\<lambda>v c. map_option (\<lambda>b. upd b c) (ParseBool v))\<rparr>"

definition duration_flag :: "(int \<Rightarrow> 'c \<Rightarrow> 'c) \<Rightarrow> 'c flag" where
  "duration_flag upd = \<lparr>fl_IsBool = False, fl_Set = (\<lambda>v c. map_option (\<lambda>d. upd d c) (ParseDuration v))\<rparr>"

text \<open>The name of an argument after its dashes, and the value after an equals sign.\<close>

definition flag_name :: "string \<Rightarrow> string" where
  "flag_name s = (if s ! 1 = CHR ''-'' then drop 2 s else drop 1 s)"

definition flag_value :: "string \<Rightarrow> string \<times> string option" where
  "flag_value name =
     (if CHR ''='' \<in> set name
      then (takeWhile (\<lambda>c. c \<noteq> CHR ''='') name, Some (tl (dropWhile (\<lambda>c. c \<noteq> CHR ''='') name)))
      else (name, None))"

text \<open>
  \<^verbatim>\<open>flag.Parse\<close>: the values, or the status it exits with, 0 for an undefined \<^verbatim>\<open>-help\<close> or \<^verbatim>\<open>-h\<close>.
  The arguments after the flags are not used.
\<close>

fun flag_Parse :: "(string \<Rightarrow> 'c flag option) \<Rightarrow> string list \<Rightarrow> 'c \<Rightarrow> nat + 'c" where
  "flag_Parse F [] c = Inr c"
| "flag_Parse F (s # args) c =
     (if length s < 2 \<or> hd s \<noteq> CHR ''-'' \<or> s = ''--'' then Inr c
      else if flag_name s = [] \<or> hd (flag_name s) = CHR ''-'' \<or> hd (flag_name s) = CHR ''='' then Inl 2
      else
        (case flag_value (flag_name s) of (name, val) \<Rightarrow>
           (case F name of
              None \<Rightarrow> Inl (if name = ''help'' \<or> name = ''h'' then 0 else 2)
            | Some f \<Rightarrow>
                (case val of
                   Some v \<Rightarrow> (case fl_Set f v c of None \<Rightarrow> Inl 2 | Some c' \<Rightarrow> flag_Parse F args c')
                 | None \<Rightarrow>
                     if fl_IsBool f
                     then (case fl_Set f ''true'' c of None \<Rightarrow> Inl 2 | Some c' \<Rightarrow> flag_Parse F args c')
                     else
                       (case args of
                          [] \<Rightarrow> Inl 2
                        | v # rest \<Rightarrow> (case fl_Set f v c of None \<Rightarrow> Inl 2 | Some c' \<Rightarrow> flag_Parse F rest c'))))))"

section \<open>A process\<close>

text \<open>How a program ends: with a status, or with a panic that nothing recovers.\<close>

datatype status = Exit nat | Crashed

text \<open>The password: the flag, else the environment variable.\<close>

definition chosen_password :: "string \<Rightarrow> string \<Rightarrow> string" where
  "chosen_password given env = (if given = [] then env else given)"

section \<open>Lemmas: command lines\<close>

text \<open>A flag written in the one form that works for every kind of flag and every value.\<close>

definition flag_text :: "string \<times> string \<Rightarrow> string" where
  "flag_text = (\<lambda>(name, val). CHR ''-'' # name @ CHR ''='' # val)"

definition flag_word :: "string \<Rightarrow> bool" where
  "flag_word name \<longleftrightarrow> name \<noteq> [] \<and> hd name \<noteq> CHR ''-'' \<and> CHR ''='' \<notin> set name"

fun apply_flags :: "(string \<Rightarrow> 'c flag option) \<Rightarrow> (string \<times> string) list \<Rightarrow> 'c \<Rightarrow> 'c option" where
  "apply_flags F [] c = Some c"
| "apply_flags F ((name, val) # fs) c =
     (case F name of
        None \<Rightarrow> None
      | Some f \<Rightarrow> (case fl_Set f val c of None \<Rightarrow> None | Some c' \<Rightarrow> apply_flags F fs c'))"

lemma flag_value_text: "CHR ''='' \<notin> set name \<Longrightarrow> flag_value (name @ CHR ''='' # val) = (name, Some val)"
  by (induction name) (auto simp: flag_value_def)

lemma flag_name_text: "flag_word name \<Longrightarrow> flag_name (flag_text (name, val)) = name @ CHR ''='' # val"
  by (cases name) (simp_all add: flag_word_def flag_name_def flag_text_def)

lemma flag_Parse_text:
  "list_all (\<lambda>(name, val). flag_word name) fs \<Longrightarrow> apply_flags F fs c = Some c' \<Longrightarrow>
   flag_Parse F (map flag_text fs) c = Inr c'"
proof (induction fs arbitrary: c)
  case (Cons x fs)
  obtain name val where x: "x = (name, val)" by fastforce
  have w: "flag_word name" using Cons.prems(1) x by simp
  then obtain ch rest where name: "name = ch # rest" by (cases name) (auto simp: flag_word_def)
  obtain f c1 where f: "F name = Some f" "fl_Set f val c = Some c1" "apply_flags F fs c1 = Some c'"
    using Cons.prems(2) x by (auto split: option.splits)
  have t: "\<not> length (flag_text x) < 2" "hd (flag_text x) = CHR ''-''" "flag_text x \<noteq> ''--''"
    by (simp_all add: x flag_text_def name)
  have "flag_value (flag_name (flag_text x)) = (name, Some val)"
    using flag_value_text [of name val] flag_name_text [OF w] w by (simp add: x flag_word_def)
  moreover have "flag_name (flag_text x) \<noteq> []" "hd (flag_name (flag_text x)) \<noteq> CHR ''-''"
      "hd (flag_name (flag_text x)) \<noteq> CHR ''=''"
    using flag_name_text [OF w, of val] w by (auto simp: x name flag_word_def)
  moreover have "flag_Parse F (map flag_text fs) c1 = Inr c'" using Cons.IH [OF _ f(3)] Cons.prems(1) by simp
  ultimately show ?case using t f(1,2) by simp
qed simp

lemma flag_Parse_status: "flag_Parse F args c = Inl st \<Longrightarrow> st = 0 \<or> st = 2"
proof (induction F args c rule: flag_Parse.induct)
  case (2 F s args c)
  show ?case
  proof (cases "length s < 2 \<or> hd s \<noteq> CHR ''-'' \<or> s = ''--''")
    case False
    note go = False
    show ?thesis
    proof (cases "flag_name s = [] \<or> hd (flag_name s) = CHR ''-'' \<or> hd (flag_name s) = CHR ''=''")
      case False
      obtain name val where nv: "flag_value (flag_name s) = (name, val)" by fastforce
      note eq = "2.prems" [unfolded flag_Parse.simps if_not_P [OF go] if_not_P [OF False] nv prod.case]
      note IH = "2.IH" [OF go False nv [symmetric]]
      show ?thesis
      proof (cases "F name")
        case None
        with eq show ?thesis by (auto split: if_split_asm)
      next
        case (Some f)
        with eq IH [OF Some] show ?thesis
          by (cases val; cases "fl_IsBool f"; cases args) (auto split: option.split_asm)
      qed
    qed (use "2.prems" go in simp)
  qed (use "2.prems" in simp)
qed simp

end
