(* ===== verification/CliSignon.thy ===== *)
theory CliSignon
  imports Signon GoFlag
begin

text \<open>
  \<^verbatim>\<open>examples/signon/main.go\<close>: the program that signs on and prints what the server returns. The dates
  are shown by \<^verbatim>\<open>time.Time.Format\<close>, whose civil date is computed here from the seconds since year 1.
\<close>

section \<open>Civil dates\<close>

text \<open>The year, month and day of a day counted from the first of January of year 1.\<close>

definition year_of :: "int \<Rightarrow> int" where
  "year_of d = 400 * (d div 146097) + 1
     + int (length (filter (\<lambda>k. days_before_year (int k + 1) \<le> d mod 146097) [1..<400]))"

definition month_of :: "int \<Rightarrow> int \<Rightarrow> nat" where
  "month_of y yd = length (filter (\<lambda>m. days_before_month y m \<le> yd) [0..<12])"

definition civil_of :: "int \<Rightarrow> civil" where
  "civil_of t =
     (let d = t div 86400; s = nat (t mod 86400); y = year_of d; yd = d - days_before_year y; m = month_of y yd in
      \<lparr>cv_year = y, cv_month = m, cv_day = nat (yd - days_before_month y (m - 1)) + 1,
       cv_hour = s div 3600, cv_min = s mod 3600 div 60, cv_sec = s mod 60, cv_nsec = 0\<rparr>)"

text \<open>The layout \<^verbatim>\<open>2006-01-02 15:04:05\<close>.\<close>

definition date_and_time :: "civil \<Rightarrow> string" where
  "date_and_time c = format_date c @ '' '' @ pad_nat 2 (cv_hour c) @ '':'' @ pad_nat 2 (cv_min c) @ '':'' @ pad_nat 2 (cv_sec c)"

definition formatTime :: "int \<Rightarrow> string" where
  "formatTime t = (if t = 0 then ''(not returned)'' else date_and_time (civil_of t))"

section \<open>The program\<close>

record signon_flags =
  gf_host :: string
  gf_user :: string
  gf_password :: string
  gf_tls :: bool
  gf_timeout :: int

definition signon_defaults :: signon_flags where
  "signon_defaults = \<lparr>gf_host = [], gf_user = [], gf_password = [], gf_tls = False, gf_timeout = 10 * 10 ^ 9\<rparr>"

definition signon_flag_set :: "string \<Rightarrow> signon_flags flag option" where
  "signon_flag_set = map_of
     [(''host'', string_flag (\<lambda>v. gf_host_update (\<lambda>_. v))),
      (''user'', string_flag (\<lambda>v. gf_user_update (\<lambda>_. v))),
      (''password'', string_flag (\<lambda>v. gf_password_update (\<lambda>_. v))),
      (''tls'', bool_flag (\<lambda>v. gf_tls_update (\<lambda>_. v))),
      (''timeout'', duration_flag (\<lambda>v. gf_timeout_update (\<lambda>_. v)))]"

datatype signon_line =
    SignonFail string
  | SignonConnectFailed signon_error
  | LevelLine int
  | AuthenticateFailed signon_error
  | SignonSuccess
  | UserLine string
  | CCSIDLine "32 word"
  | DateLine string string
  | WarningLine int

definition info_lines :: "signon_info \<Rightarrow> signon_line list" where
  "info_lines info =
     [SignonSuccess, UserLine (si_UserID info), CCSIDLine (si_ServerCCSID info),
      DateLine ''current signon'' (formatTime (si_CurrentSignonDate info)),
      DateLine ''last signon'' (formatTime (si_LastSignonDate info)),
      DateLine ''password expires'' (formatTime (si_ExpirationDate info))]
     @ (if sint (si_PasswordExpirationWarningDays info) > 0
        then [WarningLine (sint (si_PasswordExpirationWarningDays info))] else [])"

definition signon_usage :: string where
  "signon_usage = ''usage: signon -host <host> -user <user> [-password <password>] [-tls]''"

definition signon_dial :: "signon_flags \<Rightarrow> dial_options" where
  "signon_dial f = \<lparr>do_Host = gf_host f, do_Port = 0, do_TLS = gf_tls f, do_Timeout = gf_timeout f, do_IOTimeout = 0\<rparr>"

text \<open>\<^verbatim>\<open>main\<close> from the connection on. A normal return and a panic close the client, \<^verbatim>\<open>os.Exit\<close> does not.\<close>

definition signon_run ::
  "'a crypto_scheme \<Rightarrow> (dial_options \<Rightarrow> io_event list option) \<Rightarrow> 64 word \<Rightarrow> signon_flags \<Rightarrow> string
   \<Rightarrow> status \<times> signon_line list \<times> connection option" where
  "signon_run C net millis f pw =
     (case Connect net millis (signon_dial f) of
        (Panic, k) \<Rightarrow> (Crashed, [], k)
      | (Err e, k) \<Rightarrow> (Exit 1, [SignonConnectFailed e], k)
      | (Ok client, k) \<Rightarrow>
          let level = LevelLine (sc_passwordLvl client) in
          (case Authenticate C (gf_user f) pw client of
             (Panic, c) \<Rightarrow> (Crashed, [level], Some (sc_conn (signon_Close c)))
           | (Err e, c) \<Rightarrow> (Exit 1, [level, AuthenticateFailed e], Some (sc_conn c))
           | (Ok info, c) \<Rightarrow> (Exit 0, level # info_lines info, Some (sc_conn (signon_Close c)))))"

definition signon_main ::
  "'a crypto_scheme \<Rightarrow> (dial_options \<Rightarrow> io_event list option) \<Rightarrow> 64 word \<Rightarrow> string \<Rightarrow> string list
   \<Rightarrow> status \<times> signon_line list \<times> connection option" where
  "signon_main C net millis env args =
     (case flag_Parse signon_flag_set args signon_defaults of
        Inl st \<Rightarrow> (Exit st, [], None)
      | Inr f \<Rightarrow>
          if gf_host f = [] \<or> gf_user f = [] then (Exit 2, [SignonFail signon_usage], None)
          else
            let pw = chosen_password (gf_password f) env in
            if pw = [] then (Exit 2, [SignonFail ''error: no password given (use -password or set JT400_PASSWORD)''], None)
            else signon_run C net millis f pw)"

section \<open>Lemmas: civil dates\<close>

lemma filter_below: "a \<le> c \<Longrightarrow> c \<le> b \<Longrightarrow> (\<And>k. a \<le> k \<Longrightarrow> k < b \<Longrightarrow> P k \<longleftrightarrow> k < c) \<Longrightarrow> length (filter P [a..<b]) = c - a"
proof -
  assume h: "a \<le> c" "c \<le> b" "\<And>k. a \<le> k \<Longrightarrow> k < b \<Longrightarrow> P k \<longleftrightarrow> k < c"
  then have "filter P [a..<c] = [a..<c]" "filter P [c..<b] = []"
    by (auto simp: filter_id_conv filter_empty_conv)
  moreover have "[a..<b] = [a..<c] @ [c..<b]" using h upt_add_eq_append [of a c "b - c"] by simp
  ultimately show ?thesis by simp
qed

lemma div_step:
  assumes "0 < k"
  shows "(y :: int) div k = (y - 1) div k + (if y mod k = 0 then 1 else 0)"
proof -
  have "y - 1 = (y mod k - 1) + k * (y div k)" by simp
  then have "(y - 1) div k = y div k + (y mod k - 1) div k" using assms by (metis div_mult_self2 less_irrefl)
  moreover have "(y mod k - 1) div k = (if y mod k = 0 then - 1 else 0)"
    using assms pos_mod_bound [OF assms, of y] pos_mod_sign [OF assms, of y] by (simp add: div_pos_pos_trivial zdiv_eq_0_iff div_eq_minus1)
  ultimately show ?thesis by simp
qed

lemma mod_divides: "(y :: int) mod b = 0 \<Longrightarrow> a dvd b \<Longrightarrow> y mod a = 0"
  by (metis dvd_trans mod_0_imp_dvd dvd_imp_mod_0)

lemma days_before_next_year: "days_before_year (y + 1) = days_before_year y + (if is_leap y then 366 else 365)"
proof -
  have s: "y div 4 = (y - 1) div 4 + (if y mod 4 = 0 then 1 else 0)"
    "y div 100 = (y - 1) div 100 + (if y mod 100 = 0 then 1 else 0)"
    "y div 400 = (y - 1) div 400 + (if y mod 400 = 0 then 1 else 0)" by (rule div_step; simp)+
  have m: "y mod 400 = 0 \<Longrightarrow> y mod 100 = 0" "y mod 100 = 0 \<Longrightarrow> y mod 4 = 0"
    by (rule mod_divides [of y 400 100]; simp) (rule mod_divides [of y 100 4]; simp)
  have "days_before_year (y + 1) = days_before_year y + 365 + (if y mod 4 = 0 then 1 else 0)
      - (if y mod 100 = 0 then 1 else 0) + (if y mod 400 = 0 then 1 else 0)"
    unfolding days_before_year_def add_diff_cancel_right' s by (simp only: algebra_simps)
  with m show ?thesis by (cases "y mod 4 = 0"; cases "y mod 100 = 0"; cases "y mod 400 = 0") (simp_all add: is_leap_def)
qed

lemma days_before_year_mono: "a \<le> b \<Longrightarrow> days_before_year a \<le> days_before_year b"
proof (induction b rule: int_ge_induct)
  case (step b)
  then show ?case using days_before_next_year [of b] by (auto split: if_splits)
qed simp

lemma days_before_year_cycle: "days_before_year (400 * n + 1 + j) = 146097 * n + days_before_year (1 + j)"
proof -
  have e: "400 * n + 1 + j - 1 = 400 * n + j" "1 + j - 1 = j" by simp_all
  have d: "(400 * n + j) div 4 = 100 * n + j div 4" "(400 * n + j) div 100 = 4 * n + j div 100"
      "(400 * n + j) div 400 = n + j div 400"
    using div_mult_self1 [of 4 j "100 * n"] div_mult_self1 [of 100 j "4 * n"] div_mult_self1 [of 400 j n]
    by (simp_all add: ac_simps)
  show ?thesis unfolding days_before_year_def e d by (simp add: algebra_simps)
qed

lemma year_of_unique:
  assumes "days_before_year y \<le> d" "d < days_before_year (y + 1)"
  shows "year_of d = y"
proof -
  define n j where "n = (y - 1) div 400" and "j = (y - 1) mod 400"
  have y: "y = 400 * n + 1 + j" and j: "0 \<le> j" "j < 400" by (simp_all add: n_def j_def)
  define r where "r = d - 146097 * n"
  have "days_before_year (y + 1) = 146097 * n + days_before_year (1 + (j + 1))"
    using days_before_year_cycle [of n "j + 1"] by (simp add: y ac_simps)
  then have r: "days_before_year (1 + j) \<le> r" "r < days_before_year (1 + (j + 1))"
    using assms days_before_year_cycle [of n j] by (simp_all add: r_def y)
  have "days_before_year 1 \<le> days_before_year (1 + j)" "days_before_year (1 + (j + 1)) \<le> days_before_year 401"
    using j by (intro days_before_year_mono; simp)+
  moreover have "days_before_year 1 = 0" "days_before_year 401 = 146097" by (simp_all add: days_before_year_def)
  ultimately have "0 \<le> r" "r < 146097" using r by simp_all
  moreover have d: "d = r + n * 146097" by (simp add: r_def)
  ultimately have "d div 146097 = n" "d mod 146097 = r" by simp_all
  moreover have "length (filter (\<lambda>k. days_before_year (int k + 1) \<le> r) [1..<400]) = nat j + 1 - 1"
  proof (rule filter_below)
    fix k
    show "days_before_year (int k + 1) \<le> r \<longleftrightarrow> k < nat j + 1"
    proof (cases "k < nat j + 1")
      case True
      then have "int k + 1 \<le> 1 + j" using j by simp
      from days_before_year_mono [OF this] r True show ?thesis by simp
    next
      case False
      then have "1 + (j + 1) \<le> int k + 1" using j by simp
      from days_before_year_mono [OF this] r False show ?thesis by simp
    qed
  qed (use j in auto)
  ultimately show ?thesis using j by (simp add: year_of_def y)
qed

lemma is_leap_nat: "is_leap (int y) = leap_year y"
  unfolding is_leap_def leap_year_def by presburger

lemma days_before_next_month:
  assumes "k < 11"
  shows "days_before_month (int y) (Suc k) = days_before_month (int y) k + int (days_in (Suc k) y)"
proof -
  have "k \<in> {0, 1, 2, 3, 4, 5, 6, 7, 8, 9, 10}" using assms by (auto simp: numeral_eq_Suc less_Suc_eq)
  then show ?thesis by (auto simp: days_before_month_def days_in_def is_leap_nat)
qed

lemma days_before_month_mono: "i \<le> k \<Longrightarrow> k \<le> 11 \<Longrightarrow> days_before_month (int y) i \<le> days_before_month (int y) k"
proof (induction k rule: dec_induct)
  case (step k)
  then show ?case using days_before_next_month [of k y] by simp
qed simp

text \<open>A day of a month lies between the first of that month and the first of the next.\<close>

lemma month_of_day:
  assumes "k < 12" "1 \<le> d" "d \<le> days_in (Suc k) y"
  shows "month_of (int y) (days_before_month (int y) k + int d - 1) = Suc k"
    "days_before_month (int y) k + int d \<le> (if leap_year y then 366 else 365)"
proof -
  have "length (filter (\<lambda>m. days_before_month (int y) m \<le> days_before_month (int y) k + int d - 1) [0..<12]) = Suc k - 0"
  proof (rule filter_below)
    fix m :: nat assume m: "m < 12"
    show "days_before_month (int y) m \<le> days_before_month (int y) k + int d - 1 \<longleftrightarrow> m < Suc k"
    proof (cases "m < Suc k")
      case True
      then show ?thesis using days_before_month_mono [of m k y] assms by simp
    next
      case False
      then show ?thesis using days_before_month_mono [of "Suc k" m y] days_before_next_month [of k y] m assms by simp
    qed
  qed (use assms in auto)
  then show "month_of (int y) (days_before_month (int y) k + int d - 1) = Suc k" by (simp add: month_of_def)
  have year: "days_before_month (int y) 11 + 31 = (if leap_year y then 366 else 365)"
    by (simp add: days_before_month_def is_leap_nat)
  show "days_before_month (int y) k + int d \<le> (if leap_year y then 366 else 365)"
  proof (cases "k = 11")
    case True
    then show ?thesis using assms year by (simp add: days_in_def)
  next
    case False
    then show ?thesis using days_before_next_month [of k y] days_before_month_mono [of "Suc k" 11 y] assms year by simp
  qed
qed

definition seconds_of :: "civil \<Rightarrow> int" where
  "seconds_of c = go_date (cv_year c) (int (cv_month c)) (int (cv_day c)) (int (cv_hour c)) (int (cv_min c)) (int (cv_sec c))"

lemma split_day: "s < 86400 \<Longrightarrow> (d * 86400 + int s) div 86400 = d" "s < 86400 \<Longrightarrow> (d * 86400 + int s) mod 86400 = int s"
  by simp_all

lemma civil_of_seconds:
  assumes "valid_civil c"
  shows "civil_of (seconds_of c) = c\<lparr>cv_nsec := 0\<rparr>"
proof -
  obtain k where k: "cv_month c = Suc k" "k < 12" using assms by (cases "cv_month c") (auto simp: valid_civil_def)
  obtain y where y: "cv_year c = int y" using assms by (metis valid_civil_def zero_le_imp_eq_int)
  let ?d = "cv_day c" and ?s = "cv_hour c * 3600 + cv_min c * 60 + cv_sec c"
  have d: "1 \<le> ?d" "?d \<le> days_in (Suc k) y" using assms k y by (simp_all add: valid_civil_def valid_day_def)
  note m = month_of_day [OF k(2) d]
  define yd where "yd = days_before_month (int y) k + int ?d - 1"
  have hms: "cv_hour c < 24" "cv_min c < 60" "cv_sec c < 60" using assms by (simp_all add: valid_civil_def)
  have t: "seconds_of c = (days_before_year (int y) + yd) * 86400 + int ?s"
    using k y by (simp add: seconds_of_def go_date_def yd_def Let_def)
  have "?s < 86400" using hms by simp
  then have day: "seconds_of c div 86400 = days_before_year (int y) + yd" "nat (seconds_of c mod 86400) = ?s"
    using split_day [of ?s] by (simp_all only: t nat_int)
  have "0 \<le> days_before_month (int y) k" using days_before_month_mono [of 0 k y] k by (simp add: days_before_month_def)
  then have "year_of (days_before_year (int y) + yd) = int y"
    using m(2) d(1) days_before_next_year [of "int y"] by (intro year_of_unique) (auto simp: yd_def is_leap_nat)
  moreover have "month_of (int y) yd = Suc k" using m(1) by (simp add: yd_def)
  moreover have "?s div 3600 = cv_hour c" "?s mod 3600 div 60 = cv_min c" "?s mod 60 = cv_sec c"
  proof -
    have s: "?s = (cv_min c * 60 + cv_sec c) + cv_hour c * 3600" "?s = cv_sec c + (cv_hour c * 60 + cv_min c) * 60" by simp_all
    have r: "cv_min c * 60 + cv_sec c < 3600" using hms by simp
    show "?s div 3600 = cv_hour c" unfolding s(1) div_mult_self1 using r by simp
    have "?s mod 3600 = cv_min c * 60 + cv_sec c" unfolding s(1) using r by simp
    then show "?s mod 3600 div 60 = cv_min c" using hms by simp
    show "?s mod 60 = cv_sec c" unfolding s(2) mod_mult_self1 using hms by simp
  qed
  moreover have "nat (yd - days_before_month (int y) k) + 1 = ?d" using d(1) by (simp add: yd_def)
  ultimately have "civil_of (seconds_of c) = \<lparr>cv_year = cv_year c, cv_month = cv_month c, cv_day = cv_day c,
      cv_hour = cv_hour c, cv_min = cv_min c, cv_sec = cv_sec c, cv_nsec = 0\<rparr>"
    using y k(1) by (simp add: civil_of_def day Let_def)
  then show ?thesis by simp
qed

text \<open>A date as the server sends it: the year in two bytes, then one byte each.\<close>

definition date_bytes :: "civil \<Rightarrow> bytes" where
  "date_bytes c = be16 (of_int (cv_year c))
     @ [of_nat (cv_month c), of_nat (cv_day c), of_nat (cv_hour c), of_nat (cv_min c), of_nat (cv_sec c)]"

definition first_second :: civil where
  "first_second = \<lparr>cv_year = 1, cv_month = 1, cv_day = 1, cv_hour = 0, cv_min = 0, cv_sec = 0, cv_nsec = 0\<rparr>"

lemma parse_date_bytes:
  assumes "valid_civil c"
  shows "parseSignonDate (date_bytes c @ b) = Ok (seconds_of c)"
proof -
  have b: "uint (of_nat n :: byte) = int n" if "n < 100" for n
    using that by (simp add: uint_nat unat_of_nat)
  obtain y where y: "cv_year c = int y" "y < 10000" using assms by (metis valid_civil_def zero_le_imp_eq_int of_nat_less_numeral_iff)
  then have "int (unat (of_int (cv_year c) :: 16 word)) = cv_year c" by (simp add: unat_of_nat)
  then show ?thesis
    using valid_civil_less [OF assms]
    by (simp add: parseSignonDate_def date_bytes_def seconds_of_def wire_simps get8_def b nth_append length_be16)
qed

lemma seconds_of_first: "seconds_of first_second = 0"
  by (simp add: first_second_def seconds_of_def go_date_def days_before_year_def days_before_month_def)

lemma civil_of_first: "civil_of 0 = first_second"
  using civil_of_seconds [of first_second] unfolding seconds_of_first
  by (simp add: first_second_def valid_civil_def valid_day_def days_in_def)

section \<open>Lemmas: the program\<close>

lemma Connect_not_Panic: "Connect net millis opts \<noteq> (Panic, k)"
proof
  assume run: "Connect net millis opts = (Panic, k)"
  then obtain conn c where "exchangeAttributes millis (new_signon_client conn) = (Panic, c)"
    by (auto simp: Connect_def Dial_def split: option.splits res.splits prod.splits)
  from exchangeAttributes_outcome [OF this] show False by simp
qed

text \<open>What the status says about the lines and the connection.\<close>

definition signon_told :: "status \<Rightarrow> signon_line list \<Rightarrow> connection option \<Rightarrow> bool" where
  "signon_told st lines k \<longleftrightarrow> st \<in> {Exit 0, Exit 1, Exit 2} \<and> (st = Exit 2 \<longrightarrow> k = None)
     \<and> (SignonSuccess \<in> set lines \<longleftrightarrow> st = Exit 0 \<and> lines \<noteq> [])
     \<and> (SignonSuccess \<in> set lines \<longrightarrow> (\<exists>conn. k = Some conn \<and> net_closed conn \<and> length (written conn) = 2))"

lemma signon_run_told:
  assumes "crypto_sizes C" "signon_run C net millis f pw = (st, lines, k)"
  shows "signon_told st lines k"
proof -
  obtain r k0 where c: "Connect net millis (signon_dial f) = (r, k0)" by fastforce
  show ?thesis
  proof (cases r)
    case (Ok client)
    obtain r1 c1 where a: "Authenticate C (gf_user f) pw client = (r1, c1)" by fastforce
    note cn = Connect_Ok [OF c [unfolded Ok]]
    have "length (sc_clientSeed client) = 8" "length (sc_serverSeed client) = 8" using cn by simp_all
    note out = Authenticate_outcome [OF assms(1) this a]
    show ?thesis
    proof (cases r1)
      case (Ok info)
      with out cn have "length (written (sc_conn c1)) = 2" by auto
      with assms(2) c a \<open>r = Ok client\<close> Ok show ?thesis
        by (auto simp: signon_run_def signon_told_def info_lines_def signon_Close_def close_conn_def)
    qed (use assms(2) c a Ok out in \<open>auto simp: signon_run_def signon_told_def\<close>)
  qed (use assms(2) c Connect_not_Panic in \<open>auto simp: signon_run_def signon_told_def\<close>)
qed

section \<open>Properties\<close>



text \<open>The status of the \<^verbatim>\<open>signon\<close> program can be relied on, whatever its arguments, the network and
  the server: it never crashes; 2 means that the command line was refused and nothing was dialed;
  it prints the success line exactly when it ends with 0 after a sign-on, and then exactly the
  attribute exchange and the credentials were sent, and the connection is closed.\<close>

theorem signon_status_is_reliable:
  assumes "crypto_sizes C" "signon_main C net millis env args = (st, lines, k)"
  shows "st \<in> {Exit 0, Exit 1, Exit 2} \<and> (st = Exit 2 \<longrightarrow> k = None)
    \<and> (SignonSuccess \<in> set lines \<longleftrightarrow> st = Exit 0 \<and> lines \<noteq> [])
    \<and> (SignonSuccess \<in> set lines \<longrightarrow> (\<exists>conn. k = Some conn \<and> net_closed conn \<and> length (written conn) = 2))"
proof -
  have "signon_told st lines k"
  proof (cases "flag_Parse signon_flag_set args signon_defaults")
    case (Inl s)
    with assms(2) flag_Parse_status [OF Inl] show ?thesis by (auto simp: signon_main_def signon_told_def)
  next
    case (Inr f)
    with assms(2) signon_run_told [OF assms(1)] show ?thesis
      by (auto simp: signon_main_def Let_def signon_told_def split: if_splits)
  qed
  then show ?thesis unfolding signon_told_def .
qed

theorem signon_status_is_reliable_witness:
  "\<exists>st lines k. signon_main toy_crypto signon_net 1 ''PW'' [''-host=h'', ''-user=ME''] = (st, lines, k)
     \<and> st \<in> {Exit 0, Exit 1, Exit 2}"
proof -
  obtain st lines k where run: "signon_main toy_crypto signon_net 1 ''PW'' [''-host=h'', ''-user=ME''] = (st, lines, k)"
    by (metis surj_pair)
  from signon_status_is_reliable [OF toy_crypto_sizes run] run show ?thesis by blast
qed

end
