(* ===== verification/Rle.thy ===== *)
theory Rle
  imports Prelude
begin

text \<open>
  \<^verbatim>\<open>rmtcmd/rle.go\<close>: the run-length decoder of program output parameters, as the loop over
  an index that the code has, and the grammar of records it accepts.
\<close>

section \<open>The decoder\<close>

definition rleEscape :: byte where "rleEscape = 0x1B"

datatype rle_error = TruncatedEscape | TruncatedRepeater

text \<open>
  The loop of \<^verbatim>\<open>decompressRLE\<close> with its index \<open>i\<close> and the bytes appended so far.
\<close>

function decompress_from :: "bytes \<Rightarrow> nat \<Rightarrow> bytes \<Rightarrow> (rle_error, bytes) res" where
  "decompress_from source i dest =
     (if i < length source then
        bind_res (get8 source i) (\<lambda>c.
        if c \<noteq> rleEscape then decompress_from source (i + 1) (dest @ [c])
        else if i + 1 \<ge> length source then Err TruncatedEscape
        else bind_res (get8 source (i + 1)) (\<lambda>b1.
          if b1 = rleEscape then decompress_from source (i + 2) (dest @ [rleEscape])
          else if i + 4 \<ge> length source then Err TruncatedRepeater
          else
            bind_res (get8 source (i + 2)) (\<lambda>b2.
            bind_res (get16 source (i + 3)) (\<lambda>count.
            decompress_from source (i + 5)
              (dest @ concat (replicate (unat count) [b1, b2]))))))
      else Ok dest)"
  by pat_completeness auto
termination
  by (relation "measure (\<lambda>(source, i, dest). length source - i)") auto

declare decompress_from.simps [simp del]

text \<open>The declared length only sizes the buffer (\<^verbatim>\<open>make([]byte, 0, decompressedLength)\<close>).\<close>

definition decompressRLE :: "bytes \<Rightarrow> nat \<Rightarrow> (rle_error, bytes) res" where
  "decompressRLE source decompressedLength = decompress_from source 0 []"

section \<open>The records\<close>

datatype rle_record = Literal byte | Repeat byte byte "16 word"

fun enc_record :: "rle_record \<Rightarrow> bytes" where
  "enc_record (Literal b) = (if b = rleEscape then [rleEscape, rleEscape] else [b])"
| "enc_record (Repeat b1 b2 n) = [rleEscape, b1, b2] @ be16 n"

fun valid_record :: "rle_record \<Rightarrow> bool" where
  "valid_record (Literal b) = True"
| "valid_record (Repeat b1 b2 n) = (b1 \<noteq> rleEscape)"

fun expand :: "rle_record \<Rightarrow> bytes" where
  "expand (Literal b) = [b]"
| "expand (Repeat b1 b2 n) = concat (replicate (unat n) [b1, b2])"

text \<open>One record at the front of the input.\<close>

fun dec_record :: "bytes \<Rightarrow> (rle_error, rle_record \<times> bytes) res" where
  "dec_record [] = Err TruncatedEscape"
| "dec_record (c # s) =
     (if c \<noteq> rleEscape then Ok (Literal c, s)
      else (case s of
          [] \<Rightarrow> Err TruncatedEscape
        | b1 # t \<Rightarrow>
            if b1 = rleEscape then Ok (Literal rleEscape, t)
            else (case t of b2 # hi # lo # r \<Rightarrow> Ok (Repeat b1 b2 (u16 hi lo), r)
                  | _ \<Rightarrow> Err TruncatedRepeater)))"

interpretation rle: prefix_codec enc_record dec_record id valid_record
proof
  fix x rest
  show "valid_record x \<Longrightarrow> dec_record (enc_record x @ rest) = Ok (id x, rest)"
    by (cases x) (auto simp: be16_def)
qed

section \<open>Lemmas\<close>

lemma dec_record_Ok:
  assumes "dec_record s = Ok (x, r)"
  shows "s = enc_record x @ r \<and> valid_record x"
  using assms
  by (cases s) (auto split: if_splits list.splits)

lemma dec_record_Err:
  assumes "dec_record s = Err e" "valid_record x"
  shows "s \<noteq> enc_record x @ r"
  using assms rle.dec_enc [of x r] by auto

lemma dec_record_no_panic [simp]: "dec_record s \<noteq> Panic"
  by (cases s) (auto split: list.splits)

text \<open>The indexed loop is the iteration of \<open>dec_record\<close> over the rest of the input.\<close>

lemma decompress_step:
  assumes "i < length source"
  shows "decompress_from source i dest =
    bind_res (dec_record (drop i source)) (\<lambda>(x, r).
      decompress_from source (length source - length r) (dest @ expand x))"
proof -
  obtain c s where cs: "drop i source = c # s" using assms by (metis Cons_nth_drop_Suc)
  then have c: "get8 source i = (Ok c :: (rle_error, byte) res)" and s: "s = drop (i + 1) source"
    using assms by (auto simp: get8_def Cons_nth_drop_Suc [symmetric])
  have len: "length s = length source - (i + 1)" by (simp add: s)
  show ?thesis
  proof (cases "c = rleEscape")
    case False
    then show ?thesis
      using assms by (subst decompress_from.simps) (simp add: c cs len)
  next
    case esc: True
    show ?thesis
    proof (cases s)
      case Nil
      then show ?thesis
        using assms len esc by (subst decompress_from.simps) (simp add: c cs)
    next
      case (Cons b1 t)
      have i1: "i + 1 < length source" using Cons len by (cases "i + 1 < length source") auto
      have b1: "get8 source (i + 1) = (Ok b1 :: (rle_error, byte) res)"
        using Cons s i1 by (auto simp: get8_def Cons_nth_drop_Suc [symmetric])
      note b1s = b1 b1 [simplified]
      have t: "t = drop (i + 2) source" using Cons s by (metis drop_Suc_Cons drop_drop
          drop0 One_nat_def add_Suc_right numeral_2_eq_2 plus_1_eq_Suc add.commute)
      have lent: "length t = length source - (i + 2)" by (simp add: t)
      show ?thesis
      proof (cases "b1 = rleEscape")
        case True
        then show ?thesis
          using assms esc i1 Cons lent by (subst decompress_from.simps) (simp add: c cs b1s)
      next
        case rep: False
        show ?thesis
        proof (cases "i + 4 < length source")
          case True
          then have "3 \<le> length t" using lent by simp
          then obtain b2 hi lo r where t4: "t = b2 # hi # lo # r"
            by (cases t; cases "tl t"; cases "tl (tl t)") auto
          have at: "source ! (i + 2 + k) = t ! k" if "k < 3" for k
            using True that by (simp add: t)
          have b2: "get8 source (i + 2) = (Ok b2 :: (rle_error, byte) res)"
            "get16 source (i + 3) = (Ok (u16 hi lo) :: (rle_error, 16 word) res)"
            using True at [of 0] at [of 1] at [of 2] t4 by (simp_all add: get8_def get16_def add.commute eval_nat_numeral)
          have "length source - length r = i + 5" using lent t4 True by simp
          then show ?thesis
            using assms esc i1 Cons rep True b2 t4
            by (subst decompress_from.simps) (simp add: c cs b1s)
        next
          case False
          then have "length t < 3" using lent by simp
          then have "(case t of b2 # hi # lo # r \<Rightarrow> Ok (Repeat b1 b2 (u16 hi lo), r)
              | _ \<Rightarrow> Err TruncatedRepeater) = Err TruncatedRepeater"
            by (auto split: list.split)
          then show ?thesis
            using assms esc i1 Cons rep False
            by (subst decompress_from.simps) (simp add: c cs b1s)
        qed
      qed
    qed
  qed
qed

lemma decompress_done: "length source \<le> i \<Longrightarrow> decompress_from source i dest = Ok dest"
  by (subst decompress_from.simps) simp

lemma enc_record_not_Nil [simp]: "enc_record x \<noteq> []"
  by (cases x) auto

lemma decompress_records:
  assumes "list_all valid_record xs"
  shows "decompress_from (pre @ concat (map enc_record xs)) (length pre) dest
    = Ok (dest @ concat (map expand xs))"
  using assms
proof (induction xs arbitrary: pre dest)
  case Nil
  then show ?case by (simp add: decompress_done)
next
  case (Cons x xs)
  let ?s = "pre @ concat (map enc_record (x # xs))"
  have "decompress_from ?s (length pre) dest
      = decompress_from ?s (length ?s - length (concat (map enc_record xs))) (dest @ expand x)"
    using Cons.prems rle.dec_enc [of x] by (subst decompress_step) auto
  also have "\<dots> = Ok (dest @ concat (map expand (x # xs)))"
    using Cons.IH [of "pre @ enc_record x" "dest @ expand x"] Cons.prems by simp
  finally show ?case .
qed

lemma decompress_OkD:
  assumes "decompress_from source i dest = Ok out" and "i \<le> length source"
  shows "\<exists>xs. list_all valid_record xs \<and> drop i source = concat (map enc_record xs)
    \<and> out = dest @ concat (map expand xs)"
  using assms
proof (induction "length source - i" arbitrary: i dest rule: less_induct)
  case less
  show ?case
  proof (cases "i < length source")
    case True
    then obtain x r where x: "dec_record (drop i source) = Ok (x, r)"
      and rest: "decompress_from source (length source - length r) (dest @ expand x) = Ok out"
      using less.prems by (auto simp: decompress_step bind_res_Ok_iff)
    have split: "drop i source = enc_record x @ r" "valid_record x"
      using dec_record_Ok [OF x] by auto
    have len: "length source - i = length (enc_record x) + length r"
      using arg_cong [OF split(1), of length] by simp
    have "drop (length source - length r) source = r"
    proof -
      have "source = take i source @ enc_record x @ r" using split(1) by (metis append_take_drop_id)
      then show ?thesis using True len by (metis append.assoc append_eq_conv_conj length_append
            diff_add_inverse2)
    qed
    moreover have "length source - (length source - length r) < length source - i"
      using len True by (cases "enc_record x") auto
    ultimately obtain xs where "list_all valid_record xs" "r = concat (map enc_record xs)"
      "out = (dest @ expand x) @ concat (map expand xs)"
      using less.hyps [OF _ rest] by (metis diff_le_self)
    with split show ?thesis by (intro exI [of _ "x # xs"]) simp
  next
    case False
    with less.prems show ?thesis
      by (intro exI [of _ "[]"]) (simp add: decompress_done)
  qed
qed

lemma decompress_no_panic: "decompress_from source i dest \<noteq> Panic"
proof (induction "length source - i" arbitrary: i dest rule: less_induct)
  case less
  show ?case
  proof (cases "i < length source")
    case True
    show ?thesis
    proof (cases "dec_record (drop i source)")
      case (Ok xr)
      obtain x r where xr: "xr = (x, r)" by fastforce
      have "drop i source = enc_record x @ r" using dec_record_Ok Ok xr by blast
      then have "length source - i = length (enc_record x) + length r"
        by (metis length_append length_drop)
      then have "length source - (length source - length r) < length source - i"
        using True by (cases "enc_record x") auto
      from less [OF this] show ?thesis using True Ok xr by (simp add: decompress_step)
    qed (use True in \<open>simp_all add: decompress_step\<close>)
  qed (simp add: decompress_done)
qed

lemma decompressRLE_no_panic [panic_free, simp]: "decompressRLE s n \<noteq> Panic"
  by (simp add: decompressRLE_def decompress_no_panic)

lemma decompressRLE_records:
  "list_all valid_record xs \<Longrightarrow> decompressRLE (concat (map enc_record xs)) n = Ok (concat (map expand xs))"
  using decompress_records [of xs "[]" "[]"] by (simp add: decompressRLE_def)

section \<open>Properties\<close>

text \<open>
  C29. The run-length decoder accepts exactly the sequences of records. It terminates without
  a panic on every input; it succeeds with \<open>out\<close> iff the input is the concatenation of
  valid records (a literal, an escaped escape, a pair with a count) whose expansions make
  up \<open>out\<close>. The declared length plays no part.
\<close>
theorem decompressRLE_grammar:
  "decompressRLE source n \<noteq> Panic
   \<and> (decompressRLE source n = Ok out \<longleftrightarrow>
        (\<exists>xs. list_all valid_record xs \<and> source = concat (map enc_record xs)
           \<and> out = concat (map expand xs)))"
proof (intro conjI iffI)
  assume "decompressRLE source n = Ok out"
  then show "\<exists>xs. list_all valid_record xs \<and> source = concat (map enc_record xs)
      \<and> out = concat (map expand xs)"
    using decompress_OkD [of source 0 "[]" out] by (simp add: decompressRLE_def)
qed (auto simp: decompressRLE_records)

end
