(* ===== verification/RmtMessages.thy ===== *)
theory RmtMessages
  imports Ebcdic
begin

text \<open>
  \<^verbatim>\<open>rmtcmd/messages.go\<close>: the messages attached to a reply, in three wire formats. The Go
  code recovers from a panic; here a panic is visible, as the second component of
  \<open>parse_messages_run\<close>.
\<close>

record message =
  ms_ID :: string
  ms_Type :: nat
  ms_Severity :: nat
  ms_Text :: string
  ms_Help :: string
  ms_FileName :: string
  ms_LibraryName :: string
  ms_SubstitutionData :: bytes

definition no_message :: message where
  "no_message = \<lparr>ms_ID = [], ms_Type = 0, ms_Severity = 0, ms_Text = [], ms_Help = [],
     ms_FileName = [], ms_LibraryName = [], ms_SubstitutionData = []\<rparr>"

section \<open>Reading fields\<close>

text \<open>\<^verbatim>\<open>safeSlice\<close>; a \<^verbatim>\<open>nil\<close> slice is empty, and its users only look at its length or copy it.\<close>

definition safeSlice :: "bytes \<Rightarrow> nat \<Rightarrow> nat \<Rightarrow> bytes" where
  "safeSlice b start end =
     (if end > length b \<or> start > end then [] else take (end - start) (drop start b))"

record fieldReader =
  fr_body :: bytes
  fr_off :: nat

definition fr_bytes :: "nat \<Rightarrow> fieldReader \<Rightarrow> bytes \<times> fieldReader" where
  "fr_bytes n r =
     (if fr_off r + n > length (fr_body r) then ([], r\<lparr>fr_off := length (fr_body r)\<rparr>)
      else (take n (drop (fr_off r) (fr_body r)), r\<lparr>fr_off := fr_off r + n\<rparr>))"

definition lenPrefixed :: "fieldReader \<Rightarrow> bytes \<times> fieldReader" where
  "lenPrefixed r =
     (case fr_bytes 4 r of (n4, r1) \<Rightarrow>
       (case n4 of [a, b, c, d] \<Rightarrow> fr_bytes (unat (u32 a b c d)) r1 | _ \<Rightarrow> ([], r1)))"

text \<open>\<open>n\<close> successive calls of \<^verbatim>\<open>lenPrefixed\<close>.\<close>

fun fields :: "nat \<Rightarrow> fieldReader \<Rightarrow> bytes list \<times> fieldReader" where
  "fields 0 r = ([], r)"
| "fields (Suc n) r =
     (case lenPrefixed r of (f, r1) \<Rightarrow> (case fields n r1 of (fs, r2) \<Rightarrow> (f # fs, r2)))"

text \<open>The two zoned digits of a message type.\<close>

definition type_digits :: "byte \<Rightarrow> byte \<Rightarrow> nat" where
  "type_digits a b = unat (a AND 0x0F) * 10 + unat (b AND 0x0F)"

definition type_field :: "bytes \<Rightarrow> nat" where
  "type_field t = (case t of a # b # _ \<Rightarrow> type_digits a b | _ \<Rightarrow> 0)"

definition name_text :: "bytes \<Rightarrow> string" where
  "name_text b = TrimRightBlanks (DecodeEBCDICLossy b)"

section \<open>The three formats\<close>

definition parseMessageClassic :: "bytes \<Rightarrow> nat \<Rightarrow> ('e, message) res" where
  "parseMessageClassic body off =
     bind_res
       (if off + 37 \<le> length body then
          bind_res (if off + 15 \<le> length body then
              bind_res (get8 body (off + 13)) (\<lambda>a. bind_res (get8 body (off + 14)) (\<lambda>b.
              Ok (type_digits a b)))
            else Ok 0) (\<lambda>ty.
          Ok (no_message\<lparr>
            ms_ID := name_text (safeSlice body (off + 6) (off + 13)),
            ms_Type := ty,
            ms_Severity := (case safeSlice body (off + 15) (off + 17) of
                [a, b] \<Rightarrow> unat (u16 a b) | _ \<Rightarrow> 0),
            ms_FileName := name_text (safeSlice body (off + 17) (off + 27)),
            ms_LibraryName := name_text (safeSlice body (off + 27) (off + 37))\<rparr>))
        else Ok no_message) (\<lambda>m.
     Ok (case safeSlice body (off + 37) (off + 41) of
        [a, b, c, d] \<Rightarrow>
          (let subLen = unat (u16 a b); textLen = unat (u16 c d); p = off + 41 in
           m\<lparr>ms_SubstitutionData := safeSlice body p (p + subLen),
             ms_Text := DecodeEBCDICLossy (safeSlice body (p + subLen) (p + subLen + textLen))\<rparr>)
      | _ \<Rightarrow> m))"

definition parseMessage06 :: "bytes \<Rightarrow> nat \<Rightarrow> message" where
  "parseMessage06 body start =
     (let r = \<lparr>fr_body = body, fr_off = start\<rparr>;
          r = snd (fr_bytes 4 r);
          r = snd (fr_bytes 4 r);
          (sev, r) = fr_bytes 2 r;
          fs = fst (fields 7 r)
      in no_message\<lparr>
        ms_Severity := (case sev of [a, b] \<Rightarrow> unat (u16 a b) | _ \<Rightarrow> 0),
        ms_Type := type_field (fs ! 0),
        ms_ID := name_text (fs ! 1),
        ms_FileName := name_text (fs ! 2),
        ms_LibraryName := name_text (fs ! 3),
        ms_Text := DecodeEBCDICLossy (fs ! 4),
        ms_SubstitutionData := fs ! 5,
        ms_Help := DecodeEBCDICLossy (fs ! 6)\<rparr>)"

text \<open>Of the 26 fields, 3, 5 and 7 to 22 are consumed and dropped.\<close>

definition parseMessage07 :: "bytes \<Rightarrow> nat \<Rightarrow> message" where
  "parseMessage07 body entryStart =
     (let fs = fst (fields 26 \<lparr>fr_body = body, fr_off = entryStart + 6\<rparr>)
      in no_message\<lparr>
        ms_Severity := (case fs ! 0 of a # b # c # d # _ \<Rightarrow> unat (u32 a b c d) | _ \<Rightarrow> 0),
        ms_ID := name_text (fs ! 1),
        ms_Type := type_field (fs ! 2),
        ms_FileName := name_text (fs ! 4),
        ms_LibraryName := name_text (fs ! 6),
        ms_SubstitutionData := fs ! 23,
        ms_Text := DecodeEBCDICLossy (fs ! 24),
        ms_Help := name_text (fs ! 25)\<rparr>)"

section \<open>The list of messages\<close>

definition parse_entry :: "bytes \<Rightarrow> nat \<Rightarrow> (unit, message) res" where
  "parse_entry body off =
     bind_res (get8 body (off + 5)) (\<lambda>format.
     if format = 0x06 then Ok (parseMessage06 body (off + 6))
     else if format = 0x07 then Ok (parseMessage07 body off)
     else parseMessageClassic body off)"

fun messages_from :: "bytes \<Rightarrow> nat \<Rightarrow> nat \<Rightarrow> message list \<Rightarrow> message list \<times> bool" where
  "messages_from body 0 off acc = (acc, False)"
| "messages_from body (Suc n) off acc =
     (if off + 6 \<le> length body then
        (case parse_entry body off of
           Ok m \<Rightarrow>
             if off + 4 > length body then (acc @ [m], False)
             else (case get32 body off :: (unit, 32 word) res of
                 Ok ll \<Rightarrow> if unat ll \<le> 0 then (acc @ [m], False)
                          else messages_from body n (off + unat ll) (acc @ [m])
               | _ \<Rightarrow> (acc @ [m], True))
         | _ \<Rightarrow> (acc, True))
      else (acc, False))"

definition parse_messages_run :: "bytes \<Rightarrow> message list \<times> bool" where
  "parse_messages_run body =
     (if length body < 4 then ([], False)
      else (case get16 body 2 :: (unit, 16 word) res of
          Ok count \<Rightarrow> messages_from body (unat count) 4 []
        | _ \<Rightarrow> ([], True)))"

definition parseMessages :: "bytes \<Rightarrow> message list" where
  "parseMessages body = fst (parse_messages_run body)"

section \<open>What a server sends\<close>

text \<open>
  The messages as a server encodes them: format 6 with 8 bytes of CCSIDs, a severity and 7
  fields; format 7 with 26 fields; and the classic fixed layout.
\<close>

datatype wire_message =
    Wire06 bytes "16 word" "bytes list"
  | Wire07 "bytes list"
  | WireClassic byte bytes byte byte "16 word" bytes bytes bytes bytes
      \<comment> \<open>format byte, id, type digits, severity, file, library, substitution data, text\<close>

definition enc_field :: "bytes \<Rightarrow> bytes" where
  "enc_field f = be32 (of_nat (length f)) @ f"

fun payload :: "wire_message \<Rightarrow> byte \<times> bytes" where
  "payload (Wire06 ccsids sev fs) = (0x06, ccsids @ be16 sev @ concat (map enc_field fs))"
| "payload (Wire07 fs) = (0x07, concat (map enc_field fs))"
| "payload (WireClassic fmt mid t1 t2 sev file lib sub txt) =
     (fmt, mid @ [t1, t2] @ be16 sev @ file @ lib @ be16 (of_nat (length sub))
        @ be16 (of_nat (length txt)) @ sub @ txt)"

definition enc_message :: "wire_message \<Rightarrow> bytes" where
  "enc_message w =
     (case payload w of (fmt, p) \<Rightarrow> be32 (of_nat (6 + length p)) @ [0x11, fmt] @ p)"

fun wire_ok :: "wire_message \<Rightarrow> bool" where
  "wire_ok (Wire06 ccsids sev fs) =
     (length ccsids = 8 \<and> length fs = 7 \<and> length (concat (map enc_field fs)) < 2 ^ 31)"
| "wire_ok (Wire07 fs) = (length fs = 26 \<and> length (concat (map enc_field fs)) < 2 ^ 31)"
| "wire_ok (WireClassic fmt mid t1 t2 sev file lib sub txt) =
     (fmt \<noteq> 0x06 \<and> fmt \<noteq> 0x07 \<and> length mid = 7 \<and> length file = 10 \<and> length lib = 10
      \<and> length sub < 2 ^ 16 \<and> length txt < 2 ^ 16)"

fun message_of :: "wire_message \<Rightarrow> message" where
  "message_of (Wire06 ccsids sev fs) = no_message\<lparr>
     ms_Severity := unat sev, ms_Type := type_field (fs ! 0), ms_ID := name_text (fs ! 1),
     ms_FileName := name_text (fs ! 2), ms_LibraryName := name_text (fs ! 3),
     ms_Text := DecodeEBCDICLossy (fs ! 4), ms_SubstitutionData := fs ! 5,
     ms_Help := DecodeEBCDICLossy (fs ! 6)\<rparr>"
| "message_of (Wire07 fs) = no_message\<lparr>
     ms_Severity := (case fs ! 0 of a # b # c # d # _ \<Rightarrow> unat (u32 a b c d) | _ \<Rightarrow> 0),
     ms_ID := name_text (fs ! 1), ms_Type := type_field (fs ! 2),
     ms_FileName := name_text (fs ! 4), ms_LibraryName := name_text (fs ! 6),
     ms_SubstitutionData := fs ! 23, ms_Text := DecodeEBCDICLossy (fs ! 24),
     ms_Help := name_text (fs ! 25)\<rparr>"
| "message_of (WireClassic fmt mid t1 t2 sev file lib sub txt) = no_message\<lparr>
     ms_ID := name_text mid, ms_Type := type_digits t1 t2, ms_Severity := unat sev,
     ms_FileName := name_text file, ms_LibraryName := name_text lib,
     ms_SubstitutionData := sub, ms_Text := DecodeEBCDICLossy txt\<rparr>"

section \<open>Lemmas\<close>

lemma parse_entry_no_panic: "off + 6 \<le> length body \<Longrightarrow> parse_entry body off \<noteq> Panic"
  by (auto simp: parse_entry_def parseMessageClassic_def bind_res_Panic_iff split: if_splits)

lemma parse_entry_not_Err: "parse_entry body off \<noteq> Err e"
  by (auto simp: parse_entry_def parseMessageClassic_def bind_res_Err_iff split: if_splits)

lemma messages_from_no_panic: "\<not> snd (messages_from body n off acc)"
proof (induction n arbitrary: off acc)
  case (Suc n)
  show ?case
  proof (cases "off + 6 \<le> length body")
    case True
    then obtain m where "parse_entry body off = Ok m"
      using parse_entry_no_panic parse_entry_not_Err by (cases "parse_entry body off") auto
    moreover have "get32 body off = (Ok (u32 (body ! off) (body ! (off + 1)) (body ! (off + 2))
        (body ! (off + 3))) :: (unit, 32 word) res)"
      using True by (simp add: get32_def)
    ultimately show ?thesis using True Suc.IH by simp
  qed simp
qed simp

lemma parse_messages_no_panic: "\<not> snd (parse_messages_run body)"
  by (simp add: parse_messages_run_def get16_def messages_from_no_panic)

lemma messages_from_length: "length (fst (messages_from body n off acc)) \<le> length acc + n"
proof (induction n arbitrary: off acc)
  case (Suc n)
  show ?case
    using Suc.IH [of _ "acc @ [_]"] by (auto split: res.splits intro: order_trans)
qed simp

lemma fr_bytes_append:
  "length f = n \<Longrightarrow>
   fr_bytes n \<lparr>fr_body = pre @ f @ post, fr_off = length pre\<rparr>
   = (f, \<lparr>fr_body = pre @ f @ post, fr_off = length pre + n\<rparr>)"
  by (simp add: fr_bytes_def)

lemma lenPrefixed_append:
  assumes "length f < 2 ^ 32"
  shows "lenPrefixed \<lparr>fr_body = pre @ enc_field f @ post, fr_off = length pre\<rparr>
   = (f, \<lparr>fr_body = pre @ enc_field f @ post, fr_off = length pre + length (enc_field f)\<rparr>)"
proof -
  let ?n = "of_nat (length f) :: 32 word"
  have b: "pre @ enc_field f @ post = pre @ be32 ?n @ (f @ post)"
    "pre @ enc_field f @ post = (pre @ be32 ?n) @ f @ post" by (simp_all add: enc_field_def)
  have "fr_bytes 4 \<lparr>fr_body = pre @ enc_field f @ post, fr_off = length pre\<rparr>
      = (be32 ?n, \<lparr>fr_body = pre @ enc_field f @ post, fr_off = length pre + 4\<rparr>)"
    unfolding b(1) by (rule fr_bytes_append) simp
  moreover have "fr_bytes (length f) \<lparr>fr_body = pre @ enc_field f @ post, fr_off = length pre + 4\<rparr>
      = (f, \<lparr>fr_body = pre @ enc_field f @ post, fr_off = length pre + 4 + length f\<rparr>)"
    using fr_bytes_append [of f "length f" "pre @ be32 ?n" post] unfolding b(2) by simp
  moreover have "unat ?n = length f" using assms by (intro unat_of_nat32) simp
  ultimately show ?thesis
    by (simp add: lenPrefixed_def be32_def enc_field_def add.assoc)
qed

lemma fields_append:
  assumes "\<forall>f \<in> set fs. length f < 2 ^ 32"
  shows "fst (fields (length fs)
    \<lparr>fr_body = pre @ concat (map enc_field fs) @ post, fr_off = length pre\<rparr>) = fs"
  using assms
proof (induction fs arbitrary: pre)
  case (Cons f fs)
  from Cons.IH [of "pre @ enc_field f"] Cons.prems lenPrefixed_append [of f pre "concat (map enc_field fs) @ post"]
  show ?case by (simp add: case_prod_beta)
qed simp

lemma field_fits: "f \<in> set fs \<Longrightarrow> length (concat (map enc_field fs)) < n \<Longrightarrow> length f < n"
  by (induction fs) (auto simp: enc_field_def)

lemma length_enc_message: "length (enc_message w) = 6 + length (snd (payload w))"
  by (simp add: enc_message_def split: prod.split)

lemma payload_fits: "wire_ok w \<Longrightarrow> 6 + length (snd (payload w)) < 2 ^ 32"
  by (cases w) auto

lemma safeSlice_append:
  "length pre = a \<Longrightarrow> a + length f = b \<Longrightarrow> safeSlice (pre @ f @ post) a b = f"
  by (auto simp: safeSlice_def)

lemma parse_entry_append:
  assumes "wire_ok w"
  shows "parse_entry (pre @ enc_message w @ post) (length pre) = Ok (message_of w)"
proof (cases w)
  case (Wire06 ccsids sev fs)
  let ?head = "pre @ be32 (of_nat (6 + length (snd (payload w)))) @ [0x11, 0x06]"
  let ?body = "pre @ enc_message w @ post"
  have body: "?body = ?head @ ccsids @ be16 sev @ concat (map enc_field fs) @ post"
    using Wire06 by (simp add: enc_message_def)
  have len: "length ccsids = 8" "length fs = 7" using assms Wire06 by auto
  have fmt: "get8 ?body (length pre + 5) = (Ok 0x06 :: (unit, byte) res)"
    unfolding body by (simp add: wire_simps)
  have h: "length ?head = length pre + 6" by simp
  have r1: "snd (fr_bytes 4 \<lparr>fr_body = ?body, fr_off = length pre + 6\<rparr>) = \<lparr>fr_body = ?body, fr_off = length pre + 10\<rparr>"
    "snd (fr_bytes 4 \<lparr>fr_body = ?body, fr_off = length pre + 10\<rparr>) = \<lparr>fr_body = ?body, fr_off = length pre + 14\<rparr>"
    unfolding body using len by (simp_all add: fr_bytes_def)
  have r2: "fr_bytes 2 \<lparr>fr_body = ?body, fr_off = length pre + 14\<rparr> = (be16 sev, \<lparr>fr_body = ?body, fr_off = length pre + 16\<rparr>)"
    using fr_bytes_append [of "be16 sev" 2 "?head @ ccsids" "concat (map enc_field fs) @ post"] len
    unfolding body by simp
  have fits: "\<forall>f \<in> set fs. length f < 2 ^ 32"
    using assms Wire06 field_fits [of _ fs "2 ^ 31"] by fastforce
  have r3: "fst (fields 7 \<lparr>fr_body = ?body, fr_off = length pre + 16\<rparr>) = fs"
    using fields_append [OF fits, of "?head @ ccsids @ be16 sev" post] len
    unfolding body by simp
  have view: "message_of w = no_message\<lparr>
     ms_Severity := unat sev, ms_Type := type_field (fs ! 0), ms_ID := name_text (fs ! 1),
     ms_FileName := name_text (fs ! 2), ms_LibraryName := name_text (fs ! 3),
     ms_Text := DecodeEBCDICLossy (fs ! 4), ms_SubstitutionData := fs ! 5,
     ms_Help := DecodeEBCDICLossy (fs ! 6)\<rparr>"
    by (simp add: Wire06)
  show ?thesis
    unfolding parse_entry_def fmt view
    by (simp add: parseMessage06_def Let_def r1 r2 r3 be16_def)
next
  case (Wire07 fs)
  let ?head = "pre @ be32 (of_nat (6 + length (snd (payload w)))) @ [0x11, 0x07]"
  let ?body = "pre @ enc_message w @ post"
  have body: "?body = ?head @ concat (map enc_field fs) @ post"
    using Wire07 by (simp add: enc_message_def)
  have len: "length fs = 26" using assms Wire07 by auto
  have fmt: "get8 ?body (length pre + 5) = (Ok 0x07 :: (unit, byte) res)"
    unfolding body by (simp add: wire_simps)
  have fits: "\<forall>f \<in> set fs. length f < 2 ^ 32"
    using assms Wire07 field_fits [of _ fs "2 ^ 31"] by fastforce
  have r: "fst (fields 26 \<lparr>fr_body = ?body, fr_off = length pre + 6\<rparr>) = fs"
    using fields_append [OF fits, of ?head post] len unfolding body by simp
  have view: "message_of w = no_message\<lparr>
     ms_Severity := (case fs ! 0 of a # b # c # d # _ \<Rightarrow> unat (u32 a b c d) | _ \<Rightarrow> 0),
     ms_ID := name_text (fs ! 1), ms_Type := type_field (fs ! 2),
     ms_FileName := name_text (fs ! 4), ms_LibraryName := name_text (fs ! 6),
     ms_SubstitutionData := fs ! 23, ms_Text := DecodeEBCDICLossy (fs ! 24),
     ms_Help := name_text (fs ! 25)\<rparr>"
    by (simp add: Wire07)
  show ?thesis
    unfolding parse_entry_def fmt view by (simp add: parseMessage07_def Let_def r)
next
  case (WireClassic fmt mid t1 t2 sev fl lb sb tx)
  let ?head = "pre @ be32 (of_nat (6 + length (snd (payload w)))) @ [0x11, fmt]"
  let ?body = "pre @ enc_message w @ post"
  let ?ls = "be16 (of_nat (length sb)) @ be16 (of_nat (length tx))"
  have body: "?body = ?head @ mid @ [t1, t2] @ be16 sev @ fl @ lb @ ?ls @ sb @ tx @ post"
    using WireClassic by (simp add: enc_message_def)
  have len: "length mid = 7" "length fl = 10" "length lb = 10" "fmt \<noteq> 6" "fmt \<noteq> 7"
    and n: "unat (of_nat (length sb) :: 16 word) = length sb"
      "unat (of_nat (length tx) :: 16 word) = length tx"
    using assms WireClassic by (auto intro!: unat_of_nat16)
  have f: "get8 ?body (length pre + 5) = (Ok fmt :: (unit, byte) res)"
    "get8 ?body (length pre + 13) = (Ok t1 :: (unit, byte) res)"
    "get8 ?body (length pre + 14) = (Ok t2 :: (unit, byte) res)"
    unfolding body using len by (simp_all add: wire_simps)
  have s: "safeSlice ?body (length pre + 6) (length pre + 13) = mid"
    "safeSlice ?body (length pre + 15) (length pre + 17) = be16 sev"
    "safeSlice ?body (length pre + 17) (length pre + 27) = fl"
    "safeSlice ?body (length pre + 27) (length pre + 37) = lb"
    "safeSlice ?body (length pre + 37) (length pre + 41) = ?ls"
    "safeSlice ?body (length pre + 41) (length pre + 41 + length sb) = sb"
    unfolding body using len by (simp_all add: safeSlice_def)
  have s2: "safeSlice ?body (length pre + 41 + length sb) (length pre + 41 + length sb + length tx) = tx"
    using safeSlice_append [of "?head @ mid @ [t1, t2] @ be16 sev @ fl @ lb @ ?ls @ sb"
        "length pre + 41 + length sb" tx "length pre + 41 + length sb + length tx" post] len
    unfolding body by simp
  have "length pre + 41 \<le> length ?body" unfolding body using len by simp
  moreover have "message_of w = no_message\<lparr>
     ms_ID := name_text mid, ms_Type := type_digits t1 t2, ms_Severity := unat sev,
     ms_FileName := name_text fl, ms_LibraryName := name_text lb,
     ms_SubstitutionData := sb, ms_Text := DecodeEBCDICLossy tx\<rparr>"
    by (simp add: WireClassic)
  moreover have "(case be16 sev of [a, b] \<Rightarrow> unat (u16 a b) | _ \<Rightarrow> 0) = unat sev"
    by (simp add: be16_def)
  moreover have "\<exists>a b c d. ?ls = [a, b, c, d] \<and> unat (u16 a b) = length sb \<and> unat (u16 c d) = length tx"
    using n by (simp add: be16_def)
  ultimately show ?thesis
    unfolding parse_entry_def f parseMessageClassic_def using len s s2 by (auto simp: f Let_def)
qed

lemma messages_from_append:
  assumes "list_all wire_ok ws"
  shows "messages_from (pre @ concat (map enc_message ws) @ post) (length ws) (length pre) acc
    = (acc @ map message_of ws, False)"
  using assms
proof (induction ws arbitrary: pre acc)
  case (Cons w ws)
  let ?body = "pre @ enc_message w @ (concat (map enc_message ws) @ post)"
  have ll: "get32 ?body (length pre) = (Ok (of_nat (6 + length (snd (payload w)))) :: (unit, 32 word) res)"
    by (simp add: enc_message_def wire_simps split: prod.split)
  have n: "unat (of_nat (6 + length (snd (payload w))) :: 32 word) = length (enc_message w)"
    using payload_fits [of w] Cons.prems by (simp add: length_enc_message unat_of_nat32 del: of_nat_add)
  have long: "length pre + 6 \<le> length ?body" by (simp add: length_enc_message)
  have pos: "0 < length (enc_message w)" by (simp add: length_enc_message)
  have "messages_from ?body (Suc (length ws)) (length pre) acc
      = messages_from ?body (length ws) (length (pre @ enc_message w)) (acc @ [message_of w])"
    using long pos Cons.prems parse_entry_append [of w pre "concat (map enc_message ws) @ post"]
    by (simp add: ll n del: of_nat_add)
  with Cons.IH [of "pre @ enc_message w" "acc @ [message_of w]"] Cons.prems show ?case by simp
qed simp

section \<open>Properties\<close>

text \<open>
  C30. The messages of a reply are read back. A reply that carries up to 65535 messages, in
  any mixture of the three formats, parses to exactly those messages in order, each with
  its severity, type, names, texts and substitution data taken from their fields; bytes
  after the last message are ignored.
\<close>
theorem parseMessages_reads_back:
  assumes "length rc = 2" and "length ws < 2 ^ 16" and "list_all wire_ok ws"
  shows "parseMessages (rc @ be16 (of_nat (length ws)) @ concat (map enc_message ws) @ post)
    = map message_of ws"
proof -
  let ?body = "rc @ be16 (of_nat (length ws)) @ concat (map enc_message ws) @ post"
  have "get16 ?body 2 = (Ok (of_nat (length ws)) :: (unit, 16 word) res)"
    using assms(1) by (simp add: wire_simps)
  moreover have "unat (of_nat (length ws) :: 16 word) = length ws"
    using assms(2) by (intro unat_of_nat16) simp
  ultimately show ?thesis
    using messages_from_append [OF assms(3), of "rc @ be16 (of_nat (length ws))" post "[]"] assms(1)
    by (simp add: parseMessages_def parse_messages_run_def)
qed

theorem parseMessages_reads_back_witness:
  "parseMessages ([0, 0] @ be16 1 @ enc_message (WireClassic 0 (replicate 7 0xC1) 0xF0 0xF4 40
      (replicate 10 0x40) (replicate 10 0x40) [1, 2] [0xC1, 0xC2]) @ [9])
   = [message_of (WireClassic 0 (replicate 7 0xC1) 0xF0 0xF4 40
      (replicate 10 0x40) (replicate 10 0x40) [1, 2] [0xC1, 0xC2])]"
  using parseMessages_reads_back [of "[0, 0]" "[WireClassic 0 (replicate 7 0xC1) 0xF0 0xF4 40
      (replicate 10 0x40) (replicate 10 0x40) [1, 2] [0xC1, 0xC2]]" "[9]"] by simp

text \<open>
  The \<^verbatim>\<open>recover\<close> of \<^verbatim>\<open>parseMessages\<close> never runs. On every byte sequence, however
  malformed, each access the parser makes is in range, the loop ends, and no more messages
  are returned than the count field announces.
\<close>
theorem parseMessages_needs_no_recover:
  "\<not> snd (parse_messages_run body) \<and> length (parseMessages body) < 2 ^ 16"
proof -
  have "length (parseMessages body) < 65536"
  proof (cases "length body < 4")
    case False
    define count where "count = u16 (body ! 2) (body ! 3)"
    have "length (parseMessages body) \<le> unat count"
      using messages_from_length [of body "unat count" 4 "[]"] False
      by (simp add: parseMessages_def parse_messages_run_def get16_def count_def)
    then show ?thesis using unat16_less [of count] by linarith
  qed (simp add: parseMessages_def parse_messages_run_def)
  then show ?thesis by (simp add: parse_messages_no_panic)
qed

end
