(* ===== verification/Rmtcmd.thy ===== *)
theory Rmtcmd
  imports Logon Rle RmtMessages
begin

text \<open>
  \<^verbatim>\<open>rmtcmd/wire.go\<close>, \<^verbatim>\<open>client.go\<close>, \<^verbatim>\<open>command.go\<close>, \<^verbatim>\<open>program.go\<close> and \<^verbatim>\<open>errors.go\<close>: remote commands
  and program calls. The parameters of a call are distinct objects, here a list of values.
\<close>

section \<open>Requests\<close>

definition MessageOptionUpTo10 :: byte where "MessageOptionUpTo10 = 0"
definition MessageOptionNone :: byte where "MessageOptionNone = 1"
definition MessageOptionAll :: byte where "MessageOptionAll = 2"

lemmas message_options = MessageOptionUpTo10_def MessageOptionNone_def MessageOptionAll_def

definition remapMessageCount :: "16 word \<Rightarrow> byte \<Rightarrow> byte" where
  "remapMessageCount dsLevel opt =
     (let count = (if dsLevel < 7 \<and> opt = MessageOptionAll then MessageOptionUpTo10 else opt) in
      if dsLevel \<ge> 11 then
        (if count = MessageOptionUpTo10 then 5 else if count = MessageOptionAll then 6 else count)
      else if dsLevel \<ge> 10 then
        (if count = MessageOptionUpTo10 then 3 else if count = MessageOptionAll then 4 else count)
      else count)"

datatype rmtcmd_error =
    RmtDial dial_error
  | RmtLogon logon_error
  | RmtAttributesCall conn_error
  | RmtAttributesTooShort
  | RmtAttributesFailed "16 word"
  | RmtAttributesMissing
  | TooOldForUnicode "16 word"
  | ProgramName ebcdic_error
  | ProgramLibrary ebcdic_error
  | RunCommandCall conn_error
  | CallProgramCall conn_error
  | RmtReplyTooShort
  | RmtError "16 word"          \<comment> \<open>\<^verbatim>\<open>rmtcmd.Error\<close>\<close>
  | OutputTruncated
  | OutputEntryLength
  | OutputRle rle_error

text \<open>\<^verbatim>\<open>Error.Error\<close>, without the formatted return code.\<close>

definition rmtcmd_error_text :: "16 word \<Rightarrow> string" where
  "rmtcmd_error_text rc =
     (if rc = 0x0400 then ''command failed; see the returned message list''
      else if rc = 0x0401 then ''invalid CCSID''
      else if rc = 0x0500 then ''program could not be resolved''
      else if rc = 0x0501 then ''program call error; see the returned message list''
      else if rc \<ge> 0x0100 \<and> rc < 0x0200 then ''exchange-attributes error''
      else if rc \<ge> 0x0200 \<and> rc < 0x0300 then ''protocol error''
      else if rc \<ge> 0x0300 \<and> rc < 0x0400 then ''exit program error''
      else ''request failed'')"

definition rmtcmd_request :: "16 word \<Rightarrow> 16 word \<Rightarrow> bytes \<Rightarrow> request" where
  "rmtcmd_request reqRepID templateLen body =
     \<lparr>rq_ServerID = ServerRemoteCommand, rq_HeaderID = 0, rq_Correlation = 0,
      rq_TemplateLen = templateLen, rq_ReqRepID = reqRepID, rq_Body = body\<rparr>"

definition rmt_buildExchangeAttributesRequest :: request where
  "rmt_buildExchangeAttributesRequest =
     rmtcmd_request 0x1001 14 (be32 37 @ [0xF2, 0xF9, 0xF2, 0xF4] @ be32 1 @ [0, 0])"

definition parseExchangeAttributesReply :: "reply \<Rightarrow> (rmtcmd_error, 32 word \<times> 16 word) res" where
  "parseExchangeAttributesReply reply =
     (if length (rp_Body reply) < 2 then Err RmtAttributesTooShort
      else bind_res (get16 (rp_Body reply) 0) (\<lambda>rc.
        if rc \<noteq> 0 then Err (RmtAttributesFailed rc)
        else if length (rp_Body reply) < 16 then Err RmtAttributesMissing
        else
          bind_res (get32 (rp_Body reply) 2) (\<lambda>ccsid.
          bind_res (get16 (rp_Body reply) 14) (\<lambda>dsLevel.
          Ok (ccsid, dsLevel)))))"

definition buildRunCommandRequest :: "string \<Rightarrow> 16 word \<Rightarrow> byte \<Rightarrow> (rmtcmd_error, request) res" where
  "buildRunCommandRequest command dsLevel msgOpt =
     (if dsLevel < 10 then Err (TooOldForUnicode dsLevel)
      else
        let cmdBytes = UTF16BE command in
        Ok (rmtcmd_request 0x1002 1
          ([remapMessageCount dsLevel msgOpt] @ be32 (of_nat (10 + length cmdBytes))
           @ be16 0x1104 @ be32 1200 @ cmdBytes)))"

datatype param_usage = Input | Output | InOut | Null

record parameter =
  pa_Usage :: param_usage
  pa_MaxLength :: "32 word"       \<comment> \<open>an \<^verbatim>\<open>int32\<close>\<close>
  pa_InputData :: bytes
  pa_OutputData :: bytes

definition trimTrailingZeros :: "bytes \<Rightarrow> bytes" where
  "trimTrailingZeros b = trim_right (\<lambda>x. x = 0) b"

record resolvedParam =
  re_usage :: "16 word"
  re_data :: bytes

fun resolveParam :: "parameter \<Rightarrow> 16 word \<Rightarrow> resolvedParam" where
  "resolveParam p dsLevel =
     (case pa_Usage p of
        Output \<Rightarrow> \<lparr>re_usage = 22, re_data = []\<rparr>
      | Null \<Rightarrow> \<lparr>re_usage = (if dsLevel < 6 then 1 else 0xFF), re_data = []\<rparr>
      | Input \<Rightarrow> \<lparr>re_usage = 11, re_data = trimTrailingZeros (pa_InputData p)\<rparr>
      | InOut \<Rightarrow> \<lparr>re_usage = (if dsLevel \<ge> 5 then 33 else 13),
                  re_data = trimTrailingZeros (pa_InputData p)\<rparr>)"

declare resolveParam.simps [simp del]

text \<open>An entry of the request: the resolved parameter and its maximum length.\<close>

definition enc_program_param :: "resolvedParam \<times> 32 word \<Rightarrow> bytes" where
  "enc_program_param = (\<lambda>(e, maxLength).
     be32 (of_nat (length (re_data e) + 12)) @ be16 0x1103 @ be32 maxLength
     @ be16 (re_usage e) @ re_data e)"

definition buildCallProgramRequest ::
  "'a golib_scheme \<Rightarrow> string \<Rightarrow> string \<Rightarrow> parameter list \<Rightarrow> 16 word \<Rightarrow> byte
   \<Rightarrow> (rmtcmd_error, request) res" where
  "buildCallProgramRequest G library program params dsLevel msgOpt =
     bind_res (wrap_err ProgramName (EncodeEBCDICPadded (ToUpper G program) 10)) (\<lambda>progBytes.
     bind_res (wrap_err ProgramLibrary (EncodeEBCDICPadded (ToUpper G library) 10)) (\<lambda>libBytes.
     Ok (rmtcmd_request 0x1003 23
       (fit 10 progBytes @ fit 10 libBytes @ [remapMessageCount dsLevel msgOpt]
        @ be16 (of_nat (length params))
        @ concat (map (\<lambda>p. enc_program_param (resolveParam p dsLevel, pa_MaxLength p)) params)))))"

section \<open>Replies\<close>

definition wants_output :: "parameter \<Rightarrow> bool" where
  "wants_output p \<longleftrightarrow> (pa_Usage p = Output \<or> pa_Usage p = InOut) \<and> \<not> sint (pa_MaxLength p) \<le> 0"

text \<open>The body of the loop of \<^verbatim>\<open>parseCallProgramOutput\<close>: the output data and the next index.\<close>

definition output_entry :: "bytes \<Rightarrow> nat \<Rightarrow> (rmtcmd_error, bytes \<times> nat) res" where
  "output_entry body idx =
     (if idx + 12 > length body then Err OutputTruncated
      else
        bind_res (get32 body idx) (\<lambda>byteLength.
        bind_res (get32 body (idx + 6)) (\<lambda>declaredLength.
        bind_res (get16 body (idx + 10)) (\<lambda>usage.
        if unat byteLength < 12 \<or> idx + unat byteLength > length body then Err OutputEntryLength
        else
          bind_res (go_slice body (idx + 12) (idx + unat byteLength)) (\<lambda>raw.
          bind_res (if usage = 22 \<or> usage = 23
                    then wrap_err OutputRle (decompressRLE raw (unat declaredLength)) else Ok raw)
            (\<lambda>data. Ok (data, idx + unat byteLength)))))))"

fun output_from :: "bytes \<Rightarrow> nat \<Rightarrow> parameter list \<Rightarrow> (rmtcmd_error, unit) res \<times> parameter list" where
  "output_from body idx [] = (Ok (), [])"
| "output_from body idx (p # ps) =
     (if \<not> wants_output p then apsnd ((#) p) (output_from body idx ps)
      else (case output_entry body idx of
          Ok (data, idx') \<Rightarrow> apsnd ((#) (p\<lparr>pa_OutputData := data\<rparr>)) (output_from body idx' ps)
        | Err e \<Rightarrow> (Err e, p # ps)
        | Panic \<Rightarrow> (Panic, p # ps)))"

definition parseCallProgramOutput ::
  "bytes \<Rightarrow> parameter list \<Rightarrow> (rmtcmd_error, unit) res \<times> parameter list" where
  "parseCallProgramOutput body params = output_from body 4 params"

section \<open>The client\<close>

record rmt_client =
  rc_conn :: connection
  rc_dsLevel :: "16 word"
  rc_ccsid :: "32 word"

definition rmt_handshake ::
  "'a crypto_scheme \<Rightarrow> 64 word \<Rightarrow> string \<Rightarrow> string \<Rightarrow> (connection, rmtcmd_error, 32 word \<times> 16 word) op" where
  "rmt_handshake C millis userID password =
     bind_op (wrap_op RmtLogon (Logon C millis ServerRemoteCommand userID password)) (\<lambda>_.
     bind_op (wrap_op RmtAttributesCall (Call rmt_buildExchangeAttributesRequest)) (\<lambda>reply.
     ret_op (parseExchangeAttributesReply reply)))"

definition rmt_Connect ::
  "'a crypto_scheme \<Rightarrow> (dial_options \<Rightarrow> io_event list option) \<Rightarrow> 64 word \<Rightarrow> dial_options
   \<Rightarrow> string \<Rightarrow> string \<Rightarrow> (rmtcmd_error, rmt_client) res \<times> connection option" where
  "rmt_Connect C net millis opts userID password =
     (case connect_with net (default_port PortRemoteCommandPlain PortRemoteCommandSecure opts) RmtDial
         (rmt_handshake C millis userID password) of
        (Ok (ccsid, dsLevel), Some conn) \<Rightarrow>
          (Ok \<lparr>rc_conn = conn, rc_dsLevel = dsLevel, rc_ccsid = ccsid\<rparr>, Some conn)
      | (Ok _, None) \<Rightarrow> (Panic, None)
      | (Err e, k) \<Rightarrow> (Err e, k)
      | (Panic, k) \<Rightarrow> (Panic, k))"

text \<open>\<^verbatim>\<open>([]Message, error)\<close>: a failure carries the messages as well.\<close>

type_synonym rmt_failure = "rmtcmd_error \<times> message list"

definition no_messages :: "rmtcmd_error \<Rightarrow> rmt_failure" where
  "no_messages e = (e, [])"

text \<open>The return code and the messages of a reply, as both operations look at them.\<close>

definition reply_messages :: "reply \<Rightarrow> (rmt_failure, message list) res" where
  "reply_messages reply =
     (if length (rp_Body reply) < 2 then Err (no_messages RmtReplyTooShort)
      else bind_res (get16 (rp_Body reply) 0) (\<lambda>rc.
        let messages = parseMessages (rp_Body reply) in
        if rc \<noteq> 0 then Err (RmtError rc, messages) else Ok messages))"

definition RunCommand :: "string \<Rightarrow> byte \<Rightarrow> (rmt_client, rmt_failure, message list) op" where
  "RunCommand command msgOpt c =
     bind_op (ret_op (wrap_err no_messages (buildRunCommandRequest command (rc_dsLevel c) msgOpt)))
       (\<lambda>req.
     bind_op (on_part rc_conn rc_conn_update (wrap_op (no_messages \<circ> RunCommandCall) (Call req)))
       (\<lambda>reply.
     ret_op (reply_messages reply))) c"

text \<open>\<^verbatim>\<open>CallProgram\<close> also updates the parameters, which are part of the state here.\<close>

definition CallProgram ::
  "'a golib_scheme \<Rightarrow> string \<Rightarrow> string \<Rightarrow> byte
   \<Rightarrow> (rmt_client \<times> parameter list, rmt_failure, message list) op" where
  "CallProgram G library program msgOpt = (\<lambda>(c, params).
     bind_op (ret_op (wrap_err no_messages
        (buildCallProgramRequest G library program params (rc_dsLevel c) msgOpt))) (\<lambda>req.
     bind_op (on_part fst apfst
        (on_part rc_conn rc_conn_update (wrap_op (no_messages \<circ> CallProgramCall) (Call req))))
       (\<lambda>reply.
     bind_op (ret_op (reply_messages reply)) (\<lambda>messages.
     \<lambda>(c', ps). (case parseCallProgramOutput (rp_Body reply) ps of
         (Ok _, ps') \<Rightarrow> (Ok messages, (c', ps'))
       | (Err e, ps') \<Rightarrow> (Err (e, messages), (c', ps'))
       | (Panic, ps') \<Rightarrow> (Panic, (c', ps')))))) (c, params))"

definition rmt_Close :: "rmt_client \<Rightarrow> rmt_client" where
  "rmt_Close c = c\<lparr>rc_conn := close_conn (rc_conn c)\<rparr>"

section \<open>Lemmas: the request\<close>

definition dec_program_param :: "bytes \<Rightarrow> (unit, (resolvedParam \<times> 32 word) \<times> bytes) res" where
  "dec_program_param b =
     bind_res (get32 b 0) (\<lambda>ll. bind_res (get16 b 4) (\<lambda>cp.
     if cp \<noteq> 0x1103 \<or> unat ll < 12 then Err ()
     else bind_res (get32 b 6) (\<lambda>maxLength. bind_res (get16 b 10) (\<lambda>usage.
       bind_res (go_slice b 12 (unat ll)) (\<lambda>d.
       Ok ((\<lparr>re_usage = usage, re_data = d\<rparr>, maxLength), drop (unat ll) b))))))"

interpretation program_params: prefix_codec enc_program_param dec_program_param id
  "\<lambda>(e, maxLength). length (re_data e) + 12 < 2 ^ 32"
proof
  fix x :: "resolvedParam \<times> 32 word" and rest
  assume v: "case x of (e, maxLength) \<Rightarrow> length (re_data e) + 12 < 2 ^ 32"
  obtain e m where x: "x = (e, m)" by fastforce
  have n: "unat (of_nat (length (re_data e) + 12) :: 32 word) = length (re_data e) + 12"
    using v x by (intro unat_of_nat32) simp
  show "dec_program_param (enc_program_param x @ rest) = Ok (id x, rest)"
    unfolding dec_program_param_def enc_program_param_def x
    by (simp add: wire_simps n del: of_nat_add)
qed

lemma trimTrailingZeros_fit: "fit (length b) (trimTrailingZeros b) = b"
proof -
  obtain n where n: "b = trimTrailingZeros b @ replicate n 0"
  proof -
    have "rev b = takeWhile (\<lambda>x. x = 0) (rev b) @ dropWhile (\<lambda>x. x = 0) (rev b)" by simp
    then have "b = trimTrailingZeros b @ rev (takeWhile (\<lambda>x. x = 0) (rev b))"
      unfolding trimTrailingZeros_def trim_right_def by (metis rev_append rev_rev_ident)
    moreover have "takeWhile (\<lambda>x. x = 0) (rev b) = replicate (length (takeWhile (\<lambda>x. x = 0) (rev b))) 0"
      by (metis (mono_tags, lifting) replicate_length_same set_takeWhileD)
    ultimately show ?thesis using that by (metis rev_replicate)
  qed
  then have "length b = length (trimTrailingZeros b) + n" by (metis length_append length_replicate)
  then show ?thesis using n by (simp add: fit_def)
qed

lemma buildCallProgramRequest_no_panic [simp]: "buildCallProgramRequest G l p ps ds o1 \<noteq> Panic"
  by (auto simp: buildCallProgramRequest_def bind_res_Panic_iff)

lemma buildRunCommandRequest_no_panic [simp]: "buildRunCommandRequest c ds o1 \<noteq> Panic"
  by (auto simp: buildRunCommandRequest_def Let_def)

section \<open>Lemmas: the outputs\<close>

text \<open>An output as the server sends it: plain, or as run-length records (usages 22 and 23).\<close>

datatype wire_output =
    Plain "16 word" "32 word" bytes
  | Packed "16 word" "32 word" "rle_record list"

fun output_data :: "wire_output \<Rightarrow> bytes" where
  "output_data (Plain usage n d) = d"
| "output_data (Packed usage n xs) = concat (map expand xs)"

fun output_raw :: "wire_output \<Rightarrow> bytes" where
  "output_raw (Plain usage n d) = d"
| "output_raw (Packed usage n xs) = concat (map enc_record xs)"

fun output_head :: "wire_output \<Rightarrow> bytes" where
  "output_head (Plain usage n d) = be16 0x1103 @ be32 n @ be16 usage"
| "output_head (Packed usage n xs) = be16 0x1103 @ be32 n @ be16 usage"

fun output_ok :: "wire_output \<Rightarrow> bool" where
  "output_ok (Plain usage n d) = (usage \<noteq> 22 \<and> usage \<noteq> 23)"
| "output_ok (Packed usage n xs) = ((usage = 22 \<or> usage = 23) \<and> list_all valid_record xs)"

definition enc_output :: "wire_output \<Rightarrow> bytes" where
  "enc_output w = be32 (of_nat (12 + length (output_raw w))) @ output_head w @ output_raw w"

definition output_sends :: "wire_output \<Rightarrow> bool" where
  "output_sends w \<longleftrightarrow> output_ok w \<and> 12 + length (output_raw w) < 2 ^ 32"

lemma length_output_head [simp]: "length (output_head w) = 8"
  by (cases w) simp_all

lemma output_entry_append:
  assumes "output_sends w"
  shows "output_entry (pre @ enc_output w @ post) (length pre)
    = Ok (output_data w, length (pre @ enc_output w))"
proof -
  let ?b = "pre @ enc_output w @ post" and ?n = "12 + length (output_raw w)"
  have n: "unat (of_nat ?n :: 32 word) = ?n"
    using assms by (intro unat_of_nat32) (simp add: output_sends_def)
  obtain usage m where head: "output_head w = be16 0x1103 @ be32 m @ be16 usage"
    and data: "\<And>k. (if usage = 22 \<or> usage = 23 then wrap_err OutputRle (decompressRLE (output_raw w) k)
      else Ok (output_raw w)) = Ok (output_data w)"
    using assms by (cases w) (auto simp: output_sends_def decompressRLE_records)
  have reads: "get32 ?b (length pre) = (Ok (of_nat ?n) :: (rmtcmd_error, 32 word) res)"
    "get32 ?b (length pre + 6) = (Ok m :: (rmtcmd_error, 32 word) res)"
    "get16 ?b (length pre + 10) = (Ok usage :: (rmtcmd_error, 16 word) res)"
    "go_slice ?b (length pre + 12) (length pre + ?n) = (Ok (output_raw w) :: (rmtcmd_error, bytes) res)"
    by (simp_all add: enc_output_def head wire_simps del: of_nat_add)
  have len: "length (enc_output w) = ?n" by (simp add: enc_output_def)
  show ?thesis
    unfolding output_entry_def reads using len by (simp add: n reads data del: of_nat_add)
qed

fun fill_outputs :: "parameter list \<Rightarrow> wire_output list \<Rightarrow> parameter list" where
  "fill_outputs [] ws = []"
| "fill_outputs (p # ps) ws =
     (if wants_output p
      then (case ws of w # ws' \<Rightarrow> p\<lparr>pa_OutputData := output_data w\<rparr> # fill_outputs ps ws'
            | [] \<Rightarrow> p # ps)
      else p # fill_outputs ps ws)"

lemma output_from_append:
  assumes "list_all output_sends ws" and "length ws = length (filter wants_output ps)"
  shows "output_from (pre @ concat (map enc_output ws) @ post) (length pre) ps
    = (Ok (), fill_outputs ps ws)"
  using assms
proof (induction ps arbitrary: pre ws)
  case (Cons p ps)
  show ?case
  proof (cases "wants_output p")
    case True
    then obtain w ws' where ws: "ws = w # ws'" using Cons.prems by (cases ws) auto
    have "output_entry (pre @ enc_output w @ (concat (map enc_output ws') @ post)) (length pre)
        = Ok (output_data w, length (pre @ enc_output w))"
      using Cons.prems ws by (intro output_entry_append) simp
    with Cons.IH [of ws' "pre @ enc_output w"] Cons.prems ws True show ?thesis by simp
  next
    case False
    with Cons show ?thesis by simp
  qed
qed simp

lemma output_entry_no_panic [simp]: "output_entry body idx \<noteq> Panic"
  by (auto simp: output_entry_def bind_res_Panic_iff split: if_splits)

lemma output_from_no_panic: "fst (output_from body idx ps) \<noteq> Panic"
proof (induction ps arbitrary: idx)
  case (Cons p ps)
  then show ?case by (cases "output_entry body idx") auto
qed simp

section \<open>Lemmas: the traffic\<close>

lemma parseExchangeAttributesReply_no_panic [simp]: "parseExchangeAttributesReply r \<noteq> Panic"
  by (auto simp: parseExchangeAttributesReply_def bind_res_Panic_iff split: if_splits)

lemma reply_messages_no_panic [simp]: "reply_messages r \<noteq> Panic"
  by (auto simp: reply_messages_def bind_res_Panic_iff Let_def split: if_splits)

lemma rmt_handshake_np: "crypto_sizes C \<Longrightarrow> never_panics (rmt_handshake C millis u p)"
  unfolding rmt_handshake_def by (intro op_rules Logon_never_panics) simp_all

lemma rmt_handshake_adds:
  assumes "crypto_sizes C"
  shows "adds_at_most written 3 (rmt_handshake C millis u p)"
proof -
  have "adds_at_most written (2 + 1) (rmt_handshake C millis u p)"
    unfolding rmt_handshake_def
    by (intro adds_at_most_bind adds_at_most_wrap Logon_adds wire.round_trip_adds assms)
  then show ?thesis by simp
qed

text \<open>A call on the connection of the client, seen from the client.\<close>

lemma client_call:
  assumes "on_part rc_conn rc_conn_update (wrap_op w (Call req)) c = (r, c')"
  shows "r \<noteq> Panic \<and> rc_dsLevel c' = rc_dsLevel c
    \<and> (written (rc_conn c') = written (rc_conn c)
        \<or> written (rc_conn c') = written (rc_conn c) @ [frame_for (rc_conn c') req])
    \<and> (\<forall>x. r = Ok x \<longrightarrow> written (rc_conn c') = written (rc_conn c) @ [frame_for (rc_conn c') req])"
proof -
  obtain r1 conn where call: "Call req (rc_conn c) = (r1, conn)" by fastforce
  then have "r = wrap_err w r1" "c' = c\<lparr>rc_conn := conn\<rparr>"
    using assms by (auto simp: on_part_def wrap_op_def)
  then show ?thesis
    using call wire.call_no_panic [of req "rc_conn c"] wire.attempted [OF call] wire.answered [of req "rc_conn c" _ conn]
    by auto
qed

lemma RunCommand_outcome:
  assumes "RunCommand cmd o1 c = (r, c')"
  shows "r \<noteq> Panic \<and>
    ((\<forall>ms. r \<noteq> Ok ms) \<and> written (rc_conn c') = written (rc_conn c)
     \<or> (\<exists>req. buildRunCommandRequest cmd (rc_dsLevel c) o1 = Ok req
          \<and> written (rc_conn c') = written (rc_conn c) @ [frame_for (rc_conn c') req]))"
proof (cases "buildRunCommandRequest cmd (rc_dsLevel c) o1")
  case (Ok req)
  obtain r1 c1 where call: "on_part rc_conn rc_conn_update (wrap_op (no_messages \<circ> RunCommandCall) (Call req)) c = (r1, c1)"
    by fastforce
  with assms Ok client_call [OF call] show ?thesis
    by (cases r1) (auto simp: RunCommand_def bind_op.simps ret_op_def)
qed (use assms in \<open>auto simp: RunCommand_def bind_op.simps ret_op_def\<close>)

lemma CallProgram_outcome:
  assumes "CallProgram G lib prog o1 (c, ps) = (r, (c', ps'))"
  shows "r \<noteq> Panic \<and>
    ((\<forall>ms. r \<noteq> Ok ms) \<and> written (rc_conn c') = written (rc_conn c)
     \<or> (\<exists>req. buildCallProgramRequest G lib prog ps (rc_dsLevel c) o1 = Ok req
          \<and> written (rc_conn c') = written (rc_conn c) @ [frame_for (rc_conn c') req]))"
proof (cases "buildCallProgramRequest G lib prog ps (rc_dsLevel c) o1")
  case (Ok req)
  obtain r1 c1 where call: "on_part rc_conn rc_conn_update (wrap_op (no_messages \<circ> CallProgramCall) (Call req)) c = (r1, c1)"
    by fastforce
  show ?thesis
  proof (cases r1)
    case r1: (Ok reply)
    then have w: "written (rc_conn c1) = written (rc_conn c) @ [frame_for (rc_conn c1) req]"
      using client_call [OF call] by simp
    have "r \<noteq> Panic \<and> c' = c1"
    proof (cases "reply_messages reply")
      case m: (Ok ms)
      obtain r2 ps2 where out: "parseCallProgramOutput (rp_Body reply) ps = (r2, ps2)" by fastforce
      then have "r2 \<noteq> Panic"
        using output_from_no_panic [of "rp_Body reply" 4 ps] by (simp add: parseCallProgramOutput_def)
      with assms Ok call r1 m out show ?thesis
        by (cases r2) (auto simp: CallProgram_def bind_op.simps ret_op_def on_part_def)
    next
      case Panic
      then show ?thesis by simp
    next
      case (Err e)
      with assms Ok call r1 show ?thesis
        by (auto simp: CallProgram_def bind_op.simps ret_op_def on_part_def)
    qed
    with w Ok show ?thesis by blast
  next
    case Panic
    then show ?thesis using client_call [OF call] by simp
  next
    case (Err e)
    with assms Ok call have "r = Err e \<and> c' = c1"
      by (auto simp: CallProgram_def bind_op.simps ret_op_def on_part_def split: prod.splits)
    with Ok client_call [OF call] show ?thesis by auto
  qed
qed (use assms in \<open>auto simp: CallProgram_def bind_op.simps ret_op_def\<close>)

section \<open>Properties\<close>


definition sample_params :: "parameter list" where
  "sample_params =
     [\<lparr>pa_Usage = InOut, pa_MaxLength = 4, pa_InputData = [7, 0, 0], pa_OutputData = []\<rparr>,
      \<lparr>pa_Usage = Output, pa_MaxLength = 6, pa_InputData = [], pa_OutputData = []\<rparr>]"


text \<open>
  C32. The outputs of a program call are filled in. When the server sends one entry for
  every parameter that wants output, in order, plain or run-length packed, each such
  parameter receives exactly the (unpacked) data of its entry and every other parameter is
  left as it is.
\<close>
theorem call_program_outputs_filled:
  assumes "length rc = 4" and "list_all output_sends ws"
    and "length ws = length (filter wants_output ps)"
  shows "parseCallProgramOutput (rc @ concat (map enc_output ws) @ post) ps
    = (Ok (), fill_outputs ps ws)"
  using output_from_append [OF assms(2,3), of rc post] assms(1)
  by (simp add: parseCallProgramOutput_def)

theorem call_program_outputs_filled_witness:
  "parseCallProgramOutput ([0, 0, 0, 0] @ concat (map enc_output
      [Plain 33 4 [8], Packed 22 6 [Repeat 1 2 3]]) @ []) sample_params
   = (Ok (), [\<lparr>pa_Usage = InOut, pa_MaxLength = 4, pa_InputData = [7, 0, 0], pa_OutputData = [8]\<rparr>,
      \<lparr>pa_Usage = Output, pa_MaxLength = 6, pa_InputData = [], pa_OutputData = [1, 2, 1, 2, 1, 2]\<rparr>])"
proof -
  have rep: "concat (replicate 3 [1, 2]) = [1, 2, 1, 2, 1, 2 :: byte]" by (simp add: numeral_eq_Suc)
  show ?thesis
    by (subst call_program_outputs_filled)
      (simp_all add: sample_params_def wants_output_def output_sends_def rleEscape_def rep)
qed

text \<open>
  The traffic of remote commands. Whatever the server sends, \<^verbatim>\<open>RunCommand\<close> and
  \<^verbatim>\<open>CallProgram\<close> never panic and write at most one frame: nothing when the request cannot
  be built (a datastream level below 10, a name that is not simple), and exactly the
  request when they succeed.
\<close>
theorem remote_command_traffic:
  "(case RunCommand cmd o1 c of (r, c') \<Rightarrow> r \<noteq> Panic \<and>
      ((\<forall>ms. r \<noteq> Ok ms) \<and> written (rc_conn c') = written (rc_conn c)
       \<or> (\<exists>req. buildRunCommandRequest cmd (rc_dsLevel c) o1 = Ok req
            \<and> written (rc_conn c') = written (rc_conn c) @ [frame_for (rc_conn c') req])))
   \<and> (case CallProgram G lib prog o1 (c, ps) of (r, c', ps') \<Rightarrow> r \<noteq> Panic \<and>
      ((\<forall>ms. r \<noteq> Ok ms) \<and> written (rc_conn c') = written (rc_conn c)
       \<or> (\<exists>req. buildCallProgramRequest G lib prog ps (rc_dsLevel c) o1 = Ok req
            \<and> written (rc_conn c') = written (rc_conn c) @ [frame_for (rc_conn c') req])))"
  using RunCommand_outcome [of cmd o1 c] CallProgram_outcome [of G lib prog o1 c ps]
  by (auto split: prod.splits)

end
