(* ===== verification/CliRmtcmd.thy ===== *)
theory CliRmtcmd
  imports Rmtcmd GoFlag
begin

text \<open>
  \<^verbatim>\<open>examples/rmtcmd/main.go\<close>: the program that runs a CL command or calls a program. What it
  prints is a list of lines, each with the data its \<^verbatim>\<open>Printf\<close> formats; \<^verbatim>\<open>os.Exit\<close> does not run
  deferred calls, so the connection is closed on success only.
\<close>

section \<open>Program parameters on the command line\<close>

text \<open>\<^verbatim>\<open>strings.SplitN\<close> at a byte, for a positive limit, and \<^verbatim>\<open>strings.ToLower\<close>.\<close>

fun SplitN :: "char \<Rightarrow> string \<Rightarrow> nat \<Rightarrow> string list" where
  "SplitN sep s 0 = []"
| "SplitN sep s (Suc n) =
     (if n = 0 \<or> sep \<notin> set s then [s] else fst (Cut sep s) # SplitN sep (snd (Cut sep s)) n)"

definition ToLower :: "(nat \<Rightarrow> nat) \<Rightarrow> string \<Rightarrow> string" where
  "ToLower lower s =
     (if list_all (\<lambda>c. (of_char c :: nat) < 0x80) s then map ascii_lower s
      else string_of_runes (map (\<lambda>r. if 65 \<le> r \<and> r \<le> 90 then r + 32 else if r < 0x80 then r else lower r) (runes s)))"

datatype spec_error =
    SpecShape string
  | SpecUsage string
  | SpecMaxLen string
  | SpecTooLong string string int
  | SpecData string ebcdic_error

definition usage_of :: "string \<Rightarrow> param_usage option" where
  "usage_of = map_of [(''input'', Input), (''output'', Output), (''inout'', InOut), (''null'', Null)]"

text \<open>The text of a parameter, blank-padded; no text is longer than a negative length allows.\<close>

definition spec_data :: "'a golib_scheme \<Rightarrow> string \<Rightarrow> string list \<Rightarrow> int \<Rightarrow> (spec_error, bytes) res" where
  "spec_data G spec rest maxLen =
     (case rest of
        [] \<Rightarrow> Ok []
      | d # _ \<Rightarrow>
          if d = [] then Ok []
          else if maxLen < 0 then Err (SpecTooLong spec (ToUpper G d) maxLen)
          else wrap_err (SpecData spec) (EncodeEBCDICPadded (ToUpper G d) (nat maxLen)))"

text \<open>The body of the loop of \<^verbatim>\<open>parseParams\<close>; \<^verbatim>\<open>int32(maxLen)\<close> keeps the low 32 bits.\<close>

definition parseParam :: "'a golib_scheme \<Rightarrow> (nat \<Rightarrow> nat) \<Rightarrow> string \<Rightarrow> (spec_error, parameter) res" where
  "parseParam G lower spec =
     (case SplitN CHR '':'' spec 3 of
        u # n # rest \<Rightarrow>
          (case usage_of (ToLower lower u) of
             None \<Rightarrow> Err (SpecUsage spec)
           | Some usage \<Rightarrow>
               (case ParseInt n of
                  None \<Rightarrow> Err (SpecMaxLen spec)
                | Some maxLen \<Rightarrow>
                    bind_res (spec_data G spec rest maxLen) (\<lambda>d.
                    Ok \<lparr>pa_Usage = usage, pa_MaxLength = of_int maxLen, pa_InputData = d, pa_OutputData = []\<rparr>)))
      | _ \<Rightarrow> Err (SpecShape spec))"

fun parseParams :: "'a golib_scheme \<Rightarrow> (nat \<Rightarrow> nat) \<Rightarrow> string list \<Rightarrow> (spec_error, parameter list) res" where
  "parseParams G lower [] = Ok []"
| "parseParams G lower (spec # specs) =
     bind_res (parseParam G lower spec) (\<lambda>p. fmap_res ((#) p) (parseParams G lower specs))"

section \<open>The flags\<close>

record rmt_flags =
  rf_host :: string
  rf_user :: string
  rf_password :: string
  rf_tls :: bool
  rf_timeout :: int
  rf_command :: string
  rf_program :: string
  rf_pgmlib :: string
  rf_params :: "string list"

definition rmt_defaults :: rmt_flags where
  "rmt_defaults = \<lparr>rf_host = [], rf_user = [], rf_password = [], rf_tls = False, rf_timeout = 10 * 10 ^ 9,
     rf_command = [], rf_program = [], rf_pgmlib = [], rf_params = []\<rparr>"

definition rmt_flag_set :: "string \<Rightarrow> rmt_flags flag option" where
  "rmt_flag_set = map_of
     [(''host'', string_flag (\<lambda>v. rf_host_update (\<lambda>_. v))),
      (''user'', string_flag (\<lambda>v. rf_user_update (\<lambda>_. v))),
      (''password'', string_flag (\<lambda>v. rf_password_update (\<lambda>_. v))),
      (''tls'', bool_flag (\<lambda>v. rf_tls_update (\<lambda>_. v))),
      (''timeout'', duration_flag (\<lambda>v. rf_timeout_update (\<lambda>_. v))),
      (''command'', string_flag (\<lambda>v. rf_command_update (\<lambda>_. v))),
      (''program'', string_flag (\<lambda>v. rf_program_update (\<lambda>_. v))),
      (''pgmlib'', string_flag (\<lambda>v. rf_pgmlib_update (\<lambda>_. v))),
      (''param'', string_flag (\<lambda>v. rf_params_update (\<lambda>ps. ps @ [v])))]"

section \<open>The program\<close>

datatype rmt_line =
    RmtFail string
  | RmtBadParam spec_error
  | RmtConnectFailed rmtcmd_error
  | MessageLine string nat nat string
  | ParamLine nat bytes string
  | RmtFailed rmtcmd_error
  | RmtSuccess

definition rmt_usage :: string where
  "rmt_usage = ''usage: rmtcmd -host <host> -user <user> [-password <password>] [-tls] ''
     @ ''(-command <cl command> | -program <name> -pgmlib <lib> [-param usage:maxlen[:data]]...)''"

definition message_line :: "message \<Rightarrow> rmt_line" where
  "message_line m = MessageLine (ms_ID m) (ms_Severity m) (ms_Type m) (ms_Text m)"

text \<open>The output parameters, numbered from \<open>i\<close> on among all parameters.\<close>

fun param_lines :: "nat \<Rightarrow> parameter list \<Rightarrow> rmt_line list" where
  "param_lines i [] = []"
| "param_lines i (p # ps) =
     (if pa_Usage p = Output \<or> pa_Usage p = InOut
      then [ParamLine i (pa_OutputData p) (DecodeEBCDICLossy (pa_OutputData p))] else [])
     @ param_lines (Suc i) ps"

text \<open>Running the command or calling the program on a client, whose parameters it updates.\<close>

definition rmt_call ::
  "'a golib_scheme \<Rightarrow> rmt_flags \<Rightarrow> (rmt_client \<times> parameter list, rmt_failure, message list) op" where
  "rmt_call G f = (\<lambda>(c, ps).
     if rf_command f \<noteq> []
     then (case RunCommand (rf_command f) MessageOptionUpTo10 c of (r, c') \<Rightarrow> (r, (c', ps)))
     else CallProgram G (rf_pgmlib f) (rf_program f) MessageOptionUpTo10 (c, ps))"

definition rmt_dial :: "rmt_flags \<Rightarrow> dial_options" where
  "rmt_dial f = \<lparr>do_Host = rf_host f, do_Port = 0, do_TLS = rf_tls f, do_Timeout = rf_timeout f, do_IOTimeout = 0\<rparr>"

text \<open>\<^verbatim>\<open>main\<close> from the connection on.\<close>

definition rmt_session ::
  "'a crypto_scheme \<Rightarrow> (dial_options \<Rightarrow> io_event list option) \<Rightarrow> 64 word \<Rightarrow> rmt_flags \<Rightarrow> string \<Rightarrow> parameter list
   \<Rightarrow> status \<times> rmt_line list \<times> connection option" where
  "rmt_session C net millis f pw callParams =
     (case rmt_Connect C net millis (rmt_dial f) (rf_user f) pw of
        (Panic, k) \<Rightarrow> (Crashed, [], k)
      | (Err e, k) \<Rightarrow> (Exit 1, [RmtConnectFailed e], k)
      | (Ok client, k) \<Rightarrow>
          (case rmt_call C f (client, callParams) of
             (Panic, (c, ps)) \<Rightarrow> (Crashed, [], Some (rc_conn (rmt_Close c)))
           | (Err (e, messages), (c, ps)) \<Rightarrow>
               (Exit 1, map message_line messages @ param_lines 0 ps @ [RmtFailed e], Some (rc_conn c))
           | (Ok messages, (c, ps)) \<Rightarrow>
               (Exit 0, map message_line messages @ param_lines 0 ps @ [RmtSuccess], Some (rc_conn (rmt_Close c)))))"

text \<open>\<^verbatim>\<open>main\<close>, given its arguments and \<^verbatim>\<open>JT400_PASSWORD\<close>; the connection is \<open>None\<close> if none was dialed.\<close>

definition rmt_main ::
  "'a crypto_scheme \<Rightarrow> (nat \<Rightarrow> nat) \<Rightarrow> (dial_options \<Rightarrow> io_event list option) \<Rightarrow> 64 word \<Rightarrow> string \<Rightarrow> string list
   \<Rightarrow> status \<times> rmt_line list \<times> connection option" where
  "rmt_main C lower net millis env args =
     (case flag_Parse rmt_flag_set args rmt_defaults of
        Inl st \<Rightarrow> (Exit st, [], None)
      | Inr f \<Rightarrow>
          if rf_host f = [] \<or> rf_user f = [] then (Exit 2, [RmtFail rmt_usage], None)
          else if (rf_command f = []) = (rf_program f = [])
          then (Exit 2, [RmtFail ''specify exactly one of -command or -program''], None)
          else
            let pw = chosen_password (rf_password f) env in
            if pw = [] then (Exit 2, [RmtFail ''no password given (use -password or set JT400_PASSWORD)''], None)
            else
              (case (if rf_program f \<noteq> [] then parseParams C lower (rf_params f) else Ok []) of
                 Panic \<Rightarrow> (Crashed, [], None)
               | Err e \<Rightarrow> (Exit 2, [RmtBadParam e], None)
               | Ok callParams \<Rightarrow> rmt_session C net millis f pw callParams))"

section \<open>Lemmas\<close>

text \<open>A parameter as it is written on the command line: usage word, maximum length, text.\<close>

type_synonym spec = "string \<times> int \<times> string option"

fun spec_text :: "spec \<Rightarrow> string" where
  "spec_text (w, n, None) = w @ CHR '':'' # FormatInt n"
| "spec_text (w, n, Some d) = w @ CHR '':'' # FormatInt n @ CHR '':'' # d"

text \<open>The text in upper case, if there is any, and whether the field can hold it.\<close>

definition spec_upper :: "'a golib_scheme \<Rightarrow> spec \<Rightarrow> string" where
  "spec_upper G = (\<lambda>(w, n, d). case d of None \<Rightarrow> [] | Some t \<Rightarrow> ToUpper G t)"

definition spec_ok :: "'a golib_scheme \<Rightarrow> (nat \<Rightarrow> nat) \<Rightarrow> spec \<Rightarrow> bool" where
  "spec_ok G lower x \<longleftrightarrow> (case x of (w, n, d) \<Rightarrow>
     usage_of (ToLower lower w) \<noteq> None \<and> CHR '':'' \<notin> set w \<and> 0 \<le> n \<and> n < 2 ^ 31
     \<and> list_all simple_char (spec_upper G x) \<and> length (spec_upper G x) \<le> nat n)"

definition spec_matches :: "'a golib_scheme \<Rightarrow> (nat \<Rightarrow> nat) \<Rightarrow> spec \<Rightarrow> parameter \<Rightarrow> bool" where
  "spec_matches G lower x p \<longleftrightarrow> (case x of (w, n, d) \<Rightarrow>
     usage_of (ToLower lower w) = Some (pa_Usage p) \<and> sint (pa_MaxLength p) = n \<and> pa_OutputData p = []
     \<and> (if d = None \<or> d = Some [] then pa_InputData p = []
        else DecodeEBCDICLossy (pa_InputData p) = spec_upper G x @ blanks (nat n - length (spec_upper G x))))"

lemma FormatInt_no_colon: "CHR '':'' \<notin> set (FormatInt n)"
proof -
  have "\<not> is_digit CHR '':''" by (simp add: is_digit_def)
  then have "CHR '':'' \<notin> set (dec_digits k)" for k
    using dec_digits_digits [of k] unfolding list_all_iff by blast
  then show ?thesis by (simp add: FormatInt_def)
qed

lemma SplitN_text:
  "CHR '':'' \<notin> set w \<Longrightarrow> SplitN CHR '':'' (spec_text (w, n, d)) 3 = w # FormatInt n # (case d of None \<Rightarrow> [] | Some t \<Rightarrow> [t])"
  using FormatInt_no_colon [of n] by (cases d) (simp_all add: numeral_3_eq_3 Cut_append)

lemma parseParam_text:
  assumes "spec_ok G lower x"
  shows "\<exists>p. parseParam G lower (spec_text x) = Ok p \<and> spec_matches G lower x p"
proof -
  obtain w n d where x: "x = (w, n, d)" by (cases x) auto
  let ?rest = "case d of None \<Rightarrow> [] | Some t \<Rightarrow> [t]"
  obtain us where us: "usage_of (ToLower lower w) = Some us" using assms by (auto simp: spec_ok_def x)
  have n: "0 \<le> n" "n < 2 ^ 31" and w: "CHR '':'' \<notin> set w" using assms by (simp_all add: spec_ok_def x)
  have "ParseInt (FormatInt n) = Some n" by (rule ParseInt_FormatInt) (use n in simp_all)
  then have p: "parseParam G lower (spec_text x) = bind_res (spec_data G (spec_text x) ?rest n)
      (\<lambda>d. Ok \<lparr>pa_Usage = us, pa_MaxLength = of_int n, pa_InputData = d, pa_OutputData = []\<rparr>)"
    using us by (simp add: parseParam_def x SplitN_text [OF w] del: spec_text.simps SplitN.simps)
  have len: "sint (of_int n :: 32 word) = n" using n by (simp add: signed_of_int signed_take_bit_int_eq_self)
  show ?thesis
  proof (cases "d = None \<or> d = Some []")
    case True
    then have "spec_data G (spec_text x) ?rest n = Ok []" by (auto simp: spec_data_def)
    with p True us len show ?thesis by (simp add: spec_matches_def x)
  next
    case False
    then obtain t where t: "d = Some t" "t \<noteq> []" by auto
    obtain b where b: "EncodeEBCDICPadded (ToUpper G t) (nat n) = Ok b"
      using EncodeEBCDICPadded_total [of "ToUpper G t" "nat n"] assms by (auto simp: spec_ok_def spec_upper_def x t)
    then have "spec_data G (spec_text x) ?rest n = Ok b" using t n by (simp add: spec_data_def)
    moreover have "DecodeEBCDICLossy b = ToUpper G t @ blanks (nat n - length (ToUpper G t))"
      using b EncodeEBCDICPadded_Ok_iff by blast
    ultimately show ?thesis using p us len t by (simp add: spec_matches_def spec_upper_def x)
  qed
qed

lemma parseParam_no_panic: "parseParam G lower spec \<noteq> Panic"
  by (auto simp: parseParam_def spec_data_def bind_res_Panic_iff split: list.splits option.splits)

lemma parseParams_no_panic: "parseParams G lower specs \<noteq> Panic"
  by (induction specs) (simp_all add: bind_res_Panic_iff parseParam_no_panic)

text \<open>A length beyond 32 bits is not refused: the low bits of it are sent.\<close>

lemma huge_length_is_cut:
  "parseParam G lower ''output:4294967297'' = Ok \<lparr>pa_Usage = Output, pa_MaxLength = 1, pa_InputData = [], pa_OutputData = []\<rparr>"
proof -
  have "SplitN CHR '':'' ''output:4294967297'' 3 = [''output'', ''4294967297'']" by (simp add: numeral_3_eq_3)
  moreover have "ToLower lower ''output'' = ''output''" by (simp add: ToLower_def ascii_lower_def)
  moreover have "ParseInt ''4294967297'' = Some 4294967297"
    by (simp add: ParseInt_def split_sign_def HasPrefix_def is_digit_def digits_val_def digit_val_def)
  ultimately show ?thesis by (simp add: parseParam_def usage_of_def spec_data_def)
qed

section \<open>Lemmas: the program\<close>

lemma rmt_Connect_outcome:
  assumes "crypto_sizes C" "rmt_Connect C net millis opts u p = (r, k)"
  shows "r \<noteq> Panic \<and> (\<forall>e. r = Err e \<longrightarrow> k = None \<or> (\<exists>conn. k = Some conn \<and> net_closed conn \<and> length (written conn) \<le> 3))
    \<and> (\<forall>c. r = Ok c \<longrightarrow> k = Some (rc_conn c) \<and> length (written (rc_conn c)) \<le> 3)"
proof -
  obtain r0 k0 where c: "connect_with net (default_port PortRemoteCommandPlain PortRemoteCommandSecure opts) RmtDial
      (rmt_handshake C millis u p) = (r0, k0)" by fastforce
  note out = connect_with_outcome [OF c rmt_handshake_np [OF assms(1)] rmt_handshake_adds [OF assms(1)]]
  show ?thesis
  proof (cases r0)
    case (Ok x)
    with out obtain conn where "k0 = Some conn" "length (written conn) \<le> 3" by blast
    with Ok c assms(2) show ?thesis by (auto simp: rmt_Connect_def split: prod.splits)
  next
    case (Err e)
    with c assms(2) out show ?thesis by (auto simp: rmt_Connect_def)
  qed (use out in blast)
qed

lemma rmt_call_outcome:
  assumes "rmt_call G f (c, ps) = (r, (c', ps'))"
  shows "r \<noteq> Panic \<and> length (written (rc_conn c')) \<le> Suc (length (written (rc_conn c)))"
proof (cases "rf_command f = []")
  case True
  then have "CallProgram G (rf_pgmlib f) (rf_program f) MessageOptionUpTo10 (c, ps) = (r, (c', ps'))"
    using assms by (simp add: rmt_call_def)
  from CallProgram_outcome [OF this] show ?thesis by auto
next
  case False
  obtain c1 where "RunCommand (rf_command f) MessageOptionUpTo10 c = (r, c1)" "c' = c1"
    using assms False by (auto simp: rmt_call_def split: prod.splits)
  with RunCommand_outcome [of "rf_command f" MessageOptionUpTo10 c r c1] show ?thesis by auto
qed

lemma no_success_lines: "RmtSuccess \<notin> set (map message_line ms @ param_lines i ps)"
  by (induction ps arbitrary: i) (auto simp: message_line_def)

text \<open>What the status of the program tells, with the connection it leaves.\<close>

definition rmt_told :: "status \<Rightarrow> rmt_line list \<Rightarrow> connection option \<Rightarrow> bool" where
  "rmt_told st lines k \<longleftrightarrow> st \<in> {Exit 0, Exit 1, Exit 2} \<and> (st = Exit 2 \<longrightarrow> k = None)
     \<and> (RmtSuccess \<in> set lines \<longleftrightarrow> st = Exit 0 \<and> lines \<noteq> [])
     \<and> (RmtSuccess \<in> set lines \<longrightarrow> (\<exists>conn. k = Some conn \<and> net_closed conn))
     \<and> (\<forall>conn. k = Some conn \<longrightarrow> length (written conn) \<le> 4)"

lemma rmt_session_told:
  assumes "crypto_sizes C" "rmt_session C net millis f pw ps = (st, lines, k)"
  shows "rmt_told st lines k"
proof -
  obtain r k0 where c: "rmt_Connect C net millis (rmt_dial f) (rf_user f) pw = (r, k0)" by fastforce
  note out = rmt_Connect_outcome [OF assms(1) c]
  show ?thesis
  proof (cases r)
    case (Ok client)
    obtain r1 c1 ps1 where call: "rmt_call C f (client, ps) = (r1, (c1, ps1))" by (metis surj_pair)
    note w = rmt_call_outcome [OF call]
    have l: "length (written (rc_conn c1)) \<le> 4" using w out Ok by fastforce
    show ?thesis
    proof (cases r1)
      case (Err x)
      then have "st = Exit 1" "lines = map message_line (snd x) @ param_lines 0 ps1 @ [RmtFailed (fst x)]" "k = Some (rc_conn c1)"
        using assms(2) Ok c call by (auto simp: rmt_session_def split: prod.splits)
      with l no_success_lines [of "snd x" 0 ps1] show ?thesis by (simp add: rmt_told_def)
    qed (use assms(2) Ok c call l w in \<open>auto simp: rmt_session_def rmt_told_def rmt_Close_def close_conn_def\<close>)
  qed (use assms(2) c out in \<open>auto simp: rmt_session_def rmt_told_def\<close>)
qed

section \<open>Properties\<close>





end
