(* ===== verification/DbQuery.thy ===== *)
theory DbQuery
  imports DbTrace
begin

text \<open>
  A whole query against a server that answers: prepare, bind, open, one fetch per further block,
  the rows as the caller receives them, and what closing the rows undoes.
\<close>

section \<open>What the server answers\<close>

text \<open>A reply that describes the columns and the parameters of a statement.\<close>

definition describes :: "ccsid_table \<Rightarrow> field list \<Rightarrow> field list \<Rightarrow> request \<Rightarrow> bool" where
  "describes T cols params a \<longleftrightarrow> frameable a \<and>
     (case parseReply T (reply_of a) of
        Ok rep \<Rightarrow> \<not> failed rep \<and> map_option df_fields (dr_dataFormat rep) = Some cols
          \<and> (case dr_paramFormat rep of None \<Rightarrow> params = [] | Some pf \<Rightarrow> df_fields pf = params)
      | _ \<Rightarrow> False)"

text \<open>
  A reply that carries one block of a table. Only the last block may be empty; with it comes the
  end of the data and, if \<open>cc\<close>, the news that the server has closed the cursor.
\<close>

definition gives_block ::
  "ccsid_table \<Rightarrow> field list \<Rightarrow> bool \<Rightarrow> bool \<Rightarrow> bytes option list list \<Rightarrow> request \<Rightarrow> bool"
where
  "gives_block T cols cc final b a \<longleftrightarrow> frameable a \<and> table_fits cols b \<and> (final \<or> b \<noteq> []) \<and>
     (case parseReply T (reply_of a) of
        Ok rep \<Rightarrow> \<not> failed rep \<and> dr_resultData rep = Some (rows_block cols b) \<and> endOfData rep = final
          \<and> cursorClosedByServer rep = (final \<and> cc)
      | _ \<Rightarrow> False)"

fun gives_blocks ::
  "ccsid_table \<Rightarrow> field list \<Rightarrow> bool \<Rightarrow> bytes option list list list \<Rightarrow> request list \<Rightarrow> bool"
where
  "gives_blocks T cols cc [] as = (as = [])"
| "gives_blocks T cols cc (b # bs) [] = False"
| "gives_blocks T cols cc (b # bs) (a # as) =
     (gives_block T cols cc (bs = []) b a \<and> gives_blocks T cols cc bs as)"

lemma describesD: "describes T cols params a \<Longrightarrow>
   \<exists>rep. answers T a rep \<and> (\<exists>df. dr_dataFormat rep = Some df \<and> df_fields df = cols)
     \<and> (case dr_paramFormat rep of None \<Rightarrow> params = [] | Some pf \<Rightarrow> df_fields pf = params)"
  by (auto simp: describes_def answers_def split: res.splits)

lemma gives_blockD: "gives_block T cols cc final b a \<Longrightarrow>
   \<exists>rep. answers T a rep \<and> dr_resultData rep = Some (rows_block cols b) \<and> endOfData rep = final
     \<and> cursorClosedByServer rep = (final \<and> cc) \<and> table_fits cols b \<and> (final \<or> b \<noteq> [])"
  by (auto simp: gives_block_def answers_def split: res.splits)

section \<open>Delivering the blocks\<close>

text \<open>The rows stand at the start of a block; \<open>further\<close> blocks are to come.\<close>

definition at_block :: "db_session \<Rightarrow> nat \<Rightarrow> field list \<Rightarrow> bool \<Rightarrow> bool \<Rightarrow> bytes option list list \<Rightarrow> bool" where
  "at_block s r cols cc further b \<longleftrightarrow> reading s r (rows_block cols b) 0 \<and> rows_columns s r = cols \<and> table_fits cols b
     \<and> rw_eof (ss_rows s r) = (\<not> further) \<and> rw_cursorOpen (ss_rows s r) = (further \<or> \<not> cc)"

text \<open>Only the rows \<open>r\<close> were read: all else the session knows is unchanged.\<close>

definition only_read :: "db_session \<Rightarrow> nat \<Rightarrow> db_session \<Rightarrow> bool" where
  "only_read s r s' \<longleftrightarrow> ss_stmts s' = ss_stmts s \<and> dc_ids (ss_conn s') = dc_ids (ss_conn s)
     \<and> conn_location (ss_conn s') = conn_location (ss_conn s) \<and> rw_closed (ss_rows s' r) = rw_closed (ss_rows s r)
     \<and> rw_st (ss_rows s' r) = rw_st (ss_rows s r) \<and> rw_closeStmt (ss_rows s' r) = rw_closeStmt (ss_rows s r)"

lemma only_read_trans: "only_read s r s1 \<Longrightarrow> only_read s1 r s2 \<Longrightarrow> only_read s r s2"
  by (simp add: only_read_def)

lemma no_rows_block: "no_rows (Some (rows_block cols b)) \<longleftrightarrow> b = []"
  by (simp add: no_rows_def rows_block_def)

lemma fetch_answered:
  assumes "serving (ss_conn s) (a # as)" "gives_block T cols cc final b a"
    and "\<not> rw_closed (ss_rows s r)" "\<not> rw_eof (ss_rows s r)" "rw_cursorOpen (ss_rows s r)" "rows_columns s r = cols"
  shows "\<exists>s1. fetch T r s = (Ok (), s1) \<and> serving (ss_conn s1) as \<and> sent (ss_conn s) (ss_conn s1) [fnFetch]
    \<and> at_block s1 r cols cc (\<not> final) b \<and> only_read s r s1"
proof -
  obtain rep where rep: "answers T a rep" "dr_resultData rep = Some (rows_block cols b)" "endOfData rep = final"
      "cursorClosedByServer rep = (final \<and> cc)" "table_fits cols b" "final \<or> b \<noteq> []"
    using gives_blockD [OF assms(2)] by blast
  obtain k where k: "on_conn (db_request_ok T background ''fetch''
        (fetch_request (ss_stmts s (rw_st (ss_rows s r))) (ss_conn s))) s = (Ok rep, online s k)"
      "serving (ss_conn (online s k)) as" "sent (ss_conn s) (ss_conn (online s k)) [fnFetch]"
    using on_answered [OF assms(1) rep(1)] by fastforce
  define x where "x = absorb_block rep (ss_rows s r)"
  define s1 where "s1 = upd_rows r (\<lambda>_. x) (online s k)"
  have f: "fetch T r s = (Ok (), s1)"
    using k(1) by (simp add: fetch_def bind_op.simps s1_def x_def upd_rows_def)
  have x: "rw_closed x = rw_closed (ss_rows s r)" "rw_st x = rw_st (ss_rows s r)" "rw_closeStmt x = rw_closeStmt (ss_rows s r)"
    "rw_block x = Some (rows_block cols b)" "rw_next x = 0" "rw_eof x = final" "rw_cursorOpen x = (\<not> final \<or> \<not> cc)"
    using rep(2-4,6) assms(4,5) unfolding x_def absorb_block_def absorbEnd_def Let_def
    by (cases final; cases cc; simp add: no_rows_block)+
  have at: "at_block s1 r cols cc (\<not> final) b"
    using x rep(5) assms(3,6) by (simp add: at_block_def reading_def s1_def upd_rows_def rows_columns_def)
  have "ss_conn s1 = ss_conn (online s k)" by (simp add: s1_def upd_rows_def)
  note c = k(2,3)[folded this]
  have "only_read s r s1" using x(1-3) by (simp add: only_read_def s1_def upd_rows_def)
  with f c at show ?thesis by blast
qed

text \<open>\<^verbatim>\<open>Next\<close> at the end of a block is \<^verbatim>\<open>Next\<close> at the start of the one it fetches.\<close>

lemma Next_fetched:
  assumes "fetch (ve_ccsids E) r s = (Ok (), s1)" "\<not> has_row (ss_rows s r)" "\<not> rw_eof (ss_rows s r)"
    and "\<not> rw_closed (ss_rows s r)" "\<not> rw_closed (ss_rows s1 r)"
  shows "Next E r (s, dest) = Next E r (s1, dest)" "read_rows E r (Suc n) (s, dest) = read_rows E r (Suc n) (s1, dest)"
proof -
  have "next_row (ve_ccsids E) r s = next_row (ve_ccsids E) r s1"
    using assms(1-3) by (subst next_row.simps) simp
  then show "Next E r (s, dest) = Next E r (s1, dest)" using assms(4,5) by (simp add: Next_def)
  then show "read_rows E r (Suc n) (s, dest) = read_rows E r (Suc n) (s1, dest)" by simp
qed

lemma read_rows_add:
  "read_rows E r m sd = (xs, sd1) \<Longrightarrow> length xs = m \<Longrightarrow>
   read_rows E r (m + n) sd = apfst ((@) xs) (read_rows E r n sd1)"
proof (induction m arbitrary: sd xs)
  case 0
  then show ?case by (cases "read_rows E r n sd1") simp
next
  case (Suc m)
  obtain w sd2 where nx: "Next E r sd = (w, sd2)" by (metis surj_pair)
  with Suc.prems obtain u where w: "w = Ok u" by (cases w) auto
  obtain ys sd3 where ys: "read_rows E r m sd2 = (ys, sd3)" by (metis surj_pair)
  with nx w Suc.prems have xs: "xs = snd sd2 # ys" "sd3 = sd1" "length ys = m" by auto
  from Suc.IH [OF ys[unfolded xs(2)] xs(3)] nx w show ?case
    by (cases "read_rows E r n sd1") (simp add: xs(1))
qed

lemma block_read:
  assumes "at_block s r cols cc further b" "list_all2 (row_reads E (conn_location (ss_conn s)) cols) b valss"
    and "length dest = length cols"
  shows "\<exists>s1 d. read_rows E r (length valss) (s, dest) = (valss, (s1, d)) \<and> length d = length cols
    \<and> \<not> has_row (ss_rows s1 r) \<and> \<not> rw_closed (ss_rows s1 r) \<and> rw_eof (ss_rows s1 r) = (\<not> further)
    \<and> rw_cursorOpen (ss_rows s1 r) = (further \<or> \<not> cc) \<and> rows_columns s1 r = cols \<and> ss_conn s1 = ss_conn s
    \<and> only_read s r s1"
proof -
  from assms(1) have rd: "reading s r (rows_block cols b) 0" "rows_columns s r = cols" "table_fits cols b"
      "rw_eof (ss_rows s r) = (\<not> further)" "rw_cursorOpen (ss_rows s r) = (further \<or> \<not> cc)"
    by (simp_all add: at_block_def)
  have "list_all2 (row_reads E (conn_location (ss_conn s)) (rows_columns s r)) (drop 0 b) valss"
    "block_holds (rows_block cols b) (rows_columns s r) b"
    using assms(2) block_holds_rows_block [OF rd(3)] rd(2) by simp_all
  then obtain d where d: "read_rows E r (length valss) (s, dest) = (valss, (upd_rows r (\<lambda>x. x\<lparr>rw_next := length b\<rparr>) s, d))"
      "length d = length dest"
    using read_rows_from [OF rd(1)] assms(3) rd(2) by blast
  then show ?thesis
    using rd assms(3) by (intro exI [of _ "upd_rows r (\<lambda>x. x\<lparr>rw_next := length b\<rparr>) s"] exI [of _ d])
      (simp add: upd_rows_def reading_def has_row_def rows_block_def rows_columns_def only_read_def)
qed

text \<open>Reading on over a fetch, whether rows are left to read or not.\<close>

lemma read_on:
  assumes "fetch (ve_ccsids E) r s1 = (Ok (), s2)" "\<not> has_row (ss_rows s1 r)" "\<not> rw_eof (ss_rows s1 r)"
    and "\<not> rw_closed (ss_rows s1 r)" "\<not> rw_closed (ss_rows s2 r)"
    and "read_rows E r n (s2, d1) = (xs, (s3, d))" "Next E r (s3, d) = (Err DbEOF, (s4, d))"
  shows "\<exists>s5. read_rows E r n (s1, d1) = (xs, (s5, d)) \<and> Next E r (s5, d) = (Err DbEOF, (s4, d))"
  using Next_fetched [OF assms(1-5)] assms(6,7) by (cases n) auto

lemma blocks_delivered:
  assumes "at_block s r cols cc (bs \<noteq> []) b" "serving (ss_conn s) (as @ rest)" "gives_blocks (ve_ccsids E) cols cc bs as"
    and "list_all2 (row_reads E (conn_location (ss_conn s)) cols) (concat (b # bs)) valss" "length dest = length cols"
  shows "\<exists>s1 s2 d. read_rows E r (length valss) (s, dest) = (valss, (s1, d)) \<and> Next E r (s1, d) = (Err DbEOF, (s2, d))
    \<and> serving (ss_conn s2) rest \<and> sent (ss_conn s) (ss_conn s2) (replicate (length bs) fnFetch)
    \<and> only_read s r s2 \<and> rw_cursorOpen (ss_rows s2 r) = (\<not> cc) \<and> \<not> rw_closed (ss_rows s2 r)"
  using assms
proof (induction bs arbitrary: s b as valss dest)
  case Nil
  have "list_all2 (row_reads E (conn_location (ss_conn s)) cols) b valss" using Nil.prems(4) by simp
  from block_read [OF Nil.prems(1) this Nil.prems(5)] obtain s1 d where
    s1: "read_rows E r (length valss) (s, dest) = (valss, (s1, d))" "\<not> has_row (ss_rows s1 r)" "\<not> rw_closed (ss_rows s1 r)"
      "rw_eof (ss_rows s1 r)" "rw_cursorOpen (ss_rows s1 r) = (\<not> cc)" "ss_conn s1 = ss_conn s" "only_read s r s1" by auto
  moreover have "Next E r (s1, d) = (Err DbEOF, (s1, d))" using s1(2-4) by (simp add: Next_def next_row_eq)
  ultimately show ?case using Nil.prems(2,3) by (intro exI [of _ s1] exI [of _ d]) simp
next
  case (Cons b' bs)
  obtain a as' where as: "as = a # as'" "gives_block (ve_ccsids E) cols cc (bs = []) b' a" "gives_blocks (ve_ccsids E) cols cc bs as'"
    using Cons.prems(3) by (cases as) auto
  obtain v1 v2 where v: "valss = v1 @ v2" "list_all2 (row_reads E (conn_location (ss_conn s)) cols) b v1"
      "list_all2 (row_reads E (conn_location (ss_conn s)) cols) (concat (b' # bs)) v2"
    using Cons.prems(4) by (auto simp: list_all2_append1)
  from block_read [OF Cons.prems(1) v(2) Cons.prems(5)] obtain s1 d1 where
    d1: "read_rows E r (length v1) (s, dest) = (v1, (s1, d1))" "length d1 = length cols"
    and s1: "\<not> has_row (ss_rows s1 r)" "\<not> rw_eof (ss_rows s1 r)" "\<not> rw_closed (ss_rows s1 r)" "rw_cursorOpen (ss_rows s1 r)"
      "rows_columns s1 r = cols" "ss_conn s1 = ss_conn s" "only_read s r s1" by auto
  have "serving (ss_conn s1) (a # as' @ rest)" using Cons.prems(2) s1(6) as(1) by simp
  from fetch_answered [OF this as(2) s1(3,2,4,5)] obtain s2 where
    s2: "fetch (ve_ccsids E) r s1 = (Ok (), s2)" "serving (ss_conn s2) (as' @ rest)"
      "sent (ss_conn s1) (ss_conn s2) [fnFetch]" "at_block s2 r cols cc (bs \<noteq> []) b'" "only_read s1 r s2" by blast
  have o: "only_read s r s2" using only_read_trans [OF s1(7) s2(5)] .
  have open2: "\<not> rw_closed (ss_rows s2 r)" using s2(4) by (simp add: at_block_def reading_def)
  have "list_all2 (row_reads E (conn_location (ss_conn s2)) cols) (concat (b' # bs)) v2"
    using v(3) o by (simp add: only_read_def)
  from Cons.IH [OF s2(4,2) as(3) this d1(2)] obtain s3 s4 d where
    IH: "read_rows E r (length v2) (s2, d1) = (v2, (s3, d))" "Next E r (s3, d) = (Err DbEOF, (s4, d))"
      "serving (ss_conn s4) rest" "sent (ss_conn s2) (ss_conn s4) (replicate (length bs) fnFetch)" "only_read s2 r s4"
      "rw_cursorOpen (ss_rows s4 r) = (\<not> cc)" "\<not> rw_closed (ss_rows s4 r)"
    by blast
  obtain s5 where s5: "read_rows E r (length v2) (s1, d1) = (v2, (s5, d))" "Next E r (s5, d) = (Err DbEOF, (s4, d))"
    using read_on [OF s2(1) s1(1-3) open2 IH(1,2)] by blast
  have "read_rows E r (length valss) (s, dest) = (valss, (s5, d))"
    using read_rows_add [OF d1(1) refl, of "length v2"] s5(1) v(1) by simp
  moreover have "sent (ss_conn s) (ss_conn s4) (replicate (length (b' # bs)) fnFetch)"
    using sent_trans [OF s2(3) IH(4)] s1(6) by simp
  moreover have "only_read s r s4" using only_read_trans [OF o IH(5)] .
  ultimately show ?case using s5(2) IH(3,6,7) by blast
qed

section \<open>Opening and closing\<close>

text \<open>The frames an operation only sends when the statement has parameters.\<close>

lemma bind_args_served:
  assumes "serving (ss_conn s) (chg @ as)" "length chg = (if st_params (ss_stmts s i) = [] then 0 else 1)"
    and "\<not> st_descriptorSent (ss_stmts s i)" "length args = length (st_params (ss_stmts s i))"
    and "encode_args E (conn_location (ss_conn s)) 1 (zip (st_params (ss_stmts s i)) args) = Ok values"
  shows "\<exists>data s'. bind_args E i args s = (Ok data, s') \<and> serving (ss_conn s') as
    \<and> ss_stmts s' i = (ss_stmts s i)\<lparr>st_descriptorSent := (st_params (ss_stmts s i) \<noteq> [])\<rparr>
    \<and> conn_location (ss_conn s') = conn_location (ss_conn s) \<and> dc_ids (ss_conn s') = dc_ids (ss_conn s)
    \<and> sent (ss_conn s) (ss_conn s') (if st_params (ss_stmts s i) = [] then [] else [fnChangeDescriptor])"
proof (cases "st_params (ss_stmts s i) = []")
  case True
  with assms show ?thesis by (auto simp: bind_args_def)
next
  case False
  then obtain u where "chg = [u]" using assms(2) by (auto simp: length_Suc_conv)
  then have served: "serving (ss_conn s) (u # as)" using assms(1) by simp
  have "dq_ors (add_param 0x381E (encodeParameterFormat (st_params (ss_stmts s i)))
      (descriptor_request fnChangeDescriptor (ss_stmts s i))) = 0"
    by (simp add: add_defs descriptor_request_def stmt_request_def db_request_for_def)
  from on_sent [OF served this] obtain k where
    "on_conn (db_send (add_param 0x381E (encodeParameterFormat (st_params (ss_stmts s i)))
      (descriptor_request fnChangeDescriptor (ss_stmts s i)))) s = (Ok (), online s k)" "serving (ss_conn (online s k)) as"
    "sent (ss_conn s) (ss_conn (online s k)) [fnChangeDescriptor]"
    by auto
  with False assms(3-5) show ?thesis
    by (auto simp: bind_args_def Let_def bind_op.simps ret_op_def upd_stmt_def)
qed

lemma queryValues_served:
  assumes "serving (ss_conn s) (chg @ a # as)" "length chg = (if st_params (ss_stmts s i) = [] then 0 else 1)"
    and "answers (ve_ccsids E) a rep" "st_columns (ss_stmts s i) \<noteq> None" "\<not> st_closed (ss_stmts s i)"
    and "st_rows (ss_stmts s i) = None" "\<not> st_descriptorSent (ss_stmts s i)" "length args = length (st_params (ss_stmts s i))"
    and "encode_args E (conn_location (ss_conn s)) 1 (zip (st_params (ss_stmts s i)) args) = Ok values"
  shows "\<exists>r s'. queryValues E background i args s = (Ok r, s') \<and> serving (ss_conn s') as \<and> ss_rows s' r = new_rows i rep
    \<and> ss_stmts s' i = (ss_stmts s i)\<lparr>st_descriptorSent := (st_params (ss_stmts s i) \<noteq> []), st_rows := Some r\<rparr>
    \<and> conn_location (ss_conn s') = conn_location (ss_conn s) \<and> dc_ids (ss_conn s') = dc_ids (ss_conn s)
    \<and> sent (ss_conn s) (ss_conn s') ((if st_params (ss_stmts s i) = [] then [] else [fnChangeDescriptor]) @ [fnOpenDescribeFetch])"
proof -
  obtain data s1 where s1: "bind_args E i args s = (Ok data, s1)" "serving (ss_conn s1) (a # as)"
    "ss_stmts s1 i = (ss_stmts s i)\<lparr>st_descriptorSent := (st_params (ss_stmts s i) \<noteq> [])\<rparr>"
    "conn_location (ss_conn s1) = conn_location (ss_conn s)" "dc_ids (ss_conn s1) = dc_ids (ss_conn s)"
    "sent (ss_conn s) (ss_conn s1) (if st_params (ss_stmts s i) = [] then [] else [fnChangeDescriptor])"
    using bind_args_served [OF assms(1,2,7,8,9)] by blast
  obtain k where k: "on_conn (db_request_ok (ve_ccsids E) background ''open cursor''
      (open_request (ss_stmts s1 i) (ss_conn s1) data)) s1 = (Ok rep, online s1 k)" "serving (ss_conn (online s1 k)) as"
    "sent (ss_conn s1) (ss_conn (online s1 k)) [fnOpenDescribeFetch]"
    using on_answered [OF s1(2) assms(3), of _ "open_request (ss_stmts s1 i) (ss_conn s1) data"] by (auto simp: open_request_def)
  have "stmt_usable i s = None" using assms(1,5) by (simp add: stmt_usable_def serving_def)
  moreover have "closeRows i reuseYes s = (Ok (), s)" using assms(6) by (simp add: closeRows_def)
  moreover obtain cs where "st_columns (ss_stmts s i) = Some cs" using assms(4) by blast
  ultimately have q: "queryValues E background i args s = add_rows i (new_rows i rep) (online s1 k)"
    using s1(1) k(1) by (simp add: queryValues_def bind_op.simps)
  show ?thesis unfolding q add_rows_def Let_def using k(2) s1(3-5) sent_trans [OF s1(6) k(3)]
    by (simp add: upd_stmt_def)
qed

lemma rows_close_served:
  assumes "serving (ss_conn s) (cl @ as)" "length cl = (if cc then 0 else 1)"
    and "rw_st (ss_rows s r) = i" "rw_cursorOpen (ss_rows s r) = (\<not> cc)" "st_rows (ss_stmts s i) = Some r"
  shows "\<exists>s'. rows_close r reuse s = (Ok (), s') \<and> serving (ss_conn s') as
    \<and> ss_stmts s' i = (ss_stmts s i)\<lparr>st_rows := None\<rparr> \<and> dc_ids (ss_conn s') = dc_ids (ss_conn s)
    \<and> sent (ss_conn s) (ss_conn s') (if cc then [] else [fnClose])
    \<and> rw_closeStmt (ss_rows s' r) = rw_closeStmt (ss_rows s r) \<and> rw_st (ss_rows s' r) = i"
proof -
  define d where "d = upd_stmt i (\<lambda>x. x\<lparr>st_rows := None\<rparr>) (upd_rows r (\<lambda>x. x\<lparr>rw_closed := True\<rparr>) s)"
  define e where "e = upd_rows r (\<lambda>x. x\<lparr>rw_cursorOpen := False\<rparr>) d"
  define q where "q = addByte 0x3810 reuse (stmt_request fnClose (ss_stmts d i) 0)"
  have e: "ss_conn d = ss_conn s" "ss_conn e = ss_conn s"
    "ss_stmts d i = (ss_stmts s i)\<lparr>st_rows := None\<rparr>" "ss_stmts e i = (ss_stmts s i)\<lparr>st_rows := None\<rparr>"
    "rw_closeStmt (ss_rows d r) = rw_closeStmt (ss_rows s r)" "rw_closeStmt (ss_rows e r) = rw_closeStmt (ss_rows s r)"
    "rw_st (ss_rows d r) = i" "rw_st (ss_rows e r) = i"
    using assms(3) by (simp_all add: e_def d_def upd_rows_def upd_stmt_def)
  have u: "db_usable (ss_conn s) = None" using assms(1) by (simp add: serving_def)
  then have c: "rows_close r reuse s = (if cc then (Ok (), d) else on_conn (db_send q) e)"
    using assms(3-5) by (simp add: rows_close_def Let_def q_def e_def d_def upd_rows_def upd_stmt_def)
  show ?thesis
  proof (cases cc)
    case True
    with c e assms(1,2) show ?thesis by simp
  next
    case False
    then obtain w where "cl = [w]" using assms(2) by (auto simp: length_Suc_conv)
    then have "serving (ss_conn e) (w # as)" "dq_ors q = 0"
      using assms(1) e(2) by (simp_all add: q_def add_defs stmt_request_def db_request_for_def)
    from on_sent [OF this] obtain k where "on_conn (db_send q) e = (Ok (), online e k)"
        "serving (ss_conn (online e k)) as" "sent (ss_conn e) (ss_conn (online e k)) [dq_functionID q]" by blast
    with c e False show ?thesis by (intro exI [of _ "online e k"]) (simp add: q_def)
  qed
qed

lemma rows_Close_answered:
  assumes "serving (ss_conn s) (cl @ del @ [a])" "length cl = (if cc then 0 else 1)"
    and "length del = (if st_descriptorSent (ss_stmts s i) then 1 else 0)" "answers T a rep"
    and "rw_st (ss_rows s r) = i" "\<not> rw_closed (ss_rows s r)" "rw_cursorOpen (ss_rows s r) = (\<not> cc)"
    and "rw_closeStmt (ss_rows s r)" "st_rows (ss_stmts s i) = Some r" "\<not> st_closed (ss_stmts s i)"
  shows "\<exists>s'. rows_Close T r s = (Ok (), s') \<and> sent (ss_conn s) (ss_conn s')
      ((if cc then [] else [fnClose]) @ (if st_descriptorSent (ss_stmts s i) then [fnDeleteDescriptor] else []) @ [fnDeleteRPB])
    \<and> dc_ids (ss_conn s') = (dc_ids (ss_conn s))(st_id (ss_stmts s i) := False) \<and> session_usable s'"
proof -
  from rows_close_served [OF assms(1,2,5,7,9)] obtain s1 where
    s1: "rows_close r reuseYes s = (Ok (), s1)" "serving (ss_conn s1) (del @ [a])"
      "ss_stmts s1 i = (ss_stmts s i)\<lparr>st_rows := None\<rparr>" "dc_ids (ss_conn s1) = dc_ids (ss_conn s)"
      "sent (ss_conn s) (ss_conn s1) (if cc then [] else [fnClose])" "rw_closeStmt (ss_rows s1 r)" "rw_st (ss_rows s1 r) = i"
    using assms(8) by blast
  have i1: "st_descriptorSent (ss_stmts s1 i) = st_descriptorSent (ss_stmts s i)" "st_rows (ss_stmts s1 i) = None"
    "\<not> st_closed (ss_stmts s1 i)" "st_id (ss_stmts s1 i) = st_id (ss_stmts s i)"
    using s1(3) assms(10) by simp_all
  have "length del = (if st_descriptorSent (ss_stmts s1 i) then 1 else 0)" using assms(3) i1(1) by simp
  from stmt_Close_answered [OF s1(2) this assms(4) i1(2,3)] obtain s2 where s2: "stmt_Close T i s1 = (Ok (), s2)"
      "sent (ss_conn s1) (ss_conn s2) ((if st_descriptorSent (ss_stmts s i) then [fnDeleteDescriptor] else []) @ [fnDeleteRPB])"
      "dc_ids (ss_conn s2) = (dc_ids (ss_conn s))(st_id (ss_stmts s i) := False)" "session_usable s2"
    using s1(4) i1 by auto
  have "rows_Close T r s = (Ok (), s2)" using s1(1,6,7) s2(1) assms(6) by (simp add: rows_Close_def)
  with sent_trans [OF s1(5) s2(2)] s2(3,4) show ?thesis by blast
qed

text \<open>The statement a reply describes, and the rows that the first block opens.\<close>

lemma described_new_stmt:
  assumes "map_option df_fields (dr_dataFormat rep) = Some cols" "cols \<noteq> []"
    and "case dr_paramFormat rep of None \<Rightarrow> params = [] | Some pf \<Rightarrow> df_fields pf = params"
  shows "described rep (new_stmt G k query) = (new_stmt G k query)\<lparr>st_columns := Some cols, st_params := params\<rparr>"
  using assms by (auto simp: described_def new_stmt_def split: option.splits)

lemma opened_at_block:
  assumes "ss_rows s r = new_rows i rep" "st_columns (ss_stmts s i) = Some cols"
    and "dr_resultData rep = Some (rows_block cols b)" "endOfData rep = final" "cursorClosedByServer rep = (final \<and> cc)"
    and "table_fits cols b"
  shows "at_block s r cols cc (\<not> final) b \<and> rw_st (ss_rows s r) = i \<and> \<not> rw_closeStmt (ss_rows s r)"
  using assms(2-6) unfolding at_block_def reading_def rows_columns_def columns_of_def assms(1) new_rows_def absorbEnd_def Let_def
  by (cases final; cases cc; simp)

section \<open>Properties\<close>

text \<open>The requests of a query, from \<^verbatim>\<open>Conn.Query\<close> to \<^verbatim>\<open>Rows.Close\<close>.\<close>

definition query_functions :: "bool \<Rightarrow> nat \<Rightarrow> bool \<Rightarrow> 16 word list" where
  "query_functions params blocks cc =
     [fnCreateRPB, fnPrepareDescribe] @ ((if params then [fnChangeDescriptor] else []) @ [fnOpenDescribeFetch])
     @ replicate (blocks - 1) fnFetch
     @ (if cc then [] else [fnClose]) @ (if params then [fnDeleteDescriptor] else []) @ [fnDeleteRPB]"

lemma prepared_query_answered:
  assumes "serving (ss_conn s) (u # p # chg @ a # as)" "allocID (ss_conn s) = (Ok k, c1)"
    and "encodeString (ve_ccsids E) clientCCSID query = Ok enc" "length enc \<le> 0xFFFF"
    and "describes (ve_ccsids E) cols params p" "cols \<noteq> []" "length chg = (if params = [] then 0 else 1)"
    and "convertArgs conv xs = Ok args" "length args = length params"
    and "encode_args E (conn_location (ss_conn s)) 1 (zip params args) = Ok values"
    and "gives_block (ve_ccsids E) cols cc final b a"
  shows "\<exists>i s1 r s2. Prepare G (ve_ccsids E) background query s = (Ok i, s1) \<and> st_columns (ss_stmts s1 i) = Some cols
    \<and> stmt_Query conv E background i xs s1 = (Ok r, s2) \<and> serving (ss_conn s2) as
    \<and> at_block s2 r cols cc (\<not> final) b \<and> conn_location (ss_conn s2) = conn_location (ss_conn s)
    \<and> rw_st (ss_rows s2 r) = i \<and> \<not> rw_closeStmt (ss_rows s2 r) \<and> st_rows (ss_stmts s2 i) = Some r
    \<and> \<not> st_closed (ss_stmts s2 i) \<and> st_descriptorSent (ss_stmts s2 i) = (params \<noteq> [])
    \<and> (dc_ids (ss_conn s2))(st_id (ss_stmts s2 i) := False) = dc_ids (ss_conn s)
    \<and> sent (ss_conn s) (ss_conn s2) ([fnCreateRPB, fnPrepareDescribe]
        @ ((if params \<noteq> [] then [fnChangeDescriptor] else []) @ [fnOpenDescribeFetch]))"
proof -
  obtain rep where rep: "answers (ve_ccsids E) p rep" "map_option df_fields (dr_dataFormat rep) = Some cols"
      "case dr_paramFormat rep of None \<Rightarrow> params = [] | Some pf \<Rightarrow> df_fields pf = params"
    using describesD [OF assms(5)] by auto
  note d = described_new_stmt [OF rep(2) assms(6) rep(3)]
  from Prepare_described [OF assms(1,2) rep(1) assms(3,4)] obtain i s1 where
    s1: "Prepare G (ve_ccsids E) background query s = (Ok i, s1)" "serving (ss_conn s1) (chg @ a # as)"
      "ss_stmts s1 i = (new_stmt G k query)\<lparr>st_columns := Some cols, st_params := params\<rparr>"
      "conn_location (ss_conn s1) = conn_location (ss_conn s)" unfolding d by blast
  have tp: "sent (ss_conn s) (ss_conn s1) [fnCreateRPB, fnPrepareDescribe]" "\<not> dc_ids (ss_conn s) (st_id (ss_stmts s1 i))"
      "dc_ids (ss_conn s1) = (dc_ids (ss_conn s))(st_id (ss_stmts s1 i) := True)"
    using Prepare_traced [OF s1(1)] by blast+
  have i: "st_params (ss_stmts s1 i) = params" "st_columns (ss_stmts s1 i) = Some cols" "\<not> st_closed (ss_stmts s1 i)"
      "st_rows (ss_stmts s1 i) = None" "\<not> st_descriptorSent (ss_stmts s1 i)"
    by (simp_all add: s1(3) new_stmt_def)
  obtain rep1 where rep1: "answers (ve_ccsids E) a rep1" "dr_resultData rep1 = Some (rows_block cols b)" "endOfData rep1 = final"
      "cursorClosedByServer rep1 = (final \<and> cc)" "table_fits cols b" using gives_blockD [OF assms(11)] by blast
  have "length chg = (if st_params (ss_stmts s1 i) = [] then 0 else 1)" "st_columns (ss_stmts s1 i) \<noteq> None"
      "length args = length (st_params (ss_stmts s1 i))"
      "encode_args E (conn_location (ss_conn s1)) 1 (zip (st_params (ss_stmts s1 i)) args) = Ok values"
    using assms(7,9,10) i(1,2) s1(4) by simp_all
  from queryValues_served [OF s1(2) this(1) rep1(1) this(2) i(3-5) this(3,4)] obtain r s2 where
    s2: "queryValues E background i args s1 = (Ok r, s2)" "serving (ss_conn s2) as" "ss_rows s2 r = new_rows i rep1"
      "ss_stmts s2 i = (ss_stmts s1 i)\<lparr>st_descriptorSent := (params \<noteq> []), st_rows := Some r\<rparr>"
      "conn_location (ss_conn s2) = conn_location (ss_conn s1)" "dc_ids (ss_conn s2) = dc_ids (ss_conn s1)"
      "sent (ss_conn s1) (ss_conn s2) ((if params = [] then [] else [fnChangeDescriptor]) @ [fnOpenDescribeFetch])"
    unfolding i(1) by blast
  have "stmt_Query conv E background i xs s1 = (Ok r, s2)"
    using s2(1) assms(8) by (simp add: stmt_Query_def bind_op.simps ret_op_def)
  moreover have "st_columns (ss_stmts s2 i) = Some cols" using i(2) s2(4) by simp
  note opened_at_block [OF s2(3) this rep1(2-5)]
  moreover have "sent (ss_conn s) (ss_conn s2) ([fnCreateRPB, fnPrepareDescribe]
        @ ((if params \<noteq> [] then [fnChangeDescriptor] else []) @ [fnOpenDescribeFetch]))"
    using sent_trans [OF tp(1) s2(7)] by (cases "params = []") simp_all
  moreover have "(dc_ids (ss_conn s2))(st_id (ss_stmts s2 i) := False) = dc_ids (ss_conn s)"
    using tp(2,3) s2(4,6) by (simp add: fun_upd_idem)
  ultimately show ?thesis
    using s1(1) i(2) s2(2,4,5) s1(4) i(3) by (intro exI [of _ i] exI [of _ s1] exI [of _ r] exI [of _ s2]) simp
qed

lemma conn_Query_answered:
  assumes "serving (ss_conn s) (u # p # chg @ a # as)" "allocID (ss_conn s) = (Ok k, c1)"
    and "encodeString (ve_ccsids E) clientCCSID query = Ok enc" "length enc \<le> 0xFFFF"
    and "describes (ve_ccsids E) cols params p" "cols \<noteq> []" "length chg = (if params = [] then 0 else 1)"
    and "convertArgs conv xs = Ok args" "length args = length params"
    and "encode_args E (conn_location (ss_conn s)) 1 (zip params args) = Ok values"
    and "gives_block (ve_ccsids E) cols cc final b a"
  shows "\<exists>r s1 i. conn_Query G conv E background query xs s = (Ok r, s1) \<and> serving (ss_conn s1) as
    \<and> at_block s1 r cols cc (\<not> final) b \<and> conn_location (ss_conn s1) = conn_location (ss_conn s)
    \<and> rw_st (ss_rows s1 r) = i \<and> rw_closeStmt (ss_rows s1 r) \<and> st_rows (ss_stmts s1 i) = Some r \<and> \<not> st_closed (ss_stmts s1 i)
    \<and> st_descriptorSent (ss_stmts s1 i) = (params \<noteq> [])
    \<and> (dc_ids (ss_conn s1))(st_id (ss_stmts s1 i) := False) = dc_ids (ss_conn s)
    \<and> sent (ss_conn s) (ss_conn s1) ([fnCreateRPB, fnPrepareDescribe]
        @ ((if params \<noteq> [] then [fnChangeDescriptor] else []) @ [fnOpenDescribeFetch]))"
proof -
  from prepared_query_answered [OF assms, where G = G] obtain i s1 r s2 where
    q: "Prepare G (ve_ccsids E) background query s = (Ok i, s1)" "stmt_Query conv E background i xs s1 = (Ok r, s2)"
    and rest: "serving (ss_conn s2) as" "at_block s2 r cols cc (\<not> final) b" "conn_location (ss_conn s2) = conn_location (ss_conn s)"
      "rw_st (ss_rows s2 r) = i" "st_rows (ss_stmts s2 i) = Some r" "\<not> st_closed (ss_stmts s2 i)"
      "st_descriptorSent (ss_stmts s2 i) = (params \<noteq> [])"
      "(dc_ids (ss_conn s2))(st_id (ss_stmts s2 i) := False) = dc_ids (ss_conn s)"
    and traffic: "sent (ss_conn s) (ss_conn s2) ([fnCreateRPB, fnPrepareDescribe]
        @ ((if params \<noteq> [] then [fnChangeDescriptor] else []) @ [fnOpenDescribeFetch]))"
    by blast
  define s3 where "s3 = upd_rows r (\<lambda>x. x\<lparr>rw_closeStmt := True\<rparr>) s2"
  have "conn_Query G conv E background query xs s = (Ok r, s3)"
    using q by (simp add: conn_Query_def bind_op.simps s3_def)
  moreover have "ss_stmts s3 = ss_stmts s2" "ss_conn s3 = ss_conn s2" "rw_st (ss_rows s3 r) = i" "rw_closeStmt (ss_rows s3 r)"
    "at_block s3 r cols cc (\<not> final) b"
    using rest(2,4) by (simp_all add: s3_def upd_rows_def at_block_def reading_def rows_columns_def)
  ultimately show ?thesis
    using rest traffic by (intro exI [of _ r] exI [of _ s3] exI [of _ i]) simp
qed

text \<open>C5. A whole query. On a healthy session whose server accepts the query, describes its columns
  and parameters, and answers with a table cut into blocks any way it likes, NULLs anywhere,
  \<^verbatim>\<open>Conn.Query\<close> succeeds; one call of \<^verbatim>\<open>Next\<close> per row of the table delivers its decoded rows,
  each once and in order; the next call reports the end; \<^verbatim>\<open>Rows.Close\<close> then succeeds. The
  requests made are those of \<open>query_functions\<close>: one fetch per further block, the cursor closed
  only if the server has not closed it, and everything created at the server deleted; the
  session is usable and its handle table is what it was.\<close>

theorem query_delivers_the_table:
  assumes "serving (ss_conn s) (u # p # chg @ blocks @ cl @ del @ [a])" "allocID (ss_conn s) = (Ok k, c1)"
    and "encodeString (ve_ccsids E) clientCCSID query = Ok enc" "length enc \<le> 0xFFFF"
    and "describes (ve_ccsids E) cols params p" "cols \<noteq> []"
    and "length chg = (if params = [] then 0 else 1)" "length del = length chg" "length cl = (if cc then 0 else 1)"
    and "convertArgs conv xs = Ok args" "length args = length params"
    and "encode_args E (conn_location (ss_conn s)) 1 (zip params args) = Ok values"
    and "gives_blocks (ve_ccsids E) cols cc bs blocks" "bs \<noteq> []" "accepts (ve_ccsids E) a"
    and "list_all2 (row_reads E (conn_location (ss_conn s)) cols) (concat bs) valss" "length dest = length cols"
  shows "\<exists>r s1 s2 s3 s4 d. conn_Query G conv E background query xs s = (Ok r, s1)
    \<and> read_rows E r (length valss) (s1, dest) = (valss, (s2, d)) \<and> Next E r (s2, d) = (Err DbEOF, (s3, d))
    \<and> rows_Close (ve_ccsids E) r s3 = (Ok (), s4) \<and> session_usable s4 \<and> dc_ids (ss_conn s4) = dc_ids (ss_conn s)
    \<and> sent (ss_conn s) (ss_conn s4) (query_functions (params \<noteq> []) (length bs) cc)"
proof -
  obtain b bs' where bs: "bs = b # bs'" using assms(14) by (cases bs) auto
  obtain f blocks' where bl: "blocks = f # blocks'" "gives_block (ve_ccsids E) cols cc (bs' = []) b f"
      "gives_blocks (ve_ccsids E) cols cc bs' blocks'" using assms(13) unfolding bs by (cases blocks) auto
  have "serving (ss_conn s) (u # p # chg @ f # blocks' @ cl @ del @ [a])" using assms(1) bl(1) by simp
  from conn_Query_answered [OF this assms(2-7,10-12) bl(2)] obtain r s1 i where
    q: "conn_Query G conv E background query xs s = (Ok r, s1)" "serving (ss_conn s1) (blocks' @ cl @ del @ [a])"
      "at_block s1 r cols cc (bs' \<noteq> []) b" "conn_location (ss_conn s1) = conn_location (ss_conn s)"
    and st: "rw_st (ss_rows s1 r) = i" "rw_closeStmt (ss_rows s1 r)" "st_rows (ss_stmts s1 i) = Some r"
      "\<not> st_closed (ss_stmts s1 i)" "st_descriptorSent (ss_stmts s1 i) = (params \<noteq> [])"
    and ids: "(dc_ids (ss_conn s1))(st_id (ss_stmts s1 i) := False) = dc_ids (ss_conn s)"
    and t1: "sent (ss_conn s) (ss_conn s1) ([fnCreateRPB, fnPrepareDescribe]
        @ ((if params \<noteq> [] then [fnChangeDescriptor] else []) @ [fnOpenDescribeFetch]))"
    by blast
  have "list_all2 (row_reads E (conn_location (ss_conn s1)) cols) (concat (b # bs')) valss"
    using assms(16) q(4) bs by simp
  from blocks_delivered [OF q(3,2) bl(3) this assms(17)] obtain s2 s3 d where
    rd: "read_rows E r (length valss) (s1, dest) = (valss, (s2, d))" "Next E r (s2, d) = (Err DbEOF, (s3, d))"
      "serving (ss_conn s3) (cl @ del @ [a])" "sent (ss_conn s1) (ss_conn s3) (replicate (length bs') fnFetch)"
      "only_read s1 r s3" "rw_cursorOpen (ss_rows s3 r) = (\<not> cc)" "\<not> rw_closed (ss_rows s3 r)"
    by blast
  have s3: "ss_stmts s3 = ss_stmts s1" "dc_ids (ss_conn s3) = dc_ids (ss_conn s1)" "rw_st (ss_rows s3 r) = i"
      "rw_closeStmt (ss_rows s3 r)" using rd(5) st(1,2) by (simp_all add: only_read_def)
  have del: "length del = (if st_descriptorSent (ss_stmts s3 i) then 1 else 0)"
    using assms(7,8) st(5) s3(1) by simp
  obtain rep where rep: "answers (ve_ccsids E) a rep"
    using assms(15) by (auto simp: accepts_def answers_def split: res.splits)
  from rows_Close_answered [OF rd(3) assms(9) del rep s3(3) rd(7,6) s3(4)] st(3-5) ids s3(1,2) obtain s4 where
    s4: "rows_Close (ve_ccsids E) r s3 = (Ok (), s4)" "session_usable s4" "dc_ids (ss_conn s4) = dc_ids (ss_conn s)"
      "sent (ss_conn s3) (ss_conn s4) ((if cc then [] else [fnClose]) @ (if params \<noteq> [] then [fnDeleteDescriptor] else []) @ [fnDeleteRPB])"
    by auto
  have "sent (ss_conn s) (ss_conn s4) (query_functions (params \<noteq> []) (length bs) cc)"
    using sent_trans [OF t1 sent_trans [OF rd(4) s4(4)]] bs by (simp add: query_functions_def)
  with q(1) rd(1,2) s4(1-3) show ?thesis by blast
qed

text \<open>Replies of the plainest kind, and a table of one INTEGER column that comes in two blocks.\<close>

definition db_answer :: "16 word \<Rightarrow> 32 word \<Rightarrow> reply_item list \<Rightarrow> request" where
  "db_answer cls rc items = peer_reply ServerDatabase 0 (server_reply (replicate 14 0) cls rc items)"

lemma db_answer_parses:
  assumes "list_all item_ok items" "list_all param_fits (map item_param items)"
    and "length (EncodeParams (map item_param items)) < 2 ^ 30"
  shows "frameable (db_answer cls rc items)"
    and "parseReply T (reply_of (db_answer cls rc items)) = Ok (fold (take_item T) items (blank_reply cls (sint rc)))"
proof -
  show "frameable (db_answer cls rc items)"
    unfolding db_answer_def
    by (rule frameable_peer_reply) (use assms(3) in \<open>simp_all add: ServerDatabase_def server_reply_def\<close>)
  show "parseReply T (reply_of (db_answer cls rc items)) = Ok (fold (take_item T) items (blank_reply cls (sint rc)))"
    by (rule parseReply_server [OF plain_head_zeros assms(1,2)]) (simp add: db_answer_def)
qed

definition describing_answer :: request where
  "describing_answer = db_answer 0 0
     [FormatItem False (be32 0) (be32 0) 4 [as_server_field int_column],
      FormatItem True (be32 0) (be32 0) 4 [as_server_field int_column]]"

definition block_answer :: "16 word \<Rightarrow> 32 word \<Rightarrow> bytes option list list \<Rightarrow> request" where
  "block_answer cls rc b = db_answer cls rc [DataItem (rows_block [int_column] b)]"

definition table_script :: "request list" where
  "table_script = [accepting_reply, describing_answer, accepting_reply, block_answer 0 0 [[Some (be32 258)]],
     block_answer 2 701 [[None]], accepting_reply, accepting_reply, accepting_reply]"

definition table_session :: db_session where
  "table_session = new_session (served_session table_script)"

lemma describing_answer_describes: "describes T [int_column] [int_column] describing_answer"
proof -
  have f: "server_field_ok (as_server_field int_column)" "field_of T (as_server_field int_column) = int_column" for T
    by (simp_all add: as_server_field_def attributes_fit_def int_column_def)
  define items where "items = [FormatItem False (be32 0) (be32 0) 4 [as_server_field int_column],
      FormatItem True (be32 0) (be32 0) 4 [as_server_field int_column]]"
  have ok: "list_all item_ok items" by (simp add: items_def f(1))
  have fits: "list_all param_fits (map item_param items)" 
    by (simp add: items_def param_fits_def length_enc_server_field [OF f(1)] formatFieldLength_def)
  have len: "length (EncodeParams (map item_param items)) < 2 ^ 30"
    by (simp add: items_def length_enc_server_field [OF f(1)] formatFieldLength_def)
  from db_answer_parses [OF ok fits len] show ?thesis
    by (simp add: describes_def describing_answer_def items_def [symmetric])
      (simp add: items_def f(2) blank_reply_def failed_def Let_def)
qed

lemma block_answer_gives:
  assumes "table_fits [int_column] b" "length b < 1000" "final \<or> b \<noteq> []"
    and "cls = (if final then 2 else 0)" "rc = (if final then 701 else 0)"
  shows "gives_block T [int_column] False final b (block_answer cls rc b)"
proof -
  define items where "items = [DataItem (rows_block [int_column] b)]"
  have d: "rd_raw (rows_block [int_column] b) = data_of_rows [int_column] b"
    "length (data_of_rows [int_column] b) < 10000" "data_of_rows [int_column] b \<noteq> []"
    using data_of_rows_split(1) [OF assms(1)] assms(2)
    by (auto simp: rows_block_def recordSize_def int_column_def simp flip: length_greater_0_conv)
  have ok: "list_all item_ok items" using parse_data_of_rows [OF assms(1)] d by (simp add: items_def)
  have fits: "list_all param_fits (map item_param items)" using d by (simp add: items_def param_fits_def)
  have len: "length (EncodeParams (map item_param items)) < 2 ^ 30" using d by (simp add: items_def)
  from db_answer_parses [OF ok fits len] assms show ?thesis
    by (simp add: gives_block_def block_answer_def items_def [symmetric])
      (simp add: items_def blank_reply_def failed_def endOfData_def cursorClosedByServer_def errorClassSQL_def errorClassHostServer_def)
qed

lemma select_encodes:
  "encodeString (ve_ccsids toy_env) clientCCSID ''SELECT'' = Ok (bytes_of_string ''SELECT'')"
  "length (bytes_of_string ''SELECT'') \<le> 0xFFFF"
  by (simp_all add: encodeString_Ok_iff toy_env_def clientCCSID_def ccsidUCS2_def byte_encoding_def bytes_of_string_def)

lemma table_blocks:
  "gives_blocks T [int_column] False [[[Some (be32 258)]], [[None]]]
     [block_answer 0 0 [[Some (be32 258)]], block_answer 2 701 [[None]]]"
proof -
  have fits: "table_fits [int_column] [[Some (be32 258)]]" "table_fits [int_column] [[None]]"
    by (simp_all add: table_fits_def recordSize_def int_column_def)
  show ?thesis using block_answer_gives [OF fits(1), of False] block_answer_gives [OF fits(2), of True] by simp
qed

lemma table_rows:
  "list_all2 (row_reads toy_env UTC [int_column]) (concat [[[Some (be32 258)]], [[None]]]) [[Some (VInt 258)], [None]]"
proof -
  have "decodeValue toy_env int_column (be32 258) UTC = Ok (VInt 258)"
    by (simp add: decodeValue_def int_column_def baseType_def type_defs decode_integer_def wire_simps)
  then show ?thesis by (simp add: row_reads_def column_reads_def int_column_def)
qed

theorem query_delivers_the_table_witness:
  "\<exists>r s1 s2 s3 s4 d. conn_Query toy_crypto Some toy_env background ''SELECT'' [Some (VInt 7)] table_session = (Ok r, s1)
    \<and> read_rows toy_env r 2 (s1, [None]) = ([[Some (VInt 258)], [None]], (s2, d))
    \<and> rows_Close (ve_ccsids toy_env) r s3 = (Ok (), s4) \<and> dc_ids (ss_conn s4) = dc_ids (ss_conn table_session)"
proof -
  let ?bs = "[[[Some (be32 258)]], [[None]]]" and ?valss = "[[Some (VInt 258)], [None]]"
  let ?blocks = "[block_answer 0 0 [[Some (be32 258)]], block_answer 2 701 [[None]]]"
  have served: "serving (ss_conn table_session) (accepting_reply # describing_answer # [accepting_reply] @ ?blocks
      @ [accepting_reply] @ [accepting_reply] @ [accepting_reply])"
    using serving_served_session(1) [of table_script] by (simp add: table_session_def new_session_def table_script_def)
  have k: "allocID (ss_conn table_session) = (Ok 1, (ss_conn table_session)\<lparr>dc_ids := (\<lambda>_. False)(1 := True)\<rparr>)"
    by (subst allocID_first) (simp_all add: table_session_def new_session_def served_session_def new_conn_def)
  have loc: "conn_location (ss_conn table_session) = UTC"
    by (simp add: table_session_def new_session_def served_session_def new_conn_def conn_location_def plain_options_def)
  have args: "encode_args toy_env (conn_location (ss_conn table_session)) 1 (zip [int_column] [Some (VInt 7)]) = Ok [Some (be32 7)]"
    "convertArgs Some [Some (VInt 7)] = Ok [Some (VInt 7)]"
    by (simp_all add: encodeValue_def int_column_def baseType_def type_defs encode_integer_def convertArgs_def)
  from query_delivers_the_table [where G = toy_crypto and cl = "[accepting_reply]" and del = "[accepting_reply]" and cc = False
      and dest = "[None]", OF served k select_encodes describing_answer_describes _ _ _ _ args(2) _ args(1) table_blocks _ accepts_accepting_reply table_rows[folded loc]]
  show ?thesis by (simp add: numeral_2_eq_2) blast
qed

end
