(* ===== verification/CliDatabase.thy ===== *)
theory CliDatabase
  imports DbQuery GoFlag
begin

text \<open>
  \<^verbatim>\<open>examples/database/main.go\<close>: the program that runs one SQL statement and prints its rows. What
  it prints is a list of lines with the data its \<^verbatim>\<open>Printf\<close> formats. A normal return runs the
  deferred calls, a panic too, \<^verbatim>\<open>os.Exit\<close> does not.
\<close>

section \<open>The flags\<close>

record db_flags =
  xf_host :: string
  xf_user :: string
  xf_password :: string
  xf_tls :: bool
  xf_timeout :: int
  xf_iotimeout :: int
  xf_query :: string
  xf_systemNaming :: bool
  xf_schema :: string
  xf_args :: "argument list"

definition db_flag_defaults :: db_flags where
  "db_flag_defaults = \<lparr>xf_host = [], xf_user = [], xf_password = [], xf_tls = False, xf_timeout = 10 * 10 ^ 9,
     xf_iotimeout = 60 * 10 ^ 9, xf_query = [], xf_systemNaming = False, xf_schema = [], xf_args = []\<rparr>"

text \<open>\<^verbatim>\<open>argFlag.Set\<close> and \<^verbatim>\<open>nullFlag.Set\<close>, which appends NULL whatever the value.\<close>

definition arg_flag :: "db_flags flag" where
  "arg_flag = \<lparr>fl_IsBool = False, fl_Set = (\<lambda>v f. Some (f\<lparr>xf_args := xf_args f @ [Some (VString v)]\<rparr>))\<rparr>"

definition null_flag :: "db_flags flag" where
  "null_flag = \<lparr>fl_IsBool = True, fl_Set = (\<lambda>v f. Some (f\<lparr>xf_args := xf_args f @ [None]\<rparr>))\<rparr>"

definition db_flag_set :: "string \<Rightarrow> db_flags flag option" where
  "db_flag_set = map_of
     [(''host'', string_flag (\<lambda>v. xf_host_update (\<lambda>_. v))),
      (''user'', string_flag (\<lambda>v. xf_user_update (\<lambda>_. v))),
      (''password'', string_flag (\<lambda>v. xf_password_update (\<lambda>_. v))),
      (''tls'', bool_flag (\<lambda>v. xf_tls_update (\<lambda>_. v))),
      (''timeout'', duration_flag (\<lambda>v. xf_timeout_update (\<lambda>_. v))),
      (''iotimeout'', duration_flag (\<lambda>v. xf_iotimeout_update (\<lambda>_. v))),
      (''sql'', string_flag (\<lambda>v. xf_query_update (\<lambda>_. v))),
      (''system-naming'', bool_flag (\<lambda>v. xf_systemNaming_update (\<lambda>_. v))),
      (''schema'', string_flag (\<lambda>v. xf_schema_update (\<lambda>_. v))),
      (''arg'', arg_flag),
      (''null'', null_flag)]"

section \<open>Printing rows\<close>

text \<open>A cell: text, a time in RFC 3339 form, or the quoted default format of a value.\<close>

datatype cell = CellText string | CellTime instant | CellQuoted go_value

definition hex_text :: "bytes \<Rightarrow> string" where
  "hex_text b = ''x'' @ CHR 0x27 # concat (map (\<lambda>x. [hex_digit (unat x div 16), hex_digit (unat x mod 16)]) b) @ [CHR 0x27]"

fun cell_of :: "argument \<Rightarrow> cell" where
  "cell_of None = CellText ''NULL''"
| "cell_of (Some (VBytes b)) = CellText (hex_text b)"
| "cell_of (Some (VTime t)) = CellTime t"
| "cell_of (Some v) = CellQuoted v"

datatype db_line =
    DbFail string
  | DbConnectFailed db_error
  | ConnectedLine nat nat string
  | PrepareFailed db_error
  | ExecuteFailed db_error
  | AffectedLine int
  | QueryFailed db_error
  | HeaderLine string
  | FetchFailed db_error
  | RowLine "cell list"
  | CountLine nat

fun join_with :: "string \<Rightarrow> string list \<Rightarrow> string" where
  "join_with sep [] = []"
| "join_with sep [x] = x"
| "join_with sep (x # y # xs) = x @ sep @ join_with sep (y # xs)"

definition header_of :: "column_type list \<Rightarrow> string list" where
  "header_of cts = map (\<lambda>ct. ct_Name ct @ '' '' @ ct_TypeName ct) cts"

text \<open>
  The loop of \<^verbatim>\<open>main\<close> over the rows, each into a new slice. A row comes from the block at hand, or
  after a fetch that took an answer from the server: the loop runs as long as the server sends.
\<close>

definition events_left :: "db_session \<Rightarrow> nat" where
  "events_left s = length (script (dc_conn (ss_conn s)))"

definition rows_left :: "db_session \<Rightarrow> nat \<Rightarrow> nat" where
  "rows_left s r = (case rw_block (ss_rows s r) of None \<Rightarrow> 0 | Some rd \<Rightarrow> rd_rowCount rd - rw_next (ss_rows s r))"

lemma answered_takes_event:
  assumes "Call q c = (Ok rep, c')"
  shows "length (script c') < length (script c)"
  using assms by (cases "script c")
    (auto simp: Call_def CallContext_def exchange_defs dead_event_def write_blocked_def
      split: if_splits prod.splits res.splits)

lemma fetch_takes_event:
  assumes "fetch T r s = (Ok u, s1)"
  shows "events_left s1 < events_left s"
proof -
  obtain rep c where "db_request_ok T background ''fetch''
      (fetch_request (ss_stmts s (rw_st (ss_rows s r))) (ss_conn s)) (ss_conn s) = (Ok rep, c)" "ss_conn s1 = c"
    using assms by (auto simp: fetch_def bind_op_Ok_iff on_conn_def upd_rows_def split: prod.splits)
  then obtain q where "db_call T background q (ss_conn s) = (Ok rep, c)"
    by (auto simp: db_request_ok_def bind_op_Ok_iff ret_op_def split: if_splits)
  then obtain reply where "Call (db_encode q) (dc_conn (ss_conn s)) = (Ok reply, dc_conn c)"
    by (auto simp: db_call_def Call_def split: option.splits prod.splits res.splits if_splits)
  from answered_takes_event [OF this] show ?thesis using \<open>ss_conn s1 = c\<close> by (simp add: events_left_def)
qed

lemma Next_progress:
  assumes "Next E r (s, dest) = (Ok u, (s1, d))"
  shows "events_left s1 < events_left s \<or> events_left s1 = events_left s \<and> rows_left s1 r < rows_left s r"
proof -
  obtain s0 where n: "next_row (ve_ccsids E) r s = (Ok (), s0)" "s1 = upd_rows r (\<lambda>x. x\<lparr>rw_next := rw_next x + 1\<rparr>) s0"
    using assms by (auto simp: Next_def Let_def split: if_splits prod.splits res.splits)
  have e: "events_left s1 = events_left s0" by (simp add: n(2) events_left_def upd_rows_def)
  show ?thesis
  proof (cases "has_row (ss_rows s r)")
    case True
    then have "s0 = s" using n(1) by (simp add: next_row_eq)
    with True n(2) e show ?thesis
      by (auto simp: has_row_def rows_left_def upd_rows_def split: option.splits)
  next
    case False
    then obtain w where "fetch (ve_ccsids E) r s = (Ok w, s0)"
      using n(1) by (auto simp: next_row_eq split: if_splits prod.splits res.splits)
    from fetch_takes_event [OF this] e show ?thesis by simp
  qed
qed

function show_rows :: "value_env \<Rightarrow> nat \<Rightarrow> nat \<Rightarrow> db_session \<Rightarrow> (db_error, unit) res \<times> db_line list \<times> db_session" where
  "show_rows E r n s =
     (case Next E r (s, replicate n None) of
        (Ok _, (s1, d)) \<Rightarrow>
          (case show_rows E r n s1 of (res, lines, s2) \<Rightarrow> (res, RowLine (map cell_of d) # lines, s2))
      | (Err e, (s1, d)) \<Rightarrow> (if e = DbEOF then Ok () else Err e, [], s1)
      | (Panic, (s1, d)) \<Rightarrow> (Panic, [], s1))"
  by pat_completeness auto
termination
proof (relation "measures [\<lambda>(E, r, n, s). events_left s, \<lambda>(E, r, n, s). rows_left s r]", goal_cases)
  case (2 E r n s res sd u s1 d)
  then show ?case using Next_progress [of E r s "replicate n None" u s1 d] by auto
qed simp

declare show_rows.simps [simp del]

section \<open>The program\<close>

text \<open>Deferred calls, the last deferred first. Their errors are dropped, and a panic does not stop the others.\<close>

fun run_deferred :: "unit session_op list \<Rightarrow> unit session_op" where
  "run_deferred [] s = (Ok (), s)"
| "run_deferred (m # ms) s =
     (case m s of (r, s1) \<Rightarrow>
       (case run_deferred ms s1 of (r2, s2) \<Rightarrow> (if r = Panic then Panic else r2, s2)))"

definition close_session :: "unit session_op" where
  "close_session s = (Ok (), s\<lparr>ss_conn := db_Close (ss_conn s)\<rparr>)"

definition returns :: "unit session_op list \<Rightarrow> db_line list \<Rightarrow> db_session \<Rightarrow> status \<times> db_line list \<times> db_session" where
  "returns ds lines s =
     (case run_deferred ds s of (r, s1) \<Rightarrow> (if r = Panic then Crashed else Exit 0, lines, s1))"

definition crashes :: "unit session_op list \<Rightarrow> db_line list \<Rightarrow> db_session \<Rightarrow> status \<times> db_line list \<times> db_session" where
  "crashes ds lines s = (Crashed, lines, snd (run_deferred ds s))"

text \<open>The rows of a query, with its deferred calls.\<close>

definition print_query ::
  "value_env \<Rightarrow> nat \<Rightarrow> nat \<Rightarrow> db_session \<Rightarrow> status \<times> db_line list \<times> db_session" where
  "print_query E i r s =
     (let T = ve_ccsids E; ds = [rows_Close T r, stmt_Close T i, close_session];
          header = header_of (ColumnTypes r s); first = HeaderLine (join_with '' | '' header)
      in case show_rows E r (length header) s of
           (Ok _, ls, s1) \<Rightarrow> returns ds (first # ls @ [CountLine (length ls)]) s1
         | (Err e, ls, s1) \<Rightarrow> (Exit 1, first # ls @ [FetchFailed e], s1)
         | (Panic, ls, s1) \<Rightarrow> crashes ds (first # ls) s1)"

text \<open>\<^verbatim>\<open>main\<close> from \<^verbatim>\<open>Prepare\<close> on.\<close>

definition run_statement ::
  "'a golib_scheme \<Rightarrow> value_env \<Rightarrow> string \<Rightarrow> argument list \<Rightarrow> db_session \<Rightarrow> status \<times> db_line list \<times> db_session" where
  "run_statement G E query args s =
     (let T = ve_ccsids E in
      case Prepare G T background query s of
        (Err e, s1) \<Rightarrow> (Exit 1, [PrepareFailed e], s1)
      | (Panic, s1) \<Rightarrow> crashes [close_session] [] s1
      | (Ok i, s1) \<Rightarrow>
          let ds = [stmt_Close T i, close_session] in
          if \<not> ReturnsRows (ss_stmts s1 i) then
            (case stmt_Exec Some E background i args s1 of
               (Err e, s2) \<Rightarrow> (Exit 1, [ExecuteFailed e], s2)
             | (Panic, s2) \<Rightarrow> crashes ds [] s2
             | (Ok n, s2) \<Rightarrow> returns ds [AffectedLine n] s2)
          else
            (case stmt_Query Some E background i args s1 of
               (Err e, s2) \<Rightarrow> (Exit 1, [QueryFailed e], s2)
             | (Panic, s2) \<Rightarrow> crashes ds [] s2
             | (Ok r, s2) \<Rightarrow> print_query E i r s2))"

definition db_flag_dial :: "db_flags \<Rightarrow> dial_options" where
  "db_flag_dial f = \<lparr>do_Host = xf_host f, do_Port = 0, do_TLS = xf_tls f, do_Timeout = xf_timeout f,
     do_IOTimeout = xf_iotimeout f\<rparr>"

definition db_flag_options :: "location \<Rightarrow> db_flags \<Rightarrow> db_options" where
  "db_flag_options zone f = \<lparr>op_SystemNaming = xf_systemNaming f, op_DefaultSchema = xf_schema f,
     op_Location = Some zone, op_BlockSize = 0\<rparr>"

definition db_usage :: string where
  "db_usage = ''usage: database -host <host> -user <user> [-password <password>] [-tls] ''
     @ ''-sql <statement> [-arg value | -null]...''"

text \<open>\<^verbatim>\<open>main\<close>, given its arguments, \<^verbatim>\<open>JT400_PASSWORD\<close> and \<^verbatim>\<open>time.Local\<close>.\<close>

definition db_main ::
  "'a crypto_scheme \<Rightarrow> value_env \<Rightarrow> (dial_options \<Rightarrow> io_event list option) \<Rightarrow> 64 word \<Rightarrow> location \<Rightarrow> string
   \<Rightarrow> string list \<Rightarrow> status \<times> db_line list \<times> connection option" where
  "db_main C E net millis zone env args =
     (case flag_Parse db_flag_set args db_flag_defaults of
        Inl st \<Rightarrow> (Exit st, [], None)
      | Inr f \<Rightarrow>
          if xf_host f = [] \<or> xf_user f = [] \<or> xf_query f = [] then (Exit 2, [DbFail db_usage], None)
          else
            let pw = chosen_password (xf_password f) env in
            if pw = [] then (Exit 2, [DbFail ''no password given (use -password or set JT400_PASSWORD)''], None)
            else
              (case db_Connect C (ve_ccsids E) net millis (db_flag_dial f) (xf_user f) pw (db_flag_options zone f) of
                 (Panic, k) \<Rightarrow> (Crashed, [], k)
               | (Err e, k) \<Rightarrow> (Exit 1, [DbConnectFailed e], k)
               | (Ok c, k) \<Rightarrow>
                   (case run_statement C E (xf_query f) (xf_args f) (new_session c) of
                      (st, lines, s) \<Rightarrow>
                        (st, ConnectedLine (ServerCCSID c) (VRM c) (JobID c) # lines, Some (dc_conn (ss_conn s))))))"

section \<open>Lemmas\<close>

text \<open>A row that is decoded does not depend on the slice it is decoded into.\<close>

lemma decode_columns_any_slice:
  assumes "decode_columns E loc rd k row i off fs dest = (Ok (), d)" "take i dest' = take i dest"
    and "length dest' = length dest" "i + length fs = length dest"
  shows "decode_columns E loc rd k row i off fs dest' = (Ok (), d)"
  using assms
proof (induction fs arbitrary: i off dest dest')
  case (Cons f fs)
  have t: "take (Suc i) (dest'[i := x]) = take (Suc i) (dest[i := x])" for x
    using Cons.prems(2-4) by (simp add: take_Suc_conv_app_nth)
  have step: "decode_columns E loc rd k row (Suc i) (off + f_length f) fs (dest[i := x]) = (Ok (), d) \<Longrightarrow>
      decode_columns E loc rd k row (Suc i) (off + f_length f) fs (dest'[i := x]) = (Ok (), d)" for x
    using Cons.IH [OF _ t] Cons.prems(3,4) by simp
  from Cons.prems(1) show ?case
    by (auto split: if_splits res.splits dest: step)
qed simp

lemma Next_any_slice:
  assumes "Next E r (s, dest) = (Ok (), (s1, d))" "length dest' = length dest"
  shows "Next E r (s, dest') = (Ok (), (s1, d))"
proof -
  have "decode_row E loc cols rd k dest = (Ok (), d) \<Longrightarrow> decode_row E loc cols rd k dest' = (Ok (), d)" for loc cols rd k
    using assms(2) decode_columns_any_slice [where dest = dest and dest' = dest' and i = 0]
    by (auto simp: decode_row_def split: if_splits res.splits)
  with assms(1) show ?thesis
    by (auto simp: Next_def Let_def split: if_splits prod.splits res.splits)
qed

text \<open>The end of the data is not found in a row.\<close>

lemma row_data_not_Err: "row_of rd k \<noteq> Err e" "indicator rd k j \<noteq> Err e"
  by (auto simp: row_of_def indicator_def slice64_def get16_def Let_def)

lemma decode_columns_not_EOF: "decode_columns E loc rd k row i off fs dest \<noteq> (Err DbEOF, d)"
proof (induction fs arbitrary: i off dest)
  case (Cons f fs)
  have "wrap_err (DbColumn (i + 1) (f_name f)) m \<noteq> Err DbEOF" for m :: "(value_error, go_value) res" by (cases m) auto
  with Cons row_data_not_Err(2) [of rd k i DbEOF] show ?case by (auto split: if_splits res.splits)
qed simp

lemma Next_EOF_any_slice:
  assumes "Next E r (s, dest) = (Err DbEOF, (s1, d))"
  shows "\<exists>d'. Next E r (s, dest') = (Err DbEOF, (s1, d'))"
proof -
  have "decode_row E loc cols rd k dest \<noteq> (Err DbEOF, d)" for loc cols rd k
    using row_data_not_Err(1) [of rd k DbEOF] decode_columns_not_EOF by (auto simp: decode_row_def split: if_splits res.splits)
  with assms show ?thesis
    by (auto simp: Next_def Let_def split: if_splits prod.splits res.splits)
qed

text \<open>What a caller reads call by call is what the loop prints.\<close>

lemma show_rows_read:
  assumes "read_rows E r (length valss) (s, dest) = (valss, (s1, d))" "Next E r (s1, d) = (Err DbEOF, (s2, d2))"
    and "list_all (\<lambda>vals. length vals = n) valss" "length dest = n"
  shows "show_rows E r n s = (Ok (), map (\<lambda>vals. RowLine (map cell_of vals)) valss, s2)"
  using assms
proof (induction valss arbitrary: s dest)
  case Nil
  then obtain d' where "Next E r (s, replicate n None) = (Err DbEOF, (s2, d'))" using Next_EOF_any_slice by fastforce
  then show ?case by (simp add: show_rows.simps)
next
  case (Cons vals valss)
  obtain w s3 d3 where nx: "Next E r (s, dest) = (w, (s3, d3))" by (metis surj_pair)
  with Cons.prems(1) have w: "w = Ok ()" by (cases w) auto
  obtain ys sd where ys: "read_rows E r (length valss) (s3, d3) = (ys, sd)" by (metis surj_pair)
  with nx w Cons.prems(1) have rest: "d3 = vals" "read_rows E r (length valss) (s3, vals) = (valss, (s1, d))" by auto
  have "length (replicate n None) = length dest" using Cons.prems(4) by simp
  from Next_any_slice [OF nx[unfolded w] this] rest(1) have "Next E r (s, replicate n None) = (Ok (), (s3, vals))" by simp
  moreover have "show_rows E r n s3 = (Ok (), map (\<lambda>vals. RowLine (map cell_of vals)) valss, s2)"
    by (rule Cons.IH [OF rest(2)]) (use Cons.prems in simp_all)
  ultimately show ?case by (subst show_rows.simps) simp
qed

lemma row_reads_length: "list_all2 (row_reads E loc cols) vss valss \<Longrightarrow> list_all (\<lambda>vals. length vals = length cols) valss"
  by (induction rule: list_all2_induct) (simp_all add: row_reads_def)

text \<open>Closing the rows and then the statement, both explicitly.\<close>

lemma close_both_answered:
  assumes "serving (ss_conn s) (cl @ del @ [a])" "length cl = (if cc then 0 else 1)"
    and "length del = (if st_descriptorSent (ss_stmts s i) then 1 else 0)" "answers T a rep"
    and "rw_st (ss_rows s r) = i" "\<not> rw_closed (ss_rows s r)" "rw_cursorOpen (ss_rows s r) = (\<not> cc)"
    and "\<not> rw_closeStmt (ss_rows s r)" "st_rows (ss_stmts s i) = Some r" "\<not> st_closed (ss_stmts s i)"
  shows "\<exists>s'. run_deferred [rows_Close T r, stmt_Close T i, close_session] s = (Ok (), s') \<and> net_closed (dc_conn (ss_conn s'))
    \<and> sent (ss_conn s) (ss_conn s')
      ((if cc then [] else [fnClose]) @ (if st_descriptorSent (ss_stmts s i) then [fnDeleteDescriptor] else []) @ [fnDeleteRPB])
    \<and> dc_ids (ss_conn s') = (dc_ids (ss_conn s))(st_id (ss_stmts s i) := False)"
proof -
  from rows_close_served [OF assms(1,2,5,7,9)] obtain s1 where
    s1: "rows_close r reuseYes s = (Ok (), s1)" "serving (ss_conn s1) (del @ [a])"
      "ss_stmts s1 i = (ss_stmts s i)\<lparr>st_rows := None\<rparr>" "dc_ids (ss_conn s1) = dc_ids (ss_conn s)"
      "sent (ss_conn s) (ss_conn s1) (if cc then [] else [fnClose])" "\<not> rw_closeStmt (ss_rows s1 r)"
    using assms(8) by blast
  have rc: "rows_Close T r s = (Ok (), s1)" using s1(1,6) assms(6) by (simp add: rows_Close_def)
  have i1: "st_descriptorSent (ss_stmts s1 i) = st_descriptorSent (ss_stmts s i)" "st_rows (ss_stmts s1 i) = None"
    "\<not> st_closed (ss_stmts s1 i)" "st_id (ss_stmts s1 i) = st_id (ss_stmts s i)"
    using s1(3) assms(10) by simp_all
  have "length del = (if st_descriptorSent (ss_stmts s1 i) then 1 else 0)" using assms(3) i1(1) by simp
  from stmt_Close_answered [OF s1(2) this assms(4) i1(2,3)] obtain s2 where s2: "stmt_Close T i s1 = (Ok (), s2)"
      "sent (ss_conn s1) (ss_conn s2) ((if st_descriptorSent (ss_stmts s i) then [fnDeleteDescriptor] else []) @ [fnDeleteRPB])"
      "dc_ids (ss_conn s2) = (dc_ids (ss_conn s))(st_id (ss_stmts s i) := False)" "session_usable s2"
    using s1(4) i1 by auto
  define s3 where "s3 = s2\<lparr>ss_conn := db_Close (ss_conn s2)\<rparr>"
  have "\<not> dc_closed (ss_conn s2)" using s2(4) by (simp add: session_usable_def db_usable_def split: if_splits)
  then have "net_closed (dc_conn (ss_conn s3))" "db_written (ss_conn s3) = db_written (ss_conn s2)"
      "dc_ids (ss_conn s3) = dc_ids (ss_conn s2)"
    by (simp_all add: s3_def db_Close_def close_conn_def db_written_def)
  moreover have "run_deferred [rows_Close T r, stmt_Close T i, close_session] s = (Ok (), s3)"
    using rc s2(1) by (simp add: close_session_def s3_def)
  moreover have "sent (ss_conn s) (ss_conn s3) ((if cc then [] else [fnClose])
      @ (if st_descriptorSent (ss_stmts s i) then [fnDeleteDescriptor] else []) @ [fnDeleteRPB])"
    using sent_trans [OF s1(5) s2(2)] calculation(2) by (simp add: sent_def)
  ultimately show ?thesis using s2(3) by (intro exI [of _ s3]) simp
qed

text \<open>The header of a table, and the lines of its rows.\<close>

definition table_lines :: "field list \<Rightarrow> argument list list \<Rightarrow> db_line list" where
  "table_lines cols valss =
     HeaderLine (join_with '' | '' (map (\<lambda>f. f_name f @ '' '' @ typeName (baseType f)) cols))
     # map (\<lambda>vals. RowLine (map cell_of vals)) valss @ [CountLine (length valss)]"

lemma print_query_answered:
  assumes "at_block s r cols cc (bs \<noteq> []) b" "serving (ss_conn s) (as @ cl @ del @ [a])" "gives_blocks (ve_ccsids E) cols cc bs as"
    and "list_all2 (row_reads E (conn_location (ss_conn s)) cols) (concat (b # bs)) valss"
    and "length cl = (if cc then 0 else 1)" "length del = (if st_descriptorSent (ss_stmts s i) then 1 else 0)"
    and "answers (ve_ccsids E) a rep" "rw_st (ss_rows s r) = i" "\<not> rw_closeStmt (ss_rows s r)"
    and "st_rows (ss_stmts s i) = Some r" "\<not> st_closed (ss_stmts s i)"
  shows "\<exists>s'. print_query E i r s = (Exit 0, table_lines cols valss, s') \<and> net_closed (dc_conn (ss_conn s'))
    \<and> sent (ss_conn s) (ss_conn s') (replicate (length bs) fnFetch @ (if cc then [] else [fnClose])
        @ (if st_descriptorSent (ss_stmts s i) then [fnDeleteDescriptor] else []) @ [fnDeleteRPB])
    \<and> dc_ids (ss_conn s') = (dc_ids (ss_conn s))(st_id (ss_stmts s i) := False)"
proof -
  have cols: "columns_of (ss_stmts s i) = cols" using assms(1,8) by (simp add: at_block_def rows_columns_def)
  then have h: "header_of (ColumnTypes r s) = map (\<lambda>f. f_name f @ '' '' @ typeName (baseType f)) cols"
    by (simp add: header_of_def ColumnTypes_def assms(8))
  from blocks_delivered [OF assms(1-4), of "replicate (length cols) None"] obtain s1 s2 d where
    rd: "read_rows E r (length valss) (s, replicate (length cols) None) = (valss, (s1, d))" "Next E r (s1, d) = (Err DbEOF, (s2, d))"
      "serving (ss_conn s2) (cl @ del @ [a])" "sent (ss_conn s) (ss_conn s2) (replicate (length bs) fnFetch)"
      "only_read s r s2" "rw_cursorOpen (ss_rows s2 r) = (\<not> cc)" "\<not> rw_closed (ss_rows s2 r)"
    by auto
  have loop: "show_rows E r (length cols) s = (Ok (), map (\<lambda>vals. RowLine (map cell_of vals)) valss, s2)"
    by (rule show_rows_read [OF rd(1,2) row_reads_length [OF assms(4)]]) simp
  have s2: "ss_stmts s2 = ss_stmts s" "dc_ids (ss_conn s2) = dc_ids (ss_conn s)" "rw_st (ss_rows s2 r) = i"
      "\<not> rw_closeStmt (ss_rows s2 r)" using rd(5) assms(8,9) by (simp_all add: only_read_def)
  have del: "length del = (if st_descriptorSent (ss_stmts s2 i) then 1 else 0)" using assms(6) s2(1) by simp
  from close_both_answered [OF rd(3) assms(5) del assms(7) s2(3) rd(7,6) s2(4)] assms(10,11) s2(1,2) obtain s3 where
    s3: "run_deferred [rows_Close (ve_ccsids E) r, stmt_Close (ve_ccsids E) i, close_session] s2 = (Ok (), s3)"
      "net_closed (dc_conn (ss_conn s3))" "dc_ids (ss_conn s3) = (dc_ids (ss_conn s))(st_id (ss_stmts s i) := False)"
      "sent (ss_conn s2) (ss_conn s3) ((if cc then [] else [fnClose])
        @ (if st_descriptorSent (ss_stmts s i) then [fnDeleteDescriptor] else []) @ [fnDeleteRPB])"
    by auto
  have "print_query E i r s = (Exit 0, table_lines cols valss, s3)"
    using loop s3(1) by (simp add: print_query_def h returns_def table_lines_def del: run_deferred.simps)
  with s3(2,3) sent_trans [OF rd(4) s3(4)] show ?thesis by blast
qed

lemma convert_from_Some: "convert_from Some n as = Ok as"
  by (induction as arbitrary: n) simp_all

lemma run_statement_answered:
  assumes "serving (ss_conn s) (u # p # chg @ blocks @ cl @ del @ [a])" "allocID (ss_conn s) = (Ok k, c1)"
    and "encodeString (ve_ccsids E) clientCCSID query = Ok enc" "length enc \<le> 0xFFFF"
    and "describes (ve_ccsids E) cols params p" "cols \<noteq> []"
    and "length chg = (if params = [] then 0 else 1)" "length del = length chg" "length cl = (if cc then 0 else 1)"
    and "length args = length params"
    and "encode_args E (conn_location (ss_conn s)) 1 (zip params args) = Ok values"
    and "gives_blocks (ve_ccsids E) cols cc bs blocks" "bs \<noteq> []" "accepts (ve_ccsids E) a"
    and "list_all2 (row_reads E (conn_location (ss_conn s)) cols) (concat bs) valss"
  shows "\<exists>s'. run_statement G E query args s = (Exit 0, table_lines cols valss, s') \<and> net_closed (dc_conn (ss_conn s'))
    \<and> sent (ss_conn s) (ss_conn s') (query_functions (params \<noteq> []) (length bs) cc) \<and> dc_ids (ss_conn s') = dc_ids (ss_conn s)"
proof -
  obtain b bs' where bs: "bs = b # bs'" using assms(13) by (cases bs) auto
  obtain f blocks' where bl: "blocks = f # blocks'" "gives_block (ve_ccsids E) cols cc (bs' = []) b f"
      "gives_blocks (ve_ccsids E) cols cc bs' blocks'" using assms(12) unfolding bs by (cases blocks) auto
  have served: "serving (ss_conn s) (u # p # chg @ f # blocks' @ cl @ del @ [a])" using assms(1) bl(1) by simp
  have conv: "convertArgs Some args = Ok args" by (simp add: convertArgs_def convert_from_Some)
  from prepared_query_answered [OF served assms(2-7) conv assms(10,11) bl(2), where G = G] obtain i s1 r s2 where
    q: "Prepare G (ve_ccsids E) background query s = (Ok i, s1)" "st_columns (ss_stmts s1 i) = Some cols"
      "stmt_Query Some E background i args s1 = (Ok r, s2)" "serving (ss_conn s2) (blocks' @ cl @ del @ [a])"
      "at_block s2 r cols cc (bs' \<noteq> []) b" "conn_location (ss_conn s2) = conn_location (ss_conn s)"
    and st: "rw_st (ss_rows s2 r) = i" "\<not> rw_closeStmt (ss_rows s2 r)" "st_rows (ss_stmts s2 i) = Some r"
      "\<not> st_closed (ss_stmts s2 i)" "st_descriptorSent (ss_stmts s2 i) = (params \<noteq> [])"
    and ids: "(dc_ids (ss_conn s2))(st_id (ss_stmts s2 i) := False) = dc_ids (ss_conn s)"
    and t1: "sent (ss_conn s) (ss_conn s2) ([fnCreateRPB, fnPrepareDescribe]
        @ ((if params \<noteq> [] then [fnChangeDescriptor] else []) @ [fnOpenDescribeFetch]))"
    by blast
  have rows: "list_all2 (row_reads E (conn_location (ss_conn s2)) cols) (concat (b # bs')) valss"
    using assms(15) q(6) bs by simp
  have del: "length del = (if st_descriptorSent (ss_stmts s2 i) then 1 else 0)" using assms(7,8) st(5) by simp
  obtain rep where "answers (ve_ccsids E) a rep"
    using assms(14) by (auto simp: accepts_def answers_def split: res.splits)
  from print_query_answered [OF q(5,4) bl(3) rows assms(9) del this st(1-4)] obtain s3 where
    s3: "print_query E i r s2 = (Exit 0, table_lines cols valss, s3)" "net_closed (dc_conn (ss_conn s3))"
      "sent (ss_conn s2) (ss_conn s3) (replicate (length bs') fnFetch @ (if cc then [] else [fnClose])
        @ (if params \<noteq> [] then [fnDeleteDescriptor] else []) @ [fnDeleteRPB])" "dc_ids (ss_conn s3) = dc_ids (ss_conn s)"
    unfolding st(5) ids by blast
  have "run_statement G E query args s = (Exit 0, table_lines cols valss, s3)"
    using q(1-3) s3(1) by (simp add: run_statement_def Let_def ReturnsRows_def)
  moreover have "sent (ss_conn s) (ss_conn s3) (query_functions (params \<noteq> []) (length bs) cc)"
    using sent_trans [OF t1 s3(3)] bs by (simp add: query_functions_def)
  ultimately show ?thesis using s3(2,4) by blast
qed

section \<open>Lemmas: a server that lets the client in\<close>

text \<open>The schema is readable for the server, and its attributes are all there.\<close>

definition greets :: "ccsid_table \<Rightarrow> db_options \<Rightarrow> request \<Rightarrow> bool" where
  "greets T opts a \<longleftrightarrow> (op_DefaultSchema opts = [] \<or> (\<exists>b. encodeString T ccsidEBCDIC37 (op_DefaultSchema opts) = Ok b))
     \<and> (\<exists>rep. answers T a rep \<and> 60 \<le> length (dr_serverAttributes rep))"

lemma setServerAttributes_answered:
  assumes "serving c (a # as)" "greets T (dc_opts c) a"
  shows "\<exists>c'. setServerAttributes T c = (Ok (), c') \<and> serving c' as \<and> length (db_written c') = length (db_written c) + 1"
proof -
  obtain rep where a: "frameable a" "parseReply T (reply_of a) = Ok rep" "\<not> failed rep" "60 \<le> length (dr_serverAttributes rep)"
    using assms(2) by (auto simp: greets_def answers_def)
  have "list_all simple_char clientFunctionalLevel" by code_simp
  then obtain lv where lv: "EncodeEBCDIC clientFunctionalLevel = Ok lv" by (auto simp: EncodeEBCDIC_Ok_iff simp del: EncodeEBCDIC.simps)
  have "\<exists>req. attributes_request T (dc_opts c) = Ok req"
  proof (cases "op_DefaultSchema (dc_opts c) = []")
    case False
    then obtain b where "encodeString T ccsidEBCDIC37 (op_DefaultSchema (dc_opts c)) = Ok b"
      using assms(2) by (auto simp: greets_def)
    then show ?thesis by (simp add: attributes_request_def lv Let_def)
  qed (simp add: attributes_request_def lv Let_def)
  then obtain req where req: "attributes_request T (dc_opts c) = Ok req" by blast
  from db_call_served [OF assms(1) a(1,2), of req] obtain c1 where
    c1: "db_call T background req c = (Ok rep, c1)" "serving c1 as" "length (db_written c1) = length (db_written c) + 1"
    by auto
  moreover obtain c2 where "parseServerAttributes T (dr_serverAttributes rep) c1 = (Ok (), c2)" "dc_conn c2 = dc_conn c1"
      "db_usable c2 = db_usable c1" using a(4) by (auto simp: parseServerAttributes_def Let_def db_usable_def)
  ultimately show ?thesis using req a(3)
    by (auto simp: setServerAttributes_def bind_op.simps wrap_op_def ret_op_def serving_def db_written_def)
qed

lemma db_Connect_answered:
  assumes "net (default_port PortDatabasePlain PortDatabaseSecure dial) = Some (map answering (x # s # at # as))"
    and "lets_in C millis user pw x s" "greets T (with_defaults opts) at"
  shows "\<exists>c. db_Connect C T net millis dial user pw opts = (Ok c, Some (dc_conn c)) \<and> serving c as \<and> length (db_written c) = 3"
proof -
  let ?dial = "default_port PortDatabasePlain PortDatabaseSecure dial"
  let ?k = "dialed (do_IOTimeout ?dial) (map answering (x # s # at # as))"
  obtain ses k where k: "Logon C millis ServerDatabase user pw ?k = (Ok ses, k)" "idle k" "script k = map answering (at # as)"
      "length (written k) = 2"
    using Logon_answered [of ?k x s "map answering (at # as)" C millis user pw ServerDatabase] assms(2) by auto
  then have "serving (new_conn (with_defaults opts) k) (at # as)" "dc_opts (new_conn (with_defaults opts) k) = with_defaults opts"
    by (simp_all add: serving_def new_conn_def db_usable_def)
  from setServerAttributes_answered [OF this(1)] assms(3) this(2) obtain c where
    "setServerAttributes T (new_conn (with_defaults opts) k) = (Ok (), c)" "serving c as" "length (db_written c) = 3"
    using k(4) by auto
  with assms(1) k(1) show ?thesis
    by (auto simp: db_Connect_def connect_with_def Dial_def db_handshake_def bind_op.simps wrap_op_def simp del: list.map)
qed

section \<open>Properties\<close>

text \<open>C6. The \<^verbatim>\<open>database\<close> program prints the table. Against a server that lets the user in, prepares
  the statement as a query with a table of columns and parameters, opens it with its first block
  of rows and gives the further blocks when they are fetched, and with command-line arguments the
  parameters accept: the program ends with 0, having printed the connection, the header and
  every row once, in order, and their number; its connection is closed, and what it sent after
  the logon is exactly the requests of the query and of its release.\<close>

theorem database_program_prints_the_table:
  assumes "crypto_sizes C" and "flag_Parse db_flag_set args db_flag_defaults = Inr f"
    and "xf_host f \<noteq> []" "xf_user f \<noteq> []" "xf_query f \<noteq> []" "chosen_password (xf_password f) env \<noteq> []"
    and "net (default_port PortDatabasePlain PortDatabaseSecure (db_flag_dial f))
      = Some (map answering (x # s # at # u # p # chg @ blocks @ cl @ del @ [a]))"
    and "lets_in C millis (xf_user f) (chosen_password (xf_password f) env) x s"
    and "greets (ve_ccsids E) (with_defaults (db_flag_options zone f)) at"
    and "encodeString (ve_ccsids E) clientCCSID (xf_query f) = Ok enc" "length enc \<le> 0xFFFF"
    and "describes (ve_ccsids E) cols params p" "cols \<noteq> []"
    and "length chg = (if params = [] then 0 else 1)" "length del = length chg" "length cl = (if cc then 0 else 1)"
    and "length (xf_args f) = length params" "encode_args E zone 1 (zip params (xf_args f)) = Ok values"
    and "gives_blocks (ve_ccsids E) cols cc bs blocks" "bs \<noteq> []" "accepts (ve_ccsids E) a"
    and "list_all2 (row_reads E zone cols) (concat bs) valss"
  shows "\<exists>c conn fs. db_main C E net millis zone env args
        = (Exit 0, ConnectedLine (ServerCCSID c) (VRM c) (JobID c) # table_lines cols valss, Some conn)
    \<and> net_closed conn \<and> length fs = 3
    \<and> (\<exists>qs. written conn = fs @ qs \<and> map frame_function qs = query_functions (params \<noteq> []) (length bs) cc)"
proof -
  let ?pw = "chosen_password (xf_password f) env" and ?opts = "db_flag_options zone f"
  from db_Connect_answered [of net "db_flag_dial f" x s at "u # p # chg @ blocks @ cl @ del @ [a]", OF assms(7-9)] obtain c where
    c: "db_Connect C (ve_ccsids E) net millis (db_flag_dial f) (xf_user f) ?pw ?opts = (Ok c, Some (dc_conn c))"
      "serving c (u # p # chg @ blocks @ cl @ del @ [a])" "length (db_written c) = 3" by blast
  from db_Connect_fresh [OF assms(1) c(1)] have ids: "\<not> dc_ids c 1" and opts: "dc_opts c = with_defaults ?opts"
    by (simp_all add: fresh_def)
  have ss: "ss_conn (new_session c) = c" by (simp add: new_session_def)
  have loc: "conn_location c = zone"
    by (simp add: conn_location_def opts with_defaults_def db_flag_options_def Let_def)
  from run_statement_answered [of "new_session c", unfolded ss loc, OF c(2) allocID_first [OF ids] assms(10-22)] obtain s' where
    s': "run_statement C E (xf_query f) (xf_args f) (new_session c) = (Exit 0, table_lines cols valss, s')"
      "net_closed (dc_conn (ss_conn s'))" "sent c (ss_conn s') (query_functions (params \<noteq> []) (length bs) cc)"
    by blast
  have "db_main C E net millis zone env args = (Exit 0, ConnectedLine (ServerCCSID c) (VRM c) (JobID c) # table_lines cols valss,
      Some (dc_conn (ss_conn s')))"
    using assms(2-6) c(1) s'(1) by (simp add: db_main_def Let_def)
  moreover obtain qs where "db_written (ss_conn s') = db_written c @ qs" "map frame_function qs = query_functions (params \<noteq> []) (length bs) cc"
    using s'(3) by (auto simp: sent_def)
  ultimately show ?thesis using s'(2) c(3) unfolding db_written_def by blast
qed

text \<open>A system that asks for level 2, lets the user in and serves the table of two rows.\<close>

definition table_net :: "dial_options \<Rightarrow> io_event list option" where
  "table_net _ = Some (map answering (peer_reply ServerDatabase 2 (be32 0 @ be64 7) # peer_reply ServerDatabase 0 (be32 0)
     # db_answer 0 0 [AttributesItem [0, 0] (replicate 60 0)] # table_script))"

definition table_args :: "string list" where
  "table_args = map flag_text [(''host'', ''h''), (''user'', ''ME''), (''sql'', ''SELECT''), (''arg'', ''7'')]"

lemma table_logon: "lets_in toy_crypto 1 ''ME'' ''PW'' (peer_reply ServerDatabase 2 (be32 0 @ be64 7)) (peer_reply ServerDatabase 0 (be32 0))"
proof -
  let ?x = "peer_reply ServerDatabase 2 (be32 0 @ be64 7)" and ?s = "peer_reply ServerDatabase 0 (be32 0)"
  have fr: "frameable ?x" "frameable ?s" by (rule frameable_peer_reply; simp add: ServerDatabase_def)+
  have x: "parseXChgRandSeedReply (reply_of ?x) = Ok (be64 7, 2)"
    using RC_be32 [of "reply_of ?x" 0 "be64 7"]
    by (simp add: parseXChgRandSeedReply_def go_slice_def ServerAttr_def fit_def)
  have s: "parseStartServerReply (reply_of ?s) = Ok []"
    using RC_be32 [of "reply_of ?s" 0 "[]"] DecodeParams_encode [of "[]"]
    by (simp add: parseStartServerReply_def slice_from_def job_name_field_def)
  have "list_all (\<lambda>c. (of_char c :: nat) < 0x80) ''ME''" "map (\<lambda>c. char_of (ascii_upper (of_char c))) ''ME'' = ''ME''"
      "list_all simple_char ''ME''" "trimTrailingUnicodeSpace ''PW'' = ''PW''" by code_simp+
  then have up: "ToUpper toy_crypto ''ME'' = ''ME''" "list_all simple_char ''ME''" "trimTrailingUnicodeSpace ''PW'' = ''PW''"
    by (simp_all only: ToUpper_def if_True)
  then obtain uid where uid: "EncodeEBCDIC10 ''ME'' = Ok uid"
    using EncodeEBCDICPadded_total [of "''ME''" 10] by (auto simp: EncodeEBCDIC10_padded)
  then have "\<exists>auth. EncryptPassword toy_crypto 2 ''ME'' ''PW'' (be64 1) (be64 7) = Ok auth"
    by (simp add: EncryptPassword_def encryptPasswordSHA1_def up Let_def)
  with x s up uid fr show ?thesis by (auto simp: lets_in_def)
qed

lemma table_greets: "op_DefaultSchema opts = [] \<Longrightarrow> greets T opts (db_answer 0 0 [AttributesItem [0, 0] (replicate 60 0)])"
  using db_answer_parses [where items = "[AttributesItem [0, 0] (replicate 60 0)]" and cls = 0 and rc = 0]
  by (simp add: greets_def answers_def param_fits_def failed_def blank_reply_def)

theorem database_program_prints_the_table_witness:
  "\<exists>c conn. db_main toy_crypto toy_env table_net 1 UTC ''PW'' table_args
     = (Exit 0, [ConnectedLine (ServerCCSID c) (VRM c) (JobID c), HeaderLine '' INTEGER'', RowLine [CellQuoted (VInt 258)],
         RowLine [CellText ''NULL''], CountLine 2], Some conn) \<and> net_closed conn \<and> length (written conn) = 11"
proof -
  let ?f = "db_flag_defaults\<lparr>xf_host := ''h'', xf_user := ''ME'', xf_query := ''SELECT'', xf_args := [Some (VString ''7'')]\<rparr>"
  let ?x = "peer_reply ServerDatabase 2 (be32 0 @ be64 7)" and ?s = "peer_reply ServerDatabase 0 (be32 0)"
  let ?at = "db_answer 0 0 [AttributesItem [0, 0] (replicate 60 0)]"
  have flags: "flag_Parse db_flag_set table_args db_flag_defaults = Inr ?f"
    unfolding table_args_def
    by (rule flag_Parse_text) (simp_all add: flag_word_def db_flag_set_def string_flag_def arg_flag_def db_flag_defaults_def)
  have main: "db_main toy_crypto toy_env table_net 1 UTC ''PW'' table_args = (Exit 0,
      ConnectedLine (ServerCCSID c) (VRM c) (JobID c) # table_lines [int_column] [[Some (VInt 258)], [None]], Some conn)
    \<Longrightarrow> db_main toy_crypto toy_env table_net 1 UTC ''PW'' table_args
     = (Exit 0, [ConnectedLine (ServerCCSID c) (VRM c) (JobID c), HeaderLine '' INTEGER'', RowLine [CellQuoted (VInt 258)],
         RowLine [CellText ''NULL''], CountLine 2], Some conn)" for c conn
    by (simp add: table_lines_def int_column_def baseType_def type_defs typeName_def type_names_def)
  have pre: "xf_host ?f \<noteq> []" "xf_user ?f \<noteq> []" "xf_query ?f \<noteq> []" "chosen_password (xf_password ?f) ''PW'' \<noteq> []"
    by (simp_all add: chosen_password_def db_flag_defaults_def)
  have net: "table_net (default_port PortDatabasePlain PortDatabaseSecure (db_flag_dial ?f)) = Some (map answering (?x # ?s # ?at
      # accepting_reply # describing_answer # [accepting_reply]
      @ [block_answer 0 0 [[Some (be32 258)]], block_answer 2 701 [[None]]] @ [accepting_reply] @ [accepting_reply] @ [accepting_reply]))"
    by (simp add: table_net_def table_script_def)
  have li: "lets_in toy_crypto 1 (xf_user ?f) (chosen_password (xf_password ?f) ''PW'') ?x ?s"
    using table_logon by (simp add: chosen_password_def db_flag_defaults_def)
  have gr: "greets (ve_ccsids toy_env) (with_defaults (db_flag_options UTC ?f)) ?at"
    by (rule table_greets) (simp add: with_defaults_def db_flag_options_def db_flag_defaults_def)
  have q: "xf_query ?f = ''SELECT''" "xf_args ?f = [Some (VString ''7'')]" by simp_all
  have "rune_chunks ''7'' = [(55, ''7'')]" by (subst rune_chunks_ascii) simp_all
  then have "TrimSpace ''7'' = ''7''" by (simp add: TrimSpace_def trim_both_def trim_right_def is_space_def unchunk_def)
  then have seven: "ParseInt (TrimSpace ''7'') = Some 7"
    by (simp add: ParseInt_def split_sign_def HasPrefix_def is_digit_def digits_val_def digit_val_def)
  have args: "encode_args toy_env UTC 1 (zip [int_column] [Some (VString ''7'')]) = Ok [Some (be32 7)]"
    by (simp add: encodeValue_def int_column_def baseType_def type_defs encode_integer_def parse_int_text_def seven)
  from database_program_prints_the_table [where net = table_net and f = ?f and x = ?x and s = ?s and at = ?at
      and blocks = "[block_answer 0 0 [[Some (be32 258)]], block_answer 2 701 [[None]]]" and chg = "[accepting_reply]"
      and cl = "[accepting_reply]" and del = "[accepting_reply]" and bs = "[[[Some (be32 258)]], [[None]]]" and cc = False,
      OF toy_crypto_sizes flags pre net li gr, unfolded q, OF select_encodes describing_answer_describes _ _ _ _ _ args table_blocks _
      accepts_accepting_reply table_rows]
  obtain c conn fs qs where r: "db_main toy_crypto toy_env table_net 1 UTC ''PW'' table_args = (Exit 0,
      ConnectedLine (ServerCCSID c) (VRM c) (JobID c) # table_lines [int_column] [[Some (VInt 258)], [None]], Some conn)"
    "net_closed conn" "length fs = 3" "written conn = fs @ qs" "map frame_function qs = query_functions True 2 False"
    by (auto simp: numeral_2_eq_2)
  from arg_cong [OF r(5), of length] have "length qs = 8" by (simp add: query_functions_def)
  with main [OF r(1)] r(2-4) show ?thesis by auto
qed

end
