(* ===== verification/Spec2Isabelle.thy ===== *)
theory Spec2Isabelle
  imports DbTypes DbDriver Dtaq CliSignon CliRmtcmd CliDatabase
begin

text \<open>
  A model of jt400-go, a client library for four IBM i host servers, and the theorems that make it
  correct. All definitions are translated from the Go sources under \<^verbatim>\<open>src/\<close>.

  \<^bold>\<open>The program.\<close> Package \<^verbatim>\<open>as400\<close> frames requests and replies with a 20-byte header and exchanges
  them over a TCP or TLS connection, one exchange at a time; \<^verbatim>\<open>as400/auth\<close> converts to EBCDIC and
  computes password substitutes; \<^verbatim>\<open>as400/logon.go\<close> exchanges seeds and starts a server job. On this
  stand four independent services: \<^verbatim>\<open>signon\<close> (authentication), \<^verbatim>\<open>dtaq\<close> (data queues), \<^verbatim>\<open>rmtcmd\<close>
  (commands and program calls) and \<^verbatim>\<open>database\<close> (SQL), the last with an adapter to \<^verbatim>\<open>database/sql\<close>.
  The programs under \<^verbatim>\<open>examples/\<close> sign on, run a command or a program, and run an SQL statement.

  \<^bold>\<open>How Go is modelled.\<close> A function that returns \<^verbatim>\<open>(T, error)\<close> yields \<open>Ok\<close>, \<open>Err\<close> or \<open>Panic\<close>; every
  index and slice is checked, so that running out of range is \<open>Panic\<close> and not an arbitrary value. A
  function that changes the object it is called on is an operation, from the state to a result and
  the state after (\<open>Ops\<close>); \<open>bind_op\<close> composes as Go does, an error ending the caller. Integers of a
  fixed width are words, where the code computes in \<^verbatim>\<open>int\<close> and cannot overflow they are \<open>nat\<close> or
  \<open>int\<close>, and where it can overflow the reduction is written out. Strings are byte strings. Pointers
  to statements and rows are addresses in heaps that are part of the session, so aliasing is kept.
  The network is a script of what happens in each exchange: whether the write fails, which bytes
  arrive, when the context ends. A theorem that holds for all scripts holds for every server.

  \<^bold>\<open>Theories and sources.\<close>
    \<^item> \<open>Prelude\<close>: results, bytes, big-endian integers, slices; the interfaces of codecs and of state
      machines that keep an invariant or a log. \<open>Ops\<close>: operations and the interface \<open>transport\<close>, what
      every service needs of the connection.
    \<^item> \<open>GoText\<close>, \<open>GoStrings\<close>, \<open>GoNumbers\<close>, \<open>GoUrl\<close>: what the program uses of the Go library: UTF-8 and
      UTF-16, \<^verbatim>\<open>strings\<close>, \<^verbatim>\<open>strconv\<close>, floats as IEEE bits, layouts of dates, \<^verbatim>\<open>net/url\<close> and durations.
    \<^item> \<open>Datastream\<close> (\<^verbatim>\<open>as400/datastream.go\<close>), \<open>Params\<close> (\<^verbatim>\<open>params.go\<close>), \<open>Connection\<close> (\<^verbatim>\<open>conn.go\<close>,
      \<^verbatim>\<open>serverid.go\<close>), \<open>Ebcdic\<close> and \<open>Password\<close> (\<^verbatim>\<open>as400/auth\<close>), \<open>Logon\<close> (\<^verbatim>\<open>logon.go\<close>).
    \<^item> \<open>Signon\<close>, \<open>Dtaq\<close>, and for \<^verbatim>\<open>rmtcmd\<close> the theories \<open>Rle\<close> (\<^verbatim>\<open>rle.go\<close>), \<open>RmtMessages\<close>
      (\<^verbatim>\<open>messages.go\<close>) and \<open>Rmtcmd\<close> (the rest).
    \<^item> \<open>Ccsid\<close> (\<^verbatim>\<open>ccsid.go\<close>), \<open>DbFormat\<close> (\<^verbatim>\<open>format.go\<close>), \<open>DbWire\<close> (\<^verbatim>\<open>wire.go\<close>, \<^verbatim>\<open>errors.go\<close>), \<open>DbDecimal\<close>
      and \<open>DbValue\<close> (\<^verbatim>\<open>value.go\<close>), \<open>DbConn\<close> (\<^verbatim>\<open>conn.go\<close>), \<open>DbStmt\<close> (\<^verbatim>\<open>stmt.go\<close>), \<open>DbDsn\<close> and \<open>DbDriver\<close>
      (\<^verbatim>\<open>driver.go\<close>). \<open>DbTx\<close>, \<open>DbSession\<close>, \<open>DbRows\<close>, \<open>DbTypes\<close>, \<open>DbTrace\<close> and \<open>DbQuery\<close> hold no code:
      they are the theorems about the last ones.
    \<^item> \<open>CliSignon\<close>, \<open>CliRmtcmd\<close> and \<open>CliDatabase\<close>: the \<^verbatim>\<open>main.go\<close> of the three programs under \<^verbatim>\<open>examples/\<close>,
      on \<open>GoFlag\<close>, the \<^verbatim>\<open>flag\<close> package as they use it. A program is a function from its arguments, the
      environment and the network to an exit status, the lines printed and the connection dialed.

  \<^bold>\<open>What is shown.\<close>
    \<^item> The wire formats: what is encoded is decoded, by a reader written from the format and not
      from the code, for frames, LL/CP parameters, requests of every service, formats, rows and
      replies; readers accept exactly the well-formed inputs, and do not panic on any input except
      where a finding says so. The hand-written loops (PBKDF2, run-length decoding, DES key
      schedules) are equal to reference definitions.
    \<^item> The connection: correlation numbers, which frame answers which request, deadlines. Services
      get these through the interfaces \<open>transport\<close> and \<open>logging_machine\<close>.
    \<^item> Values: every SQL type is read back as written, decimals exactly, times cut down to the field;
      a row that is delivered has the types of its columns, NULL where the server said NULL.
    \<^item> Commitment control: \<open>DbTx\<close> states the protocol of autocommit, \<^verbatim>\<open>Begin\<close>, \<^verbatim>\<open>Commit\<close> and \<^verbatim>\<open>Rollback\<close> as a
      step relation over requests, and the operations refine it, whatever the server answers.
    \<^item> Sessions: an invariant over any sequence of calls ties statement handles to open statements
      and server cursors to rows; a one-off statement leaves nothing at the server; \<^verbatim>\<open>Next\<close> ends
      after at most one fetch; a query delivers the table the server holds, once and in order,
      however it is cut into blocks, with exactly the requests that takes.
    \<^item> The driver: a call is retried on another connection only if nothing was sent; data source
      names are read back whatever their encoding and the order of their parameters.
    \<^item> The programs: their status tells what happened, whatever the server does; parameters on the
      command line reach the request as written; dates are shown as the server sent them; and, all
      layers together from the dial to the last line, the SQL program prints the server's table.

  \<^bold>\<open>Interfaces.\<close> \<open>prefix_codec\<close>, \<open>invariant_machine\<close>, \<open>logging_machine\<close> (\<open>Prelude\<close>), \<open>transport\<close> (\<open>Ops\<close>),
  \<open>char_table\<close> (\<open>Ebcdic\<close>), \<open>session\<close> (\<open>DbTx\<close>) and \<open>guarded_call\<close> (\<open>DbDriver\<close>) are locales, each interpreted
  on the definitions that provide it.

  \<^bold>\<open>Loops.\<close> Every loop is a total function: by structure, or with a measure that its termination
  proof gives (the rest of the input; for \<^verbatim>\<open>Next\<close>, that a fetch yields a row or the end; for the
  loop that prints rows, the answers the server has left and the rows of the block). The only
  loop that may run forever is the one of \<^verbatim>\<open>padText\<close>, a partial function to \<open>option\<close>: it is shown to
  return whenever the encoded blank is not empty, and \<open>NeverReturns\<close> stands for the other case.

  \<^bold>\<open>Parameters.\<close> What the code does not define is an argument: hash functions and block ciphers, the
  character converters of \<^verbatim>\<open>golang.org/x/text\<close>, Unicode tables beyond ASCII, the time zone database,
  shortest formatting and parsing of floats, argument converters, hosts that are IP literals.

  \<^bold>\<open>Not modelled.\<close> The rendering of the lines the programs print, beyond their data, and the help text of
  \<^verbatim>\<open>flag\<close>; the comments of \<^verbatim>\<open>doc.go\<close>; the registration of the driver and its interface assertions; the
  text of error messages except where it is data; TLS settings beyond their presence; the memory
  that an allocation takes; and locks: the code asks for one goroutine per connection, and the
  table of converters changes only between operations.
\<close>

end
